(* ===== verification/Prelude.thy ===== *)
theory Prelude
  imports Main "HOL-Library.AList" "HOL-Library.Signed_Division"
begin

text \<open>
  The Go constructs every component of the development shares: run-time panics as values
  of a sum type, slices with bounds checks, the truncating remainder, the counting
  \<^verbatim>\<open>for\<close> loop, and maps as association lists with distinct keys, together with the
  lemmas the component proofs rewrite with.
\<close>

named_theorems go_simps \<open>evaluation of the Go run-time operations\<close>

subsection \<open>Panics\<close>

datatype go_panic =
    NilDeref            \<comment> \<open>nil pointer dereference, or a call of a nil function\<close>
  | IndexOutOfRange     \<comment> \<open>slice index outside its bounds\<close>
  | DivideByZero        \<comment> \<open>integer division or remainder by zero\<close>
  | MakeSliceLen        \<comment> \<open>\<^verbatim>\<open>make\<close> with a negative length\<close>
  | TypeAssertion       \<comment> \<open>failed interface conversion \<^verbatim>\<open>x.(T)\<close>\<close>
  | CloseClosed         \<comment> \<open>\<^verbatim>\<open>close\<close> of a closed channel\<close>
  | TickerInterval      \<comment> \<open>\<^verbatim>\<open>time.NewTicker\<close> with a non-positive interval\<close>
  | RandArgument        \<comment> \<open>\<^verbatim>\<open>rand.Intn\<close> with a non-positive argument\<close>
  | CloseNil            \<comment> \<open>\<^verbatim>\<open>close\<close> of a nil channel\<close>
  | PanicErr string     \<comment> \<open>\<^verbatim>\<open>panic(err)\<close>\<close>
  | LogFatal string     \<comment> \<open>\<^verbatim>\<open>log.Fatal(err)\<close>: not a panic, the program exits\<close>

type_synonym 'a go = "go_panic + 'a"

definition go_bind :: "'a go \<Rightarrow> ('a \<Rightarrow> 'b go) \<Rightarrow> 'b go" where
  "go_bind x f = (case x of Inl e \<Rightarrow> Inl e | Inr v \<Rightarrow> f v)"

lemma go_bind_simps [simp]:
  "go_bind (Inl e) f = Inl e"
  "go_bind (Inr v) f = f v"
  by (simp_all add: go_bind_def)

lemma go_bind_eq_Inr:
  "go_bind x f = Inr w \<longleftrightarrow> (\<exists>v. x = Inr v \<and> f v = Inr w)"
  by (cases x) simp_all

subsection \<open>Slices and integer remainder\<close>

definition go_make :: "'a \<Rightarrow> int \<Rightarrow> 'a list go" where
  "go_make z n = (if n < 0 then Inl MakeSliceLen else Inr (replicate (nat n) z))"

definition go_index :: "'a list \<Rightarrow> int \<Rightarrow> 'a go" where
  "go_index xs i =
     (if 0 \<le> i \<and> i < int (length xs) then Inr (xs ! nat i) else Inl IndexOutOfRange)"

definition go_store :: "'a list \<Rightarrow> int \<Rightarrow> 'a \<Rightarrow> 'a list go" where
  "go_store xs i v =
     (if 0 \<le> i \<and> i < int (length xs) then Inr (xs[nat i := v]) else Inl IndexOutOfRange)"

definition go_rem :: "int \<Rightarrow> int \<Rightarrow> int go" where
  "go_rem a b = (if b = 0 then Inl DivideByZero else Inr (a smod b))"

lemma go_make_ok [go_simps]: "0 \<le> n \<Longrightarrow> go_make z n = Inr (replicate (nat n) z)"
  by (simp add: go_make_def)

lemma go_index_ok [go_simps]:
  "0 \<le> i \<Longrightarrow> i < int (length xs) \<Longrightarrow> go_index xs i = Inr (xs ! nat i)"
  by (simp add: go_index_def)

lemma go_store_ok [go_simps]:
  "0 \<le> i \<Longrightarrow> i < int (length xs) \<Longrightarrow> go_store xs i v = Inr (xs[nat i := v])"
  by (simp add: go_store_def)

lemma smod_eq_mod: "0 \<le> a \<Longrightarrow> 0 < b \<Longrightarrow> (a::int) smod b = a mod b"
  by (simp add: signed_modulo_int_def signed_divide_int_def sgn_if minus_mult_div_eq_mod [symmetric])

lemma go_rem_ok [go_simps]: "0 \<le> a \<Longrightarrow> 0 < b \<Longrightarrow> go_rem a b = Inr (a mod b)"
  by (simp add: go_rem_def smod_eq_mod)

subsection \<open>Counting loops\<close>

text \<open>\<open>go_for i n f s\<close> is the loop over the \<open>n\<close> indices from \<open>i\<close> on, with body \<open>f\<close>.\<close>

fun go_for :: "nat \<Rightarrow> nat \<Rightarrow> (int \<Rightarrow> 's \<Rightarrow> 's go) \<Rightarrow> 's \<Rightarrow> 's go" where
  "go_for i 0 f s = Inr s"
| "go_for i (Suc n) f s = go_bind (f (int i) s) (\<lambda>s'. go_for (Suc i) n f s')"

lemma go_for_invariant:
  assumes "P i s"
    and "\<And>k s. i \<le> k \<Longrightarrow> k < i + n \<Longrightarrow> P k s \<Longrightarrow> \<exists>s'. f (int k) s = Inr s' \<and> P (Suc k) s'"
  shows "\<exists>s'. go_for i n f s = Inr s' \<and> P (i + n) s'"
  using assms
proof (induction n arbitrary: i s)
  case 0
  then show ?case by simp
next
  case (Suc n)
  from Suc.prems(2)[of i s] Suc.prems(1)
  obtain s1 where s1: "f (int i) s = Inr s1" "P (Suc i) s1" by auto
  have "\<exists>s'. go_for (Suc i) n f s1 = Inr s' \<and> P (Suc i + n) s'"
    by (rule Suc.IH) (use s1 Suc.prems(2) in auto)
  with s1 show ?case by simp
qed


subsection \<open>Maps\<close>

text \<open>
  A Go map is an association list with distinct keys. Iterating with \<^verbatim>\<open>range\<close> visits the
  entries in an unspecified order: every definition that iterates takes that order as an
  argument, a list \<open>ks\<close> with \<open>gm_order m ks\<close>, and looks each key up when it is reached, so
  that an entry deleted during the loop is not visited.
\<close>

type_synonym ('k, 'v) gomap = "('k \<times> 'v) list"

definition gm_ok :: "('k, 'v) gomap \<Rightarrow> bool" where
  "gm_ok m \<longleftrightarrow> distinct (map fst m)"

definition gm_get :: "('k, 'v) gomap \<Rightarrow> 'k \<Rightarrow> 'v option" where
  "gm_get m k = map_of m k"

definition gm_set :: "'k \<Rightarrow> 'v \<Rightarrow> ('k, 'v) gomap \<Rightarrow> ('k, 'v) gomap" where
  "gm_set k v m = AList.update k v m"

definition gm_del :: "'k \<Rightarrow> ('k, 'v) gomap \<Rightarrow> ('k, 'v) gomap" where
  "gm_del k m = AList.delete k m"

definition gm_has :: "('k, 'v) gomap \<Rightarrow> 'k \<Rightarrow> bool" where
  "gm_has m k \<longleftrightarrow> gm_get m k \<noteq> None"

definition gm_keys :: "('k, 'v) gomap \<Rightarrow> 'k set" where
  "gm_keys m = fst ` set m"

definition gm_order :: "('k, 'v) gomap \<Rightarrow> 'k list \<Rightarrow> bool" where
  "gm_order m ks \<longleftrightarrow> distinct ks \<and> set ks = gm_keys m"

definition gm_range :: "('k, 'v) gomap \<Rightarrow> 'k list \<Rightarrow> ('k \<times> 'v) list" where
  "gm_range m ks = List.map_filter (\<lambda>k. map_option (Pair k) (gm_get m k)) ks"

lemma gm_get_simps [simp]:
  "gm_get [] k = None"
  "gm_get (gm_set k v m) k' = (if k' = k then Some v else gm_get m k')"
  "gm_get (gm_del k m) k' = (if k' = k then None else gm_get m k')"
  by (simp_all add: gm_get_def gm_set_def gm_del_def update_conv' delete_conv')

lemma gm_ok_simps [simp]:
  "gm_ok []"
  "gm_ok m \<Longrightarrow> gm_ok (gm_set k v m)"
  "gm_ok m \<Longrightarrow> gm_ok (gm_del k m)"
  by (simp_all add: gm_ok_def gm_set_def gm_del_def distinct_update distinct_delete)

lemma gm_keys_simps [simp]:
  "gm_keys [] = {}"
  "gm_keys (gm_set k v m) = insert k (gm_keys m)"
  "gm_keys (gm_del k m) = gm_keys m - {k}"
  by (auto simp: gm_keys_def gm_set_def gm_del_def dom_update dom_map_of_conv_image_fst [symmetric]
      delete_conv' update_conv' split: if_splits)

lemma gm_get_None_iff: "gm_get m k = None \<longleftrightarrow> k \<notin> gm_keys m"
  by (simp add: gm_get_def gm_keys_def map_of_eq_None_iff)

lemma gm_get_Some_in_keys: "gm_get m k = Some v \<Longrightarrow> k \<in> gm_keys m"
  using gm_get_None_iff [of m k] by auto

lemma gm_has_iff [simp]: "gm_has m k \<longleftrightarrow> k \<in> gm_keys m"
  by (simp add: gm_has_def gm_get_None_iff)

lemma finite_gm_keys [simp]: "finite (gm_keys m)"
  by (simp add: gm_keys_def)

lemma gm_length_card: "gm_ok m \<Longrightarrow> length m = card (gm_keys m)"
  unfolding gm_ok_def gm_keys_def by (metis distinct_card length_map list.set_map)

lemma gm_in_set: "gm_ok m \<Longrightarrow> (k, v) \<in> set m \<longleftrightarrow> gm_get m k = Some v"
  by (simp add: gm_ok_def gm_get_def)

lemma gm_order_ex: "gm_ok m \<Longrightarrow> gm_order m (map fst m)"
  by (simp add: gm_order_def gm_ok_def gm_keys_def)

lemma gm_range_simps [simp]:
  "gm_range m [] = []"
  "gm_range m (k # ks) =
     (case gm_get m k of None \<Rightarrow> gm_range m ks | Some v \<Rightarrow> (k, v) # gm_range m ks)"
  by (simp_all add: gm_range_def List.map_filter_def split: option.split)

lemma length_gm_range_le: "length (gm_range m ks) \<le> length ks"
  by (induction ks) (auto split: option.split)

lemma in_gm_range [simp]:
  "(k, v) \<in> set (gm_range m ks) \<longleftrightarrow> k \<in> set ks \<and> gm_get m k = Some v"
  by (induction ks) (auto split: option.split)

lemma snd_gm_range: "m \<in> snd ` set (gm_range g ks) \<longleftrightarrow> (\<exists>i. i \<in> set ks \<and> gm_get g i = Some m)"
proof
  assume "m \<in> snd ` set (gm_range g ks)"
  then obtain i where "(i, m) \<in> set (gm_range g ks)" by auto
  then show "\<exists>i. i \<in> set ks \<and> gm_get g i = Some m" by auto
next
  assume "\<exists>i. i \<in> set ks \<and> gm_get g i = Some m"
  then obtain i where "(i, m) \<in> set (gm_range g ks)" by auto
  then show "m \<in> snd ` set (gm_range g ks)" by (intro image_eqI [of _ _ "(i, m)"]) simp_all
qed

lemma set_gm_range: "gm_order m ks \<Longrightarrow> gm_ok m \<Longrightarrow> set (gm_range m ks) = set m"
  by (auto simp: gm_order_def gm_in_set dest: gm_get_Some_in_keys)

lemma map_fst_gm_range: "set ks \<subseteq> gm_keys m \<Longrightarrow> map fst (gm_range m ks) = ks"
  by (induction ks) (auto split: option.split simp: gm_get_None_iff)

lemma length_gm_range: "gm_order m ks \<Longrightarrow> gm_ok m \<Longrightarrow> length (gm_range m ks) = length m"
  using map_fst_gm_range [of ks m] gm_length_card [of m]
  by (metis distinct_card gm_order_def length_map subset_refl)

end
