(* ===== verification/KeyedSet.thy ===== *)
theory KeyedSet
  imports Prelude
begin

text \<open>
  The contract shared by the collections that identify their elements by a key: the set of
  process identifiers of the actor package and the member set of the cluster package. The
  client lemmas say what a history of additions and removals leaves in the collection.
\<close>

datatype 'e ks_op = KAdd 'e | KRemove 'e

text \<open>The keys a history of operations leaves, starting from a set of keys.\<close>

fun ks_spec :: "('e \<Rightarrow> 'k) \<Rightarrow> 'e ks_op list \<Rightarrow> 'k set \<Rightarrow> 'k set" where
  "ks_spec key [] K = K"
| "ks_spec key (KAdd e # ops) K = ks_spec key ops (insert (key e) K)"
| "ks_spec key (KRemove e # ops) K = ks_spec key ops (K - {key e})"

fun ks_run :: "('s \<Rightarrow> 'e \<Rightarrow> 's) \<Rightarrow> ('s \<Rightarrow> 'e \<Rightarrow> 's) \<Rightarrow> 'e ks_op list \<Rightarrow> 's \<Rightarrow> 's" where
  "ks_run add remove [] s = s"
| "ks_run add remove (KAdd e # ops) s = ks_run add remove ops (add s e)"
| "ks_run add remove (KRemove e # ops) s = ks_run add remove ops (remove s e)"

locale keyed_set =
  fixes invar :: "'s \<Rightarrow> bool"
    and key :: "'e \<Rightarrow> 'k"
    and keys :: "'s \<Rightarrow> 'k set"
    and add :: "'s \<Rightarrow> 'e \<Rightarrow> 's"
    and remove :: "'s \<Rightarrow> 'e \<Rightarrow> 's"
    and contains :: "'s \<Rightarrow> 'e \<Rightarrow> bool"
    and len :: "'s \<Rightarrow> nat"
  assumes add_law: "invar s \<Longrightarrow> invar (add s e) \<and> keys (add s e) = insert (key e) (keys s)"
    and remove_law: "invar s \<Longrightarrow> invar (remove s e) \<and> keys (remove s e) = keys s - {key e}"
    and contains_law: "invar s \<Longrightarrow> contains s e \<longleftrightarrow> key e \<in> keys s"
    and len_law: "invar s \<Longrightarrow> len s = card (keys s)"
begin

lemma run_keys:
  "invar s \<Longrightarrow> invar (ks_run add remove ops s) \<and>
     keys (ks_run add remove ops s) = ks_spec key ops (keys s)"
proof (induction ops arbitrary: s)
  case (Cons op ops)
  then show ?case by (cases op) (simp_all add: add_law remove_law)
qed simp

lemma run_contains:
  "invar s \<Longrightarrow> contains (ks_run add remove ops s) e \<longleftrightarrow> key e \<in> ks_spec key ops (keys s)"
  using run_keys [of s ops] contains_law by blast

lemma contains_add_remove:
  assumes "invar s"
  shows "contains (add s e) e" "\<not> contains (remove s e) e"
    "key e' \<noteq> key e \<Longrightarrow> contains (add s e) e' = contains s e'"
    "key e' \<noteq> key e \<Longrightarrow> contains (remove s e) e' = contains s e'"
  using assms by (simp_all add: contains_law add_law remove_law)

end

end
