(* ===== verification/PID.thy ===== *)
theory PID
  imports KeyedSet "HOL-Library.Word"
begin

text \<open>
  Process identifiers (\<^verbatim>\<open>src/actor/pid.go\<close>, the struct itself in
  \<^verbatim>\<open>src/actor/actor.pb.go\<close>) and the set of them (\<^verbatim>\<open>src/actor/pid_map.go\<close>). A pointer
  \<^verbatim>\<open>*PID\<close> is an option, \<open>None\<close> for nil; reading a field of nil panics.
\<close>

type_synonym byte = "8 word"

record PID =
  Address :: string
  ID :: string
  pid_unknownFields :: "byte list"

definition pidSeparator :: string where
  "pidSeparator = ''/''"

definition NewPID :: "string \<Rightarrow> string \<Rightarrow> PID" where
  "NewPID address i = \<lparr>Address = address, ID = i, pid_unknownFields = []\<rparr>"

definition deref :: "'a option \<Rightarrow> 'a go" where
  "deref p = (case p of None \<Rightarrow> Inl NilDeref | Some x \<Rightarrow> Inr x)"

lemma deref_simps [simp]: "deref None = Inl NilDeref" "deref (Some x) = Inr x"
  by (simp_all add: deref_def)

definition String :: "PID option \<Rightarrow> string go" where
  "String pid = go_bind (deref pid) (\<lambda>p. Inr (Address p @ pidSeparator @ ID p))"

definition Equals :: "PID option \<Rightarrow> PID option \<Rightarrow> bool go" where
  "Equals pid other = go_bind (deref pid) (\<lambda>p. go_bind (deref other) (\<lambda>q.
     Inr (Address p = Address q \<and> ID p = ID q)))"

definition Child :: "PID option \<Rightarrow> string \<Rightarrow> PID go" where
  "Child pid i = go_bind (deref pid) (\<lambda>p. Inr (NewPID (Address p) (ID p @ pidSeparator @ i)))"

text \<open>The generated getters return the zero value on nil.\<close>

definition GetAddress :: "PID option \<Rightarrow> string" where
  "GetAddress pid = (case pid of None \<Rightarrow> [] | Some p \<Rightarrow> Address p)"

definition GetID :: "PID option \<Rightarrow> string" where
  "GetID pid = (case pid of None \<Rightarrow> [] | Some p \<Rightarrow> ID p)"

text \<open>The key of the remote's lookup tables; \<open>xxh3\<close> stands for the hash function of the
  package \<^verbatim>\<open>github.com/zeebo/xxh3\<close>.\<close>

definition lookup_key :: "(string \<Rightarrow> 64 word) \<Rightarrow> PID \<Rightarrow> 64 word" where
  "lookup_key xxh3 p = xxh3 (Address p @ ID p)"

definition LookupKey :: "(string \<Rightarrow> 64 word) \<Rightarrow> PID option \<Rightarrow> (64 word) go" where
  "LookupKey xxh3 pid = go_bind (deref pid) (\<lambda>p. Inr (lookup_key xxh3 p))"

subsection \<open>Sets of process identifiers\<close>

datatype pidKey = PidKey (key_address: string) (key_id: string)

text \<open>A nil lookup map is \<open>None\<close>; reading it finds nothing.\<close>

record PIDSet =
  ps_pids :: "PID list"
  ps_lookup :: "(pidKey, int) gomap option"

definition ps_key :: "PID \<Rightarrow> pidKey" where
  "ps_key pid = PidKey (Address pid) (ID pid)"

definition ps_zero :: PIDSet where
  "ps_zero = \<lparr>ps_pids = [], ps_lookup = None\<rparr>"

definition ensureInit :: "PIDSet \<Rightarrow> PIDSet" where
  "ensureInit p = (case ps_lookup p of None \<Rightarrow> p\<lparr>ps_lookup := Some []\<rparr> | Some _ \<Rightarrow> p)"

definition ps_find :: "PIDSet \<Rightarrow> pidKey \<Rightarrow> int option" where
  "ps_find p k = (case ps_lookup p of None \<Rightarrow> None | Some m \<Rightarrow> gm_get m k)"

definition indexOf :: "PIDSet \<Rightarrow> PID \<Rightarrow> int" where
  "indexOf p v = (case ps_find p (ps_key v) of Some idx \<Rightarrow> idx | None \<Rightarrow> -1)"

definition ps_Contains :: "PIDSet \<Rightarrow> PID \<Rightarrow> bool" where
  "ps_Contains p v \<longleftrightarrow> ps_find p (ps_key v) \<noteq> None"

definition ps_setkey :: "PIDSet \<Rightarrow> pidKey \<Rightarrow> int \<Rightarrow> PIDSet" where
  "ps_setkey p k i = p\<lparr>ps_lookup := map_option (gm_set k i) (ps_lookup p)\<rparr>"

definition ps_Add :: "PIDSet \<Rightarrow> PID \<Rightarrow> PIDSet" where
  "ps_Add p v =
     (let p = ensureInit p in
      if ps_Contains p v then p
      else let p = p\<lparr>ps_pids := ps_pids p @ [v]\<rparr>
           in ps_setkey p (ps_key v) (int (length (ps_pids p)) - 1))"

text \<open>Removal moves the last element into the hole.\<close>

definition ps_Remove :: "PIDSet \<Rightarrow> PID \<Rightarrow> (bool \<times> PIDSet) go" where
  "ps_Remove p v =
     (let p = ensureInit p; i = indexOf p v in
      if i = -1 then Inr (False, p)
      else
        let p = p\<lparr>ps_lookup := map_option (gm_del (ps_key v)) (ps_lookup p)\<rparr>;
            n = int (length (ps_pids p))
        in go_bind
          (if i < n - 1 then
             go_bind (go_index (ps_pids p) (n - 1)) (\<lambda>lastPID.
             go_bind (go_store (ps_pids p) i lastPID) (\<lambda>pids.
             Inr (ps_setkey (p\<lparr>ps_pids := pids\<rparr>) (ps_key lastPID) i)))
           else Inr p) (\<lambda>p.
          if n - 1 < 0 then Inl IndexOutOfRange
          else Inr (True, p\<lparr>ps_pids := take (nat (n - 1)) (ps_pids p)\<rparr>)))"

definition NewPIDSet :: "PID list \<Rightarrow> PIDSet" where
  "NewPIDSet pids = foldl ps_Add ps_zero pids"

definition ps_Len :: "PIDSet \<Rightarrow> nat" where
  "ps_Len p = length (ps_pids p)"

definition ps_Clear :: "PIDSet \<Rightarrow> PIDSet" where
  "ps_Clear p = \<lparr>ps_pids = [], ps_lookup = Some []\<rparr>"

definition ps_Empty :: "PIDSet \<Rightarrow> bool" where
  "ps_Empty p \<longleftrightarrow> ps_Len p = 0"

definition ps_Values :: "PIDSet \<Rightarrow> PID list" where
  "ps_Values p = ps_pids p"

definition ps_ForEach :: "PIDSet \<Rightarrow> (nat \<Rightarrow> PID \<Rightarrow> 's \<Rightarrow> 's) \<Rightarrow> 's \<Rightarrow> 's" where
  "ps_ForEach p f s = foldl (\<lambda>s (i, pid). f i pid s) s (zip [0..<length (ps_pids p)] (ps_pids p))"

definition ps_Get :: "PIDSet \<Rightarrow> int \<Rightarrow> PID go" where
  "ps_Get p i = go_index (ps_pids p) i"

definition ps_Clone :: "PIDSet \<Rightarrow> PIDSet" where
  "ps_Clone p = NewPIDSet (ps_pids p)"


subsection \<open>Invariant: the index map and the slice agree\<close>

definition ps_ok :: "PIDSet \<Rightarrow> bool" where
  "ps_ok p \<longleftrightarrow> (case ps_lookup p of
       None \<Rightarrow> ps_pids p = []
     | Some m \<Rightarrow> gm_ok m \<and> (\<forall>k j. gm_get m k = Some j \<longleftrightarrow>
          0 \<le> j \<and> j < int (length (ps_pids p)) \<and> ps_key (ps_pids p ! nat j) = k))"

definition ps_keys :: "PIDSet \<Rightarrow> pidKey set" where
  "ps_keys p = ps_key ` set (ps_pids p)"

lemma ps_ok_ensureInit: "ps_ok p \<Longrightarrow> ps_ok (ensureInit p)"
  by (auto simp: ps_ok_def ensureInit_def split: option.splits)

lemma ensureInit_Some: "\<exists>m. ps_lookup (ensureInit p) = Some m"
  by (auto simp: ensureInit_def split: option.splits)

lemma ps_pids_ensureInit [simp]: "ps_pids (ensureInit p) = ps_pids p"
  by (auto simp: ensureInit_def split: option.splits)

lemma ps_find_iff:
  assumes "ps_ok p"
  shows "ps_find p k = Some j \<longleftrightarrow>
    0 \<le> j \<and> j < int (length (ps_pids p)) \<and> ps_key (ps_pids p ! nat j) = k"
  using assms by (auto simp: ps_ok_def ps_find_def split: option.splits)

lemma in_ps_keys: "k \<in> ps_keys p \<longleftrightarrow> (\<exists>i<length (ps_pids p). ps_key (ps_pids p ! i) = k)"
  by (auto simp: ps_keys_def set_conv_nth)

lemma ps_find_nth:
  assumes "ps_ok p" "i < length (ps_pids p)"
  shows "ps_find p (ps_key (ps_pids p ! i)) = Some (int i)"
  using assms ps_find_iff [of p _ "int i"] by simp

lemma ps_find_None_iff:
  assumes "ps_ok p"
  shows "ps_find p k = None \<longleftrightarrow> k \<notin> ps_keys p"
proof (cases "ps_find p k")
  case None
  then show ?thesis using ps_find_nth [OF assms] by (auto simp: in_ps_keys)
next
  case (Some j)
  then have "nat j < length (ps_pids p)" "ps_key (ps_pids p ! nat j) = k"
    using ps_find_iff [OF assms, of k j] by auto
  then show ?thesis using Some by (auto simp: in_ps_keys)
qed

text \<open>The invariant from its two directions, with indices as natural numbers.\<close>

lemma ps_okI:
  assumes "ps_lookup p = Some m" "gm_ok m"
    and "\<And>k j. gm_get m k = Some j \<Longrightarrow> \<exists>i<length (ps_pids p). j = int i \<and> ps_key (ps_pids p ! i) = k"
    and "\<And>i. i < length (ps_pids p) \<Longrightarrow> gm_get m (ps_key (ps_pids p ! i)) = Some (int i)"
  shows "ps_ok p"
proof -
  have "gm_get m k = Some j \<longleftrightarrow>
      0 \<le> j \<and> j < int (length (ps_pids p)) \<and> ps_key (ps_pids p ! nat j) = k" for k j
    using assms(3) [of k j] assms(4) [of "nat j"] by auto
  then show ?thesis using assms(1,2) by (simp add: ps_ok_def)
qed

lemma ps_okD:
  assumes "ps_ok p" "ps_lookup p = Some m"
  shows "gm_ok m"
    and "gm_get m k = Some j \<Longrightarrow> \<exists>i<length (ps_pids p). j = int i \<and> ps_key (ps_pids p ! i) = k"
    and "i < length (ps_pids p) \<Longrightarrow> gm_get m (ps_key (ps_pids p ! i)) = Some (int i)"
  using assms ps_find_iff [OF assms(1), of k j] ps_find_nth [OF assms(1), of i]
  by (auto simp: ps_ok_def ps_find_def intro!: exI [of _ "nat j"])

lemma ps_keys_distinct:
  assumes "ps_ok p"
  shows "distinct (map ps_key (ps_pids p))"
proof -
  have "i = j" if "i < length (ps_pids p)" "j < length (ps_pids p)"
    "ps_key (ps_pids p ! i) = ps_key (ps_pids p ! j)" for i j
  proof -
    have "ps_find p (ps_key (ps_pids p ! i)) = Some (int i)"
      "ps_find p (ps_key (ps_pids p ! i)) = Some (int j)"
      using that ps_find_iff [OF assms] by auto
    then show ?thesis by simp
  qed
  then show ?thesis by (auto simp: distinct_conv_nth)
qed

lemma ps_Add_ok:
  assumes "ps_ok p"
  shows "ps_ok (ps_Add p v) \<and> ps_keys (ps_Add p v) = insert (ps_key v) (ps_keys p)"
proof (cases "ps_Contains (ensureInit p) v")
  case True
  then show ?thesis
    using assms ps_find_None_iff [OF ps_ok_ensureInit [OF assms], of "ps_key v"]
    by (auto simp: ps_Add_def Let_def ps_ok_ensureInit ps_Contains_def ps_keys_def)
next
  case False
  obtain m where m: "ps_lookup (ensureInit p) = Some m" using ensureInit_Some by blast
  from False have new: "ps_key v \<notin> ps_keys p"
    using ps_find_None_iff [OF ps_ok_ensureInit [OF assms], of "ps_key v"]
    by (auto simp: ps_Contains_def ps_keys_def)
  let ?n = "length (ps_pids p)"
  have shape: "ps_lookup (ps_Add p v) = Some (gm_set (ps_key v) (int ?n) m)"
    "ps_pids (ps_Add p v) = ps_pids p @ [v]"
    using False m by (simp_all add: ps_Add_def Let_def ps_setkey_def)
  note ok = ps_okD [OF ps_ok_ensureInit [OF assms] m, unfolded ps_pids_ensureInit]
  have "ps_ok (ps_Add p v)"
  proof (rule ps_okI [OF shape(1)])
    show "gm_ok (gm_set (ps_key v) (int ?n) m)" using ok(1) by simp
  next
    fix k j assume "gm_get (gm_set (ps_key v) (int ?n) m) k = Some j"
    then show "\<exists>i<length (ps_pids (ps_Add p v)). j = int i \<and> ps_key (ps_pids (ps_Add p v) ! i) = k"
      using ok(2) [of k j] by (auto simp: shape nth_append split: if_splits)
  next
    fix i assume "i < length (ps_pids (ps_Add p v))"
    then show "gm_get (gm_set (ps_key v) (int ?n) m) (ps_key (ps_pids (ps_Add p v) ! i)) = Some (int i)"
      using ok(3) [of i] new by (auto simp: shape nth_append in_ps_keys less_Suc_eq)
  qed
  then show ?thesis using False
    by (auto simp: ps_Add_def Let_def ps_setkey_def ps_keys_def)
qed


lemma ps_Remove_absent:
  assumes "ps_ok p" "ps_key v \<notin> ps_keys p"
  shows "ps_Remove p v = Inr (False, ensureInit p)"
proof -
  have "ps_find (ensureInit p) (ps_key v) = None"
    using assms ps_find_None_iff [OF ps_ok_ensureInit [OF assms(1)]] by (simp add: ps_keys_def)
  then show ?thesis by (simp add: ps_Remove_def indexOf_def Let_def)
qed

lemma ps_Remove_shape:
  assumes "ps_ok p" "i < length (ps_pids p)" "ps_key (ps_pids p ! i) = ps_key v"
    "ps_lookup p = Some m"
  shows "ps_Remove p v = Inr (True,
    if Suc i < length (ps_pids p)
    then \<lparr>ps_pids = butlast ((ps_pids p)[i := last (ps_pids p)]),
          ps_lookup = Some (gm_set (ps_key (last (ps_pids p))) (int i) (gm_del (ps_key v) m))\<rparr>
    else \<lparr>ps_pids = butlast (ps_pids p), ps_lookup = Some (gm_del (ps_key v) m)\<rparr>)"
proof -
  have e: "ensureInit p = p" using assms(4) by (simp add: ensureInit_def)
  have "indexOf p v = int i"
    using ps_find_nth [OF assms(1,2)] assms(3) by (simp add: indexOf_def)
  moreover have "ps_pids p \<noteq> []" using assms(2) by auto
  ultimately show ?thesis using assms(2,4)
    by (auto simp: ps_Remove_def Let_def e go_simps ps_setkey_def butlast_conv_take last_conv_nth
        of_nat_diff nat_diff_distrib Suc_le_eq)
qed

text \<open>Removing a position by moving the last element into it: the positions that remain.\<close>

definition swap_remove :: "'a list \<Rightarrow> nat \<Rightarrow> 'a list" where
  "swap_remove xs i = (if Suc i < length xs then butlast (xs[i := last xs]) else butlast xs)"

lemma length_swap_remove [simp]: "length (swap_remove xs i) = length xs - 1"
  by (simp add: swap_remove_def)

lemma swap_remove_nth:
  assumes "Suc j < length xs" "i < length xs"
  shows "swap_remove xs i ! j = (if j = i then xs ! (length xs - 1) else xs ! j)"
proof -
  have "xs \<noteq> []" using assms by auto
  then show ?thesis using assms by (auto simp: swap_remove_def nth_butlast last_conv_nth)
qed

lemma ex_swap_remove:
  assumes "i < length xs"
  shows "(\<exists>j<length xs - 1. P (swap_remove xs i ! j)) \<longleftrightarrow> (\<exists>j<length xs. j \<noteq> i \<and> P (xs ! j))"
proof
  assume "\<exists>j<length xs - 1. P (swap_remove xs i ! j)"
  then obtain j where "Suc j < length xs" "P (swap_remove xs i ! j)"
    by (auto simp: less_diff_conv)
  then show "\<exists>j<length xs. j \<noteq> i \<and> P (xs ! j)"
    using assms swap_remove_nth [of j xs i]
    by (cases "j = i") (auto intro: exI [of _ "length xs - 1"] exI [of _ j])
next
  assume "\<exists>j<length xs. j \<noteq> i \<and> P (xs ! j)"
  then obtain j where j: "j < length xs" "j \<noteq> i" "P (xs ! j)" by auto
  show "\<exists>j<length xs - 1. P (swap_remove xs i ! j)"
  proof (cases "Suc j < length xs")
    case True
    then show ?thesis using j assms swap_remove_nth [of j xs i] by (auto intro: exI [of _ j])
  next
    case False
    then have "j = length xs - 1" "Suc i < length xs" using j assms by auto
    then show ?thesis using j swap_remove_nth [of i xs i] by (auto intro: exI [of _ i])
  qed
qed

lemma ps_Remove_present:
  assumes "ps_ok p" "ps_key v \<in> ps_keys p"
  shows "\<exists>p'. ps_Remove p v = Inr (True, p') \<and> ps_ok p' \<and> ps_keys p' = ps_keys p - {ps_key v}"
proof -
  let ?xs = "ps_pids p" and ?n = "length (ps_pids p)"
  obtain m where m: "ps_lookup p = Some m"
    using assms by (cases "ps_lookup p") (auto simp: ps_ok_def ps_keys_def)
  obtain i where i: "i < ?n" "ps_key (?xs ! i) = ps_key v"
    using assms(2) by (auto simp: in_ps_keys)
  note ok = ps_okD [OF assms(1) m]
  have key_eq: "ps_key (?xs ! a) = ps_key (?xs ! b) \<longleftrightarrow> a = b" if "a < ?n" "b < ?n" for a b
    using ok(3) [OF that(1)] ok(3) [OF that(2)] by (metis nat_int option.inject)
  define m' where "m' = (if Suc i < ?n then gm_set (ps_key (?xs ! (?n - 1))) (int i) (gm_del (ps_key v) m)
      else gm_del (ps_key v) m)"
  let ?p' = "\<lparr>ps_pids = swap_remove ?xs i, ps_lookup = Some m'\<rparr>"
  have "?xs \<noteq> []" using i by auto
  then have shape: "ps_Remove p v = Inr (True, ?p')"
    using ps_Remove_shape [OF assms(1) i m] by (simp add: swap_remove_def m'_def last_conv_nth)
  have n: "?n - 1 < ?n" using i by simp
  have get: "gm_get m' (ps_key (?xs ! a)) =
      (if a = i then None else if a = ?n - 1 then Some (int i) else Some (int a))" if "a < ?n" for a
  proof -
    have "i = ?n - 1" if "\<not> Suc i < ?n" using that i by linarith
    then show ?thesis
      using ok(3) [OF that] key_eq [OF that n] key_eq [OF that i(1)] i(2)
      unfolding m'_def by (auto simp del: One_nat_def)
  qed
  have "ps_ok ?p'"
  proof (rule ps_okI)
    fix k j assume kj: "gm_get m' k = Some j"
    then obtain a where a: "a < ?n" "ps_key (?xs ! a) = k"
      using n ok(2) [of k j] by (auto simp: m'_def split: if_splits)
    then have ai: "a \<noteq> i" and j: "j = (if a = ?n - 1 then int i else int a)"
      using kj get [OF a(1)] by (auto split: if_splits)
    show "\<exists>b<length (ps_pids ?p'). j = int b \<and> ps_key (ps_pids ?p' ! b) = k"
    proof (cases "a = ?n - 1")
      case True
      then have "Suc i < ?n" using ai i a by linarith
      then show ?thesis using True j a i swap_remove_nth [of i ?xs i] by auto
    next
      case False
      then have "Suc a < ?n" using a by linarith
      then show ?thesis using False ai j a i swap_remove_nth [of a ?xs i] by auto
    qed
  next
    fix j assume "j < length (ps_pids ?p')"
    then have "Suc j < ?n" by simp
    then show "gm_get m' (ps_key (ps_pids ?p' ! j)) = Some (int j)"
      using swap_remove_nth [of j ?xs i] i get [of j] get [OF n] by (cases "j = i") auto
  qed (use ok(1) in \<open>simp_all add: m'_def\<close>)
  moreover have "ps_keys ?p' = ps_keys p - {ps_key v}"
  proof (rule set_eqI)
    fix k
    have "k \<in> ps_keys ?p' \<longleftrightarrow> (\<exists>j<?n. j \<noteq> i \<and> ps_key (?xs ! j) = k)"
      using ex_swap_remove [OF i(1), of "\<lambda>x. ps_key x = k"] by (simp add: in_ps_keys)
    also have "\<dots> \<longleftrightarrow> (\<exists>j<?n. ps_key (?xs ! j) = k \<and> k \<noteq> ps_key (?xs ! i))"
      using key_eq [OF _ i(1)] by (metis (no_types, lifting))
    finally show "k \<in> ps_keys ?p' \<longleftrightarrow> k \<in> ps_keys p - {ps_key v}"
      unfolding i(2) by (auto simp: in_ps_keys)
  qed
  ultimately show ?thesis using shape by blast
qed


text \<open>The set after a removal, which under the invariant never panics.\<close>

definition ps_removed :: "PIDSet \<Rightarrow> PID \<Rightarrow> PIDSet" where
  "ps_removed p v = (case ps_Remove p v of Inl _ \<Rightarrow> p | Inr (_, p') \<Rightarrow> p')"

lemma ps_Remove_ok:
  assumes "ps_ok p"
  shows "ps_Remove p v = Inr (ps_Contains p v, ps_removed p v) \<and> ps_ok (ps_removed p v) \<and>
    ps_keys (ps_removed p v) = ps_keys p - {ps_key v}"
proof (cases "ps_key v \<in> ps_keys p")
  case True
  then have c: "ps_Contains p v"
    using ps_find_None_iff [OF assms, of "ps_key v"] by (simp add: ps_Contains_def)
  obtain p' where "ps_Remove p v = Inr (True, p')" "ps_ok p'"
    "ps_keys p' = ps_keys p - {ps_key v}"
    using ps_Remove_present [OF assms True] by blast
  with c show ?thesis by (simp add: ps_removed_def)
next
  case False
  then have "\<not> ps_Contains p v"
    using ps_find_None_iff [OF assms, of "ps_key v"] by (simp add: ps_Contains_def)
  then show ?thesis
    using ps_Remove_absent [OF assms False] assms False
    by (simp add: ps_removed_def ps_ok_ensureInit ps_keys_def)
qed

interpretation pidset: keyed_set ps_ok ps_key ps_keys ps_Add ps_removed ps_Contains ps_Len
proof unfold_locales
  fix p v assume ok: "ps_ok p"
  show "ps_ok (ps_Add p v) \<and> ps_keys (ps_Add p v) = insert (ps_key v) (ps_keys p)"
    by (rule ps_Add_ok [OF ok])
  show "ps_ok (ps_removed p v) \<and> ps_keys (ps_removed p v) = ps_keys p - {ps_key v}"
    using ps_Remove_ok [OF ok] by blast
  show "ps_Contains p v \<longleftrightarrow> ps_key v \<in> ps_keys p"
    using ps_find_None_iff [OF ok] by (simp add: ps_Contains_def)
  show "ps_Len p = card (ps_keys p)"
    using distinct_card [OF ps_keys_distinct [OF ok]] by (simp add: ps_Len_def ps_keys_def)
qed

lemma ps_ok_zero: "ps_ok ps_zero" "ps_keys ps_zero = {}"
  by (simp_all add: ps_ok_def ps_zero_def ps_keys_def)

lemma ps_Add_new:
  "ps_ok p \<Longrightarrow> ps_key v \<notin> ps_keys p \<Longrightarrow> ps_pids (ps_Add p v) = ps_pids p @ [v]"
  using ps_find_None_iff [OF ps_ok_ensureInit, of p "ps_key v"]
  by (auto simp: ps_Add_def Let_def ps_setkey_def ps_Contains_def ps_keys_def)

lemma foldl_ps_Add:
  assumes "ps_ok p" "distinct (map ps_key vs)" "ps_keys p \<inter> ps_key ` set vs = {}"
  shows "ps_pids (foldl ps_Add p vs) = ps_pids p @ vs \<and> ps_ok (foldl ps_Add p vs)"
  using assms
proof (induction vs arbitrary: p)
  case (Cons v vs)
  then have "ps_keys (ps_Add p v) \<inter> ps_key ` set vs = {}" "ps_ok (ps_Add p v)"
    using ps_Add_ok [of p v] by auto
  with Cons show ?case by (simp add: ps_Add_new)
qed simp

subsection \<open>Properties\<close>

text \<open>after any history of Add and Remove calls on an empty set of process identifiers,
  membership and size are those of the mathematical set of (address, id) pairs, Remove never
  panics and reports whether its argument was present, and no identifier is stored twice.\<close>

theorem pidset_history:
  "let p = ks_run ps_Add ps_removed ops ps_zero; K = ks_spec ps_key ops {} in
     (\<forall>v. ps_Contains p v = (ps_key v \<in> K)) \<and> ps_Len p = card K \<and>
     (\<forall>v. ps_Remove p v = Inr (ps_key v \<in> K, ps_removed p v)) \<and>
     distinct (map ps_key (ps_Values p))"
proof -
  define p where "p = ks_run ps_Add ps_removed ops ps_zero"
  have p: "ps_ok p" "ps_keys p = ks_spec ps_key ops {}"
    using pidset.run_keys [OF ps_ok_zero(1), of ops] ps_ok_zero(2) by (simp_all add: p_def)
  have "ps_Contains p v = (ps_key v \<in> ks_spec ps_key ops {})" for v
    using pidset.contains_law [OF p(1)] p(2) by simp
  then show ?thesis
    using pidset.len_law [OF p(1)] p(2) ps_Remove_ok [OF p(1)] ps_keys_distinct [OF p(1)]
    by (simp add: Let_def ps_Values_def flip: p_def)
qed

text \<open>cloning a set of process identifiers built by Add and Remove calls keeps the
  elements and their order.\<close>

theorem pidset_clone:
  "ps_Values (ps_Clone (ks_run ps_Add ps_removed ops ps_zero)) =
   ps_Values (ks_run ps_Add ps_removed ops ps_zero)"
proof -
  have "ps_ok (ks_run ps_Add ps_removed ops ps_zero)"
    using pidset.run_keys [OF ps_ok_zero(1)] by blast
  then show ?thesis
    using foldl_ps_Add [OF ps_ok_zero(1) ps_keys_distinct] ps_ok_zero(2)
    by (simp add: ps_Values_def ps_Clone_def NewPIDSet_def ps_zero_def)
qed

text \<open>the hash key of a process identifier does not separate its address from its id:
  two identifiers that Equals tells apart have the same key whatever the hash function.\<close>

theorem LookupKey_ambiguous:
  "\<exists>p q. Equals (Some p) (Some q) = Inr False \<and>
     (\<forall>xxh3. LookupKey xxh3 (Some p) = LookupKey xxh3 (Some q))"
  by (rule exI [of _ "NewPID ''10.0.0.1:40'' ''0/a''"], rule exI [of _ "NewPID ''10.0.0.1:400'' ''/a''"])
    (simp add: Equals_def LookupKey_def lookup_key_def NewPID_def)

end
