(* ===== verification/SafeMap.thy ===== *)
theory SafeMap
  imports Prelude
begin

text \<open>
  The mutex-protected map of \<^verbatim>\<open>src/safemap/safemap.go\<close>, which holds the children of an
  actor. Each method runs under the lock, so it is one atomic step on the state.
\<close>

record ('k, 'v) SafeMap =
  sm_data :: "('k, 'v) gomap"

definition sm_New :: "('k, 'v) SafeMap" where
  "sm_New = \<lparr>sm_data = []\<rparr>"

definition sm_Set :: "('k, 'v) SafeMap \<Rightarrow> 'k \<Rightarrow> 'v \<Rightarrow> ('k, 'v) SafeMap" where
  "sm_Set s k v = s\<lparr>sm_data := gm_set k v (sm_data s)\<rparr>"

text \<open>\<open>None\<close> is the Go result \<^verbatim>\<open>zero value, false\<close>.\<close>

definition sm_Get :: "('k, 'v) SafeMap \<Rightarrow> 'k \<Rightarrow> 'v option" where
  "sm_Get s k = gm_get (sm_data s) k"

definition sm_Delete :: "('k, 'v) SafeMap \<Rightarrow> 'k \<Rightarrow> ('k, 'v) SafeMap" where
  "sm_Delete s k = s\<lparr>sm_data := gm_del k (sm_data s)\<rparr>"

definition sm_Len :: "('k, 'v) SafeMap \<Rightarrow> nat" where
  "sm_Len s = length (sm_data s)"

text \<open>\<^verbatim>\<open>ForEach\<close> runs the callback on every entry, in the iteration order \<open>ks\<close>; the
  callback's effect is a state change that may panic.\<close>

definition sm_ForEach ::
    "('k, 'v) SafeMap \<Rightarrow> 'k list \<Rightarrow> ('k \<Rightarrow> 'v \<Rightarrow> 's \<Rightarrow> 's go) \<Rightarrow> 's \<Rightarrow> 's go" where
  "sm_ForEach s ks f st =
     foldl (\<lambda>acc (k, v). go_bind acc (f k v)) (Inr st) (gm_range (sm_data s) ks)"

definition sm_ok :: "('k, 'v) SafeMap \<Rightarrow> bool" where
  "sm_ok s \<longleftrightarrow> gm_ok (sm_data s)"

subsection \<open>The contract of a map\<close>

text \<open>What the clients of a map rely on: reading after writing and deleting, and the count.\<close>

locale kv_map =
  fixes invar :: "'m \<Rightarrow> bool"
    and empty :: 'm
    and upd :: "'m \<Rightarrow> 'k \<Rightarrow> 'v \<Rightarrow> 'm"
    and get :: "'m \<Rightarrow> 'k \<Rightarrow> 'v option"
    and del :: "'m \<Rightarrow> 'k \<Rightarrow> 'm"
    and len :: "'m \<Rightarrow> nat"
  assumes empty_law: "invar empty \<and> get empty k = None"
    and upd_law: "invar m \<Longrightarrow> invar (upd m k v) \<and> get (upd m k v) = (get m)(k \<mapsto> v)"
    and del_law: "invar m \<Longrightarrow> invar (del m k) \<and> get (del m k) = (get m)(k := None)"
    and len_law: "invar m \<Longrightarrow> len m = card (dom (get m))"
begin

lemma get_after:
  assumes "invar m"
  shows "get (upd m k v) k = Some v" "get (del m k) k = None"
    "k' \<noteq> k \<Longrightarrow> get (upd m k v) k' = get m k'" "k' \<noteq> k \<Longrightarrow> get (del m k) k' = get m k'"
  using assms by (simp_all add: upd_law del_law)

lemma del_upd: "invar m \<Longrightarrow> get m k = None \<Longrightarrow> get (del (upd m k v) k) = get m"
  using upd_law [of m k v] del_law [of "upd m k v" k] by auto

end

lemma dom_gm_get: "dom (gm_get m) = gm_keys m"
  by (auto simp: dom_def gm_get_None_iff simp flip: not_None_eq)

interpretation safemap: kv_map sm_ok sm_New sm_Set sm_Get sm_Delete sm_Len
  by unfold_locales
    (auto simp: sm_ok_def sm_New_def sm_Set_def sm_Get_def sm_Delete_def sm_Len_def fun_eq_iff
      gm_length_card dom_gm_get [symmetric] dom_def)

lemma foldl_go_bind_Inl [simp]: "foldl (\<lambda>acc (k, v). go_bind acc (f k v)) (Inl e) xs = Inl e"
  by (induction xs) auto

text \<open>Iterating visits every entry exactly once, whatever the order.\<close>

lemma sm_ForEach_collect:
  assumes "\<And>k v st. f k v st = Inr (st @ [(k, v)])"
  shows "sm_ForEach s ks f st = Inr (st @ gm_range (sm_data s) ks)"
proof -
  have "foldl (\<lambda>acc (k, v). go_bind acc (f k v)) (Inr st) xs = Inr (st @ xs)" for xs
    by (induction xs arbitrary: st) (auto simp: assms)
  then show ?thesis by (simp add: sm_ForEach_def)
qed

end
