(* ===== verification/Message.thy ===== *)
theory Message
  imports PID SafeMap
begin

text \<open>
  The values actors exchange: the system messages of \<^verbatim>\<open>src/actor/types.go\<close>, the events of
  \<^verbatim>\<open>src/actor/event.go\<close>, the subscription messages of \<^verbatim>\<open>src/actor/event_stream.go\<close> and the
  envelope of \<^verbatim>\<open>src/actor/process.go\<close>. The Go type \<^verbatim>\<open>any\<close> becomes one datatype whose
  constructor \<open>User\<close> holds the values of the program that uses the engine. A panic value
  recovered by a process is also an \<open>any\<close>.
\<close>

text \<open>The event stream keys its subscribers by the pointer, so a subscription carries the
  pointer's identity besides the PID it points to.\<close>

datatype pidptr = PidPtr (ptr_loc: nat) (ptr_pid: PID)

datatype 'u any =
    NilAny
  | User 'u
  | Initialized
  | Started
  | Stopped
  | InternalError string string                      \<comment> \<open>\<^verbatim>\<open>*InternalError\<close>: From, Err\<close>
  | RuntimeError go_panic
  | PoisonPill "nat option" bool                     \<comment> \<open>cancel (a handle), graceful\<close>
  | EventSub "pidptr option"
  | EventUnsub "pidptr option"
  | ActorStartedEvent "PID option" nat
  | ActorInitializedEvent "PID option" nat
  | ActorStoppedEvent "PID option" nat
  | ActorRestartedEvent "PID option" nat string "'u any" "32 word"
  | ActorMaxRestartsExceededEvent "PID option" nat
  | ActorDuplicateIdEvent "PID option"
  | EngineRemoteMissingEvent "PID option" "PID option" "'u any"   \<comment> \<open>Target, Sender, Message\<close>
  | RemoteUnreachableEvent string
  | DeadLetterEvent "PID option" "'u any" "PID option"            \<comment> \<open>Target, Message, Sender\<close>

record 'u Envelope =
  Msg :: "'u any"
  Sender :: "PID option"

subsection \<open>Logging\<close>

datatype slog_level = LevelDebug | LevelInfo | LevelWarn | LevelError

datatype 'u attr = AStr string | APid "PID option" | AAny "'u any" | AInt32 "32 word"

type_synonym 'u log_line = "slog_level \<times> string \<times> 'u attr list"

text \<open>\<^verbatim>\<open>Log\<close> of the events that implement \<^verbatim>\<open>EventLogger\<close>; the program's own messages may
  implement it too (\<open>user_log\<close>).\<close>

fun Log :: "('u \<Rightarrow> 'u log_line option) \<Rightarrow> 'u any \<Rightarrow> 'u log_line option" where
  "Log user_log (User u) = user_log u"
| "Log user_log (ActorStartedEvent pid ts) =
     Some (LevelDebug, ''Actor started'', [AStr ''pid'', APid pid])"
| "Log user_log (ActorInitializedEvent pid ts) =
     Some (LevelDebug, ''Actor initialized'', [AStr ''pid'', APid pid])"
| "Log user_log (ActorStoppedEvent pid ts) =
     Some (LevelDebug, ''Actor stopped'', [AStr ''pid'', APid pid])"
| "Log user_log (ActorRestartedEvent pid ts stack reason restarts) =
     Some (LevelError, ''Actor crashed and restarted'',
       [AStr ''pid'', AStr (GetID pid), AStr ''stack'', AStr stack, AStr ''reason'', AAny reason,
        AStr ''restarts'', AInt32 restarts])"
| "Log user_log (ActorMaxRestartsExceededEvent pid ts) =
     Some (LevelError, ''Actor crashed too many times'', [AStr ''pid'', AStr (GetID pid)])"
| "Log user_log (ActorDuplicateIdEvent pid) =
     Some (LevelError, ''Actor name already claimed'', [AStr ''pid'', AStr (GetID pid)])"
| "Log user_log (EngineRemoteMissingEvent target sender msg) =
     Some (LevelError, ''Engine has no remote'', [AStr ''sender'', AStr (GetID target)])"
| "Log user_log _ = None"

fun is_pill :: "'u any \<Rightarrow> bool" where
  "is_pill (PoisonPill c g) = True"
| "is_pill _ = False"

end
