(* ===== verification/Registry.thy ===== *)
theory Registry
  imports Message
begin

text \<open>
  The registry of an engine (\<^verbatim>\<open>src/actor/registry.go\<close>): the map from the ID of a process to the
  process. The interface value \<^verbatim>\<open>Processer\<close> is a reference: which implementation it is, the
  identity of the object, and the PID its method \<^verbatim>\<open>PID()\<close> returns.
\<close>

datatype proc_kind = KProcess | KResponse | KStreamRouter | KStreamWriter | KCustom

record Processer =
  pr_kind :: proc_kind
  pr_obj :: nat
  pr_PID :: PID

definition LocalLookupAddr :: string where
  "LocalLookupAddr = ''local''"

record Registry =
  rg_lookup :: "(string, Processer) gomap"

definition newRegistry :: Registry where
  "newRegistry = \<lparr>rg_lookup = []\<rparr>"

definition rg_getByID :: "Registry \<Rightarrow> string \<Rightarrow> Processer option" where
  "rg_getByID r i = gm_get (rg_lookup r) i"

definition rg_GetPID :: "Registry \<Rightarrow> string \<Rightarrow> string \<Rightarrow> PID option" where
  "rg_GetPID r kind i =
     (case rg_getByID r (kind @ pidSeparator @ i) of None \<Rightarrow> None | Some proc \<Rightarrow> Some (pr_PID proc))"

definition rg_Remove :: "Registry \<Rightarrow> PID option \<Rightarrow> Registry go" where
  "rg_Remove r pid = go_bind (deref pid) (\<lambda>p. Inr (r\<lparr>rg_lookup := gm_del (ID p) (rg_lookup r)\<rparr>))"

definition rg_get :: "Registry \<Rightarrow> PID option \<Rightarrow> Processer option" where
  "rg_get r pid = (case pid of None \<Rightarrow> None | Some p \<Rightarrow> gm_get (rg_lookup r) (ID p))"

text \<open>The locked part of \<^verbatim>\<open>add\<close>: whether the process was entered. If it was, \<^verbatim>\<open>add\<close> goes on to
  start it, otherwise to broadcast a duplicate-id event.\<close>

definition rg_add :: "Registry \<Rightarrow> Processer \<Rightarrow> bool \<times> Registry" where
  "rg_add r proc =
     (let i = ID (pr_PID proc) in
      case gm_get (rg_lookup r) i of
        Some _ \<Rightarrow> (False, r)
      | None \<Rightarrow> (True, r\<lparr>rg_lookup := gm_set i proc (rg_lookup r)\<rparr>))"

definition rg_ok :: "Registry \<Rightarrow> bool" where
  "rg_ok r \<longleftrightarrow> gm_ok (rg_lookup r) \<and> (\<forall>i p. gm_get (rg_lookup r) i = Some p \<longrightarrow> ID (pr_PID p) = i)"

subsection \<open>What the engine relies on\<close>

datatype 'p dir_op = Enter 'p | Leave string

text \<open>The specification: a partial map in which the first owner of a name keeps it.\<close>

fun dir_spec :: "('p \<Rightarrow> string) \<Rightarrow> 'p dir_op \<Rightarrow> (string \<rightharpoonup> 'p) \<Rightarrow> (string \<rightharpoonup> 'p)" where
  "dir_spec name (Enter p) m = (if m (name p) = None then m(name p \<mapsto> p) else m)"
| "dir_spec name (Leave i) m = m(i := None)"

locale directory =
  fixes invar :: "'d \<Rightarrow> bool"
    and name :: "'p \<Rightarrow> string"
    and find :: "'d \<Rightarrow> string \<Rightarrow> 'p option"
    and enter :: "'d \<Rightarrow> 'p \<Rightarrow> bool \<times> 'd"
    and leave :: "'d \<Rightarrow> string \<Rightarrow> 'd"
  assumes find_name: "invar d \<Longrightarrow> find d i = Some p \<Longrightarrow> name p = i"
    and enter_new: "invar d \<Longrightarrow> find d (name p) = None \<Longrightarrow>
      fst (enter d p) \<and> invar (snd (enter d p)) \<and> find (snd (enter d p)) = (find d)(name p \<mapsto> p)"
    and enter_old: "invar d \<Longrightarrow> find d (name p) \<noteq> None \<Longrightarrow> enter d p = (False, d)"
    and leave_law: "invar d \<Longrightarrow> invar (leave d i) \<and> find (leave d i) = (find d)(i := None)"
begin

fun dir_step :: "'p dir_op \<Rightarrow> 'd \<Rightarrow> 'd" where
  "dir_step (Enter p) d = snd (enter d p)"
| "dir_step (Leave i) d = leave d i"

lemma dir_step_refines:
  assumes "invar d"
  shows "invar (dir_step op d) \<and> find (dir_step op d) = dir_spec name op (find d)"
proof (cases op)
  case (Enter p)
  then show ?thesis using assms enter_new [of d p] enter_old [of d p]
    by (cases "find d (name p) = None") auto
next
  case (Leave i)
  then show ?thesis using assms leave_law by simp
qed

lemma dir_run_refines:
  assumes "invar d"
  shows "invar (fold dir_step ops d) \<and> find (fold dir_step ops d) = fold (dir_spec name) ops (find d)"
  using assms
proof (induction ops arbitrary: d)
  case (Cons op ops)
  then show ?case using dir_step_refines [of d op] by simp
qed simp

end

definition rg_leave :: "Registry \<Rightarrow> string \<Rightarrow> Registry" where
  "rg_leave r i = (case rg_Remove r (Some (NewPID [] i)) of Inr r' \<Rightarrow> r' | Inl _ \<Rightarrow> r)"

lemma rg_Remove_Some: "rg_Remove r (Some p) = Inr (rg_leave r (ID p))"
  by (simp add: rg_Remove_def rg_leave_def NewPID_def)

interpretation registry: directory rg_ok "\<lambda>p. ID (pr_PID p)" rg_getByID rg_add rg_leave
  by unfold_locales
    (auto simp: rg_ok_def rg_getByID_def rg_add_def rg_leave_def rg_Remove_def NewPID_def Let_def fun_eq_iff
      split: option.splits if_splits)

lemma rg_get_Some: "rg_get r (Some p) = rg_getByID r (ID p)"
  by (simp add: rg_get_def rg_getByID_def)

lemma rg_get_None [simp]: "rg_get r None = None"
  by (simp add: rg_get_def)

lemma rg_ok_New [simp]: "rg_ok newRegistry"
  by (simp add: rg_ok_def newRegistry_def)

lemma rg_getByID_New [simp]: "rg_getByID newRegistry i = None"
  by (simp add: rg_getByID_def newRegistry_def)

subsection \<open>Properties\<close>

fun rg_step :: "Processer dir_op \<Rightarrow> Registry \<Rightarrow> Registry" where
  "rg_step (Enter p) r = snd (rg_add r p)"
| "rg_step (Leave i) r = rg_leave r i"

lemma rg_step_dir: "rg_step = registry.dir_step"
proof (intro ext)
  fix op r
  show "rg_step op r = registry.dir_step op r" by (cases op) simp_all
qed

text \<open>C8: After any sequence of additions and removals, starting from the empty registry, looking up a
  PID finds the process that was the first to claim its ID since the ID was last removed, and the PID
  of what is found has that ID; the address of the PID looked up plays no role.\<close>

theorem registry_first_owner:
  "rg_get (fold rg_step ops newRegistry) (Some pid) =
     fold (dir_spec (\<lambda>p. ID (pr_PID p))) ops (\<lambda>_. None) (ID pid) \<and>
   rg_ok (fold rg_step ops newRegistry)"
  using registry.dir_run_refines [OF rg_ok_New, of ops]
  by (simp add: rg_step_dir rg_get_Some rg_getByID_New [abs_def])

end
