(* ===== verification/Engine.thy ===== *)
theory Engine
  imports Registry
begin

text \<open>
  The engine (\<^verbatim>\<open>src/actor/engine.go\<close>) and the response of a request
  (\<^verbatim>\<open>src/actor/response.go\<close>): how a message finds its way to a process, to the remote or to the
  event stream. What the engine calls on the interfaces \<^verbatim>\<open>Processer\<close> and \<^verbatim>\<open>Remoter\<close> is
  returned as a list of calls, in program order. \<^verbatim>\<open>send\<close>, \<^verbatim>\<open>SendLocal\<close> and
  \<^verbatim>\<open>BroadcastEvent\<close> call each other: the fuel counts the nested broadcasts, and \<open>None\<close> stands for
  a recursion that did not end within it.
\<close>

record Engine =
  e_Registry :: Registry
  e_address :: string
  e_remote :: bool                \<comment> \<open>a \<^verbatim>\<open>Remoter\<close> is configured\<close>
  e_eventStream :: "PID option"

datatype 'u call =
    ProcStart Processer
  | ProcSend Processer "PID option" "'u any" "PID option"
  | ProcSendPriority Processer "PID option" "'u any" "PID option"
  | ProcClearMailbox Processer
  | RemoteSend "PID option" "'u any" "PID option"
  | RemoteSendPriority "PID option" "'u any" "PID option"
  | CancelCtx nat

definition isLocalMessage :: "Engine \<Rightarrow> PID option \<Rightarrow> bool" where
  "isLocalMessage e pid = (case pid of None \<Rightarrow> False | Some p \<Rightarrow> e_address e = Address p)"

function BroadcastEvent :: "nat \<Rightarrow> Engine \<Rightarrow> 'u any \<Rightarrow> 'u call list option"
  and send :: "nat \<Rightarrow> Engine \<Rightarrow> PID option \<Rightarrow> 'u any \<Rightarrow> PID option \<Rightarrow> 'u call list option"
  and SendLocal :: "nat \<Rightarrow> Engine \<Rightarrow> PID option \<Rightarrow> 'u any \<Rightarrow> PID option \<Rightarrow> 'u call list option"
where
  "BroadcastEvent 0 e msg = None"
| "BroadcastEvent (Suc n) e msg =
     (case e_eventStream e of
        None \<Rightarrow> Some []
      | Some es \<Rightarrow> send n e (Some es) msg None)"
| "send n e pid msg sender =
     (if pid = None then Some []
      else if isLocalMessage e pid then SendLocal n e pid msg sender
      else if \<not> e_remote e then BroadcastEvent n e (EngineRemoteMissingEvent pid sender msg)
      else Some [RemoteSend pid msg sender])"
| "SendLocal n e pid msg sender =
     (case rg_get (e_Registry e) pid of
        None \<Rightarrow> BroadcastEvent n e (DeadLetterEvent pid msg sender)
      | Some proc \<Rightarrow> Some [ProcSend proc pid msg sender])"
  by pat_completeness auto
termination
  by (relation "measure (\<lambda>x. case x of
        Inl (n, _) \<Rightarrow> 3 * n | Inr (Inl (n, _)) \<Rightarrow> 3 * n + 2 | Inr (Inr (n, _)) \<Rightarrow> 3 * n + 1)") auto

definition SendWithSender :: "nat \<Rightarrow> Engine \<Rightarrow> PID option \<Rightarrow> 'u any \<Rightarrow> PID option \<Rightarrow> 'u call list option" where
  "SendWithSender n e pid msg sender = send n e pid msg sender"

definition eng_Send :: "nat \<Rightarrow> Engine \<Rightarrow> PID option \<Rightarrow> 'u any \<Rightarrow> 'u call list option" where
  "eng_Send n e pid msg = send n e pid msg None"

definition SendPriorityLocal ::
    "nat \<Rightarrow> Engine \<Rightarrow> PID option \<Rightarrow> 'u any \<Rightarrow> PID option \<Rightarrow> 'u call list option" where
  "SendPriorityLocal n e pid msg sender =
     (case rg_get (e_Registry e) pid of
        None \<Rightarrow> BroadcastEvent n e (DeadLetterEvent pid msg sender)
      | Some proc \<Rightarrow> Some [ProcSendPriority proc pid msg sender])"

definition sendPriority ::
    "nat \<Rightarrow> Engine \<Rightarrow> PID option \<Rightarrow> 'u any \<Rightarrow> PID option \<Rightarrow> 'u call list option" where
  "sendPriority n e pid msg sender =
     (if pid = None then Some []
      else if isLocalMessage e pid then SendPriorityLocal n e pid msg sender
      else if \<not> e_remote e then BroadcastEvent n e (EngineRemoteMissingEvent pid sender msg)
      else Some [RemoteSendPriority pid msg sender])"

definition eng_SendPriority :: "nat \<Rightarrow> Engine \<Rightarrow> PID option \<Rightarrow> 'u any \<Rightarrow> 'u call list option" where
  "eng_SendPriority n e pid msg = sendPriority n e pid msg None"

definition SendPriorityWithSender ::
    "nat \<Rightarrow> Engine \<Rightarrow> PID option \<Rightarrow> 'u any \<Rightarrow> PID option \<Rightarrow> 'u call list option" where
  "SendPriorityWithSender n e pid msg sender = sendPriority n e pid msg sender"

text \<open>The registry is read twice, each time under its lock: \<open>e\<close> is the engine at the check,
  \<open>e'\<close> at the send. \<open>cancel\<close> is the handle of the context that is returned.\<close>

definition sendPoisonPill ::
    "nat \<Rightarrow> Engine \<Rightarrow> Engine \<Rightarrow> nat \<Rightarrow> bool \<Rightarrow> PID option \<Rightarrow> 'u call list option" where
  "sendPoisonPill n e e' cancel graceful pid =
     (let pill = PoisonPill (Some cancel) graceful in
      if rg_get (e_Registry e) pid = None then
        map_option (\<lambda>cs. cs @ [CancelCtx cancel]) (BroadcastEvent n e (DeadLetterEvent pid pill None))
      else SendLocal n e' pid pill None)"

definition eng_Stop :: "nat \<Rightarrow> Engine \<Rightarrow> Engine \<Rightarrow> nat \<Rightarrow> PID option \<Rightarrow> 'u call list option" where
  "eng_Stop n e e' cancel pid = sendPoisonPill n e e' cancel False pid"

definition Poison :: "nat \<Rightarrow> Engine \<Rightarrow> Engine \<Rightarrow> nat \<Rightarrow> PID option \<Rightarrow> 'u call list option" where
  "Poison n e e' cancel pid = sendPoisonPill n e e' cancel True pid"

text \<open>Here \<open>cancel\<close> belongs to a context derived from the caller's.\<close>

definition PoisonCtx :: "nat \<Rightarrow> Engine \<Rightarrow> Engine \<Rightarrow> nat \<Rightarrow> PID option \<Rightarrow> 'u call list option" where
  "PoisonCtx n e e' cancel pid = sendPoisonPill n e e' cancel True pid"

definition eng_ClearMailbox :: "Engine \<Rightarrow> PID option \<Rightarrow> 'u call list" where
  "eng_ClearMailbox e pid =
     (case rg_get (e_Registry e) pid of None \<Rightarrow> [] | Some proc \<Rightarrow> [ProcClearMailbox proc])"

definition Subscribe :: "nat \<Rightarrow> Engine \<Rightarrow> pidptr option \<Rightarrow> 'u call list option" where
  "Subscribe n e pid = eng_Send n e (e_eventStream e) (EventSub pid)"

definition Unsubscribe :: "nat \<Rightarrow> Engine \<Rightarrow> pidptr option \<Rightarrow> 'u call list option" where
  "Unsubscribe n e pid = eng_Send n e (e_eventStream e) (EventUnsub pid)"

text \<open>\<^verbatim>\<open>Registry.add\<close> whole, and \<^verbatim>\<open>SpawnProc\<close>.\<close>

definition reg_add :: "nat \<Rightarrow> Engine \<Rightarrow> Processer \<Rightarrow> ('u call list \<times> Engine) option" where
  "reg_add n e proc =
     (let (added, r) = rg_add (e_Registry e) proc in
      if added then Some ([ProcStart proc], e\<lparr>e_Registry := r\<rparr>)
      else map_option (\<lambda>cs. (cs, e)) (BroadcastEvent n e (ActorDuplicateIdEvent (Some (pr_PID proc)))))"

definition SpawnProc :: "nat \<Rightarrow> Engine \<Rightarrow> Processer \<Rightarrow> ('u call list \<times> PID \<times> Engine) option" where
  "SpawnProc n e p = map_option (\<lambda>(cs, e'). (cs, pr_PID p, e')) (reg_add n e p)"

subsection \<open>Requests\<close>

text \<open>The result channel has room for one value; a send on a full channel blocks (\<open>None\<close>).
  \<open>itoa\<close> is \<^verbatim>\<open>strconv.Itoa\<close>, \<open>rnd\<close> the number \<^verbatim>\<open>rand.Intn\<close> returned.\<close>

record 'u Response =
  rs_pid :: PID
  rs_result :: "'u any list"
  rs_timeout :: int

fun nat_digits :: "nat \<Rightarrow> string" where
  "nat_digits n = (if n < 10 then [char_of (48 + n)] else nat_digits (n div 10) @ [char_of (48 + n mod 10)])"

definition Itoa :: "int \<Rightarrow> string" where
  "Itoa i = (if i < 0 then ''-'' @ nat_digits (nat (- i)) else nat_digits (nat i))"

definition NewResponse :: "Engine \<Rightarrow> int \<Rightarrow> nat \<Rightarrow> 'u Response" where
  "NewResponse e timeout rnd =
     \<lparr>rs_pid = NewPID (e_address e) (''response'' @ pidSeparator @ Itoa (int rnd)), rs_result = [],
      rs_timeout = timeout\<rparr>"

definition rs_Send :: "'u any \<Rightarrow> 'u Response \<Rightarrow> 'u Response option" where
  "rs_Send msg r = (if length (rs_result r) < 1 then Some (r\<lparr>rs_result := rs_result r @ [msg]\<rparr>) else None)"

text \<open>\<open>expired\<close>: the deadline has passed when \<^verbatim>\<open>Result\<close> looks, and \<^verbatim>\<open>select\<close> chose it if both
  channels were ready. \<open>None\<close>: still waiting. The outcome is \<open>Inl\<close> the context's error or
  \<open>Inr\<close> the answer; the response leaves the registry either way.\<close>

definition rs_Result ::
    "bool \<Rightarrow> Engine \<Rightarrow> 'u Response \<Rightarrow> ((string + 'u any) \<times> 'u Response \<times> Engine) option" where
  "rs_Result expired e r =
     (let e' = e\<lparr>e_Registry := rg_leave (e_Registry e) (ID (rs_pid r))\<rparr> in
      if expired then Some (Inl ''context deadline exceeded'', r, e')
      else case rs_result r of
        [] \<Rightarrow> None
      | x # xs \<Rightarrow> Some (Inr x, r\<lparr>rs_result := xs\<rparr>, e'))"

definition Request ::
    "nat \<Rightarrow> Engine \<Rightarrow> nat \<Rightarrow> nat \<Rightarrow> PID option \<Rightarrow> 'u any \<Rightarrow> int \<Rightarrow>
     ('u call list \<times> 'u Response \<times> Engine) option" where
  "Request n e obj rnd pid msg timeout =
     (let resp = NewResponse e timeout rnd;
          proc = \<lparr>pr_kind = KResponse, pr_obj = obj, pr_PID = rs_pid resp\<rparr> in
      case reg_add n e proc of
        None \<Rightarrow> None
      | Some (cs, e') \<Rightarrow>
          map_option (\<lambda>cs'. (cs @ cs', resp, e')) (SendWithSender n e' pid msg (Some (rs_pid resp))))"


subsection \<open>Routing\<close>

text \<open>The event stream is absent, or a local process that is still registered.\<close>

definition es_ok :: "Engine \<Rightarrow> bool" where
  "es_ok e = (case e_eventStream e of
     None \<Rightarrow> True
   | Some es \<Rightarrow> Address es = e_address e \<and> rg_get (e_Registry e) (Some es) \<noteq> None)"

text \<open>What broadcasting an event then amounts to.\<close>

definition to_stream :: "Engine \<Rightarrow> 'u any \<Rightarrow> 'u call list" where
  "to_stream e ev = (case e_eventStream e of
     None \<Rightarrow> []
   | Some es \<Rightarrow> (case rg_get (e_Registry e) (Some es) of
       None \<Rightarrow> [] | Some proc \<Rightarrow> [ProcSend proc (Some es) ev None]))"

text \<open>The specification of routing a message.\<close>

definition route :: "bool \<Rightarrow> Engine \<Rightarrow> PID option \<Rightarrow> 'u any \<Rightarrow> PID option \<Rightarrow> 'u call list" where
  "route prio e pid msg sender = (case pid of
     None \<Rightarrow> []
   | Some p \<Rightarrow>
       if Address p = e_address e then
         (case gm_get (rg_lookup (e_Registry e)) (ID p) of
            Some proc \<Rightarrow> [(if prio then ProcSendPriority else ProcSend) proc pid msg sender]
          | None \<Rightarrow> to_stream e (DeadLetterEvent pid msg sender))
       else if e_remote e then [(if prio then RemoteSendPriority else RemoteSend) pid msg sender]
       else to_stream e (EngineRemoteMissingEvent pid sender msg))"

lemma BroadcastEvent_ok: "es_ok e \<Longrightarrow> BroadcastEvent (Suc n) e ev = Some (to_stream e ev)"
  by (auto simp: es_ok_def to_stream_def isLocalMessage_def split: option.splits)

lemma send_ok: "es_ok e \<Longrightarrow> send (Suc n) e pid msg sender = Some (route False e pid msg sender)"
  by (auto simp: BroadcastEvent_ok route_def isLocalMessage_def rg_get_def simp del: BroadcastEvent.simps
      split: option.splits)

lemma sendPriority_ok: "es_ok e \<Longrightarrow> sendPriority (Suc n) e pid msg sender = Some (route True e pid msg sender)"
  by (auto simp: BroadcastEvent_ok route_def isLocalMessage_def rg_get_def sendPriority_def
      SendPriorityLocal_def simp del: BroadcastEvent.simps split: option.splits)

text \<open>Sending to a local process, whatever address its PID carries.\<close>

definition route_local :: "bool \<Rightarrow> Engine \<Rightarrow> PID option \<Rightarrow> 'u any \<Rightarrow> PID option \<Rightarrow> 'u call list" where
  "route_local prio e pid msg sender = (case rg_get (e_Registry e) pid of
     Some proc \<Rightarrow> [(if prio then ProcSendPriority else ProcSend) proc pid msg sender]
   | None \<Rightarrow> to_stream e (DeadLetterEvent pid msg sender))"

lemma SendLocal_ok:
  assumes "es_ok e"
  shows "SendLocal (Suc n) e pid msg sender = Some (route_local False e pid msg sender)"
    "SendPriorityLocal (Suc n) e pid msg sender = Some (route_local True e pid msg sender)"
  using assms by (auto simp: BroadcastEvent_ok route_local_def SendPriorityLocal_def
      simp del: BroadcastEvent.simps split: option.splits)

lemma es_lost_None:
  assumes "e_eventStream e = Some es" "Address es = e_address e" "rg_get (e_Registry e) (Some es) = None"
  shows "BroadcastEvent n e ev = None"
  using assms by (induction n arbitrary: ev) (auto simp: isLocalMessage_def)

lemma reg_add_new:
  "rg_getByID (e_Registry e) (ID (pr_PID proc)) = None \<Longrightarrow>
   reg_add n e proc = Some ([ProcStart proc],
     e\<lparr>e_Registry := \<lparr>rg_lookup = gm_set (ID (pr_PID proc)) proc (rg_lookup (e_Registry e))\<rparr>\<rparr>)"
  by (simp add: reg_add_def rg_add_def rg_getByID_def)

lemma reg_add_old:
  "rg_getByID (e_Registry e) (ID (pr_PID proc)) \<noteq> None \<Longrightarrow> es_ok e \<Longrightarrow>
   reg_add (Suc n) e proc = Some (to_stream e (ActorDuplicateIdEvent (Some (pr_PID proc))), e)"
  by (auto simp: reg_add_def rg_add_def rg_getByID_def BroadcastEvent_ok simp del: BroadcastEvent.simps)


subsection \<open>Properties\<close>

text \<open>An engine with its event stream and one more process, for the witnesses.\<close>

definition demo_es :: Processer where
  "demo_es = \<lparr>pr_kind = KProcess, pr_obj = 0, pr_PID = NewPID ''local'' ''eventstream/1''\<rparr>"

definition demo_proc :: Processer where
  "demo_proc = \<lparr>pr_kind = KProcess, pr_obj = 1, pr_PID = NewPID ''local'' ''foo/2''\<rparr>"

definition demo_engine :: Engine where
  "demo_engine = \<lparr>e_Registry = \<lparr>rg_lookup = [(''eventstream/1'', demo_es), (''foo/2'', demo_proc)]\<rparr>,
     e_address = ''local'', e_remote = False, e_eventStream = Some (pr_PID demo_es)\<rparr>"

lemmas demo_defs = demo_es_def demo_proc_def demo_engine_def es_ok_def NewPID_def rg_get_def
  rg_getByID_def gm_get_def

text \<open>Sending returns and results in exactly one call, by priority or not: a message for a registered
  local process goes to that process and no other, one for an unknown local process becomes a dead-letter
  event for the event stream, one for a foreign address goes to the remote or, without a remote, becomes a
  remote-missing event; a nil PID is ignored. The event stream must be absent or registered.\<close>

theorem send_routes:
  assumes "es_ok e" "0 < n"
  shows "send n e pid msg sender = Some (route False e pid msg sender) \<and>
    sendPriority n e pid msg sender = Some (route True e pid msg sender) \<and>
    length (route prio e pid msg sender) \<le> 1"
proof -
  obtain m where "n = Suc m" using assms(2) by (cases n) auto
  moreover have "length (route prio e pid msg sender) \<le> 1"
    by (auto simp: route_def to_stream_def split: option.split)
  ultimately show ?thesis
    using send_ok [OF assms(1), of m pid msg sender] sendPriority_ok [OF assms(1), of m pid msg sender]
    by simp
qed

theorem send_routes_witness:
  "send 1 demo_engine (Some (pr_PID demo_proc)) (User (7::nat)) None =
     Some [ProcSend demo_proc (Some (pr_PID demo_proc)) (User 7) None]"
  using send_routes [of demo_engine 1 "Some (pr_PID demo_proc)" "User (7::nat)" None False]
  by (simp add: demo_defs route_def del: send.simps)

text \<open>C36: Once the event stream is no longer registered, \<^verbatim>\<open>BroadcastEvent\<close> never returns: the undeliverable
  event becomes a dead letter, which is broadcast again. So does a message to an unknown process.\<close>

theorem broadcast_without_stream_diverges:
  assumes "e_eventStream e = Some es" "Address es = e_address e" "rg_get (e_Registry e) (Some es) = None"
  shows "BroadcastEvent n e ev = None \<and>
    (Address p = e_address e \<longrightarrow> rg_get (e_Registry e) (Some p) = None \<longrightarrow> send n e (Some p) msg sender = None)"
  by (simp add: es_lost_None [OF assms] isLocalMessage_def)

theorem broadcast_without_stream_diverges_witness:
  "BroadcastEvent 5 (demo_engine\<lparr>e_Registry := newRegistry\<rparr>) Stopped = (None :: unit call list option)"
  using broadcast_without_stream_diverges
    [of "demo_engine\<lparr>e_Registry := newRegistry\<rparr>" "pr_PID demo_es" 5 "Stopped :: unit any"
      "pr_PID demo_proc" "Stopped :: unit any" None]
  by (simp add: demo_defs newRegistry_def del: send.simps)

text \<open>\<^verbatim>\<open>Stop\<close> and \<^verbatim>\<open>Poison\<close> on an engine nobody else changes either hand the pill to the process that owns the
  ID, or broadcast it as a dead letter and cancel the returned context at once, so that waiting for it ends.\<close>

theorem poison_delivers_or_cancels:
  assumes "es_ok e" "0 < n"
  shows "sendPoisonPill n e e cancel graceful pid = Some
    (case rg_get (e_Registry e) pid of
       Some proc \<Rightarrow> [ProcSend proc pid (PoisonPill (Some cancel) graceful) None]
     | None \<Rightarrow> to_stream e (DeadLetterEvent pid (PoisonPill (Some cancel) graceful) None) @ [CancelCtx cancel])"
proof -
  obtain m where "n = Suc m" using assms(2) by (cases n) auto
  then show ?thesis using BroadcastEvent_ok [OF assms(1), of m]
    by (auto simp: sendPoisonPill_def split: option.split simp del: BroadcastEvent.simps)
qed

theorem poison_delivers_or_cancels_witness:
  "sendPoisonPill 1 demo_engine demo_engine 3 True None =
     Some [ProcSend demo_es (Some (pr_PID demo_es))
             (DeadLetterEvent None (PoisonPill (Some 3) True :: unit any) None) None, CancelCtx 3]"
  using poison_delivers_or_cancels [of demo_engine 1 3 True None]
  by (simp add: demo_defs to_stream_def)

text \<open>If the process leaves the registry between the two look-ups of \<^verbatim>\<open>sendPoisonPill\<close>, the pill becomes a dead
  letter and nothing cancels the context: whoever waits for it waits forever.\<close>

theorem poison_race_never_cancels:
  assumes "es_ok e'" "0 < n" "rg_get (e_Registry e) pid \<noteq> None" "rg_get (e_Registry e') pid = None"
  shows "(sendPoisonPill n e e' cancel graceful pid :: 'u call list option) =
      Some (to_stream e' (DeadLetterEvent pid (PoisonPill (Some cancel) graceful) None)) \<and>
    CancelCtx cancel \<notin>
      set (to_stream e' (DeadLetterEvent pid (PoisonPill (Some cancel) graceful) None) :: 'u call list)"
proof -
  obtain m where "n = Suc m" using assms(2) by (cases n) auto
  then show ?thesis using BroadcastEvent_ok [OF assms(1), of m] assms(3,4)
    by (auto simp: sendPoisonPill_def to_stream_def split: option.split simp del: BroadcastEvent.simps)
qed

theorem poison_race_never_cancels_witness:
  "sendPoisonPill 1 demo_engine (demo_engine\<lparr>e_Registry := rg_leave (e_Registry demo_engine) ''foo/2''\<rparr>)
     3 True (Some (pr_PID demo_proc)) =
     Some [ProcSend demo_es (Some (pr_PID demo_es))
             (DeadLetterEvent (Some (pr_PID demo_proc)) (PoisonPill (Some 3) True :: unit any) None) None]"
proof -
  let ?e' = "demo_engine\<lparr>e_Registry := rg_leave (e_Registry demo_engine) ''foo/2''\<rparr>"
  have h: "es_ok ?e'" "rg_get (e_Registry demo_engine) (Some (pr_PID demo_proc)) \<noteq> None"
    "rg_get (e_Registry ?e') (Some (pr_PID demo_proc)) = None"
    by (code_simp, code_simp, code_simp)
  have "to_stream ?e' ev = [ProcSend demo_es (Some (pr_PID demo_es)) ev None]" for ev :: "unit any"
    by (simp add: to_stream_def demo_defs rg_leave_def rg_Remove_def gm_del_def)
  then show ?thesis using poison_race_never_cancels [OF h(1) _ h(2,3), of 1 3 True, where 'u = unit] by simp
qed

text \<open>C10: A request comes back. Whatever local process the request goes to sees the response's PID as its
  sender; a reply sent there reaches this response, \<^verbatim>\<open>Result\<close> returns it, and afterwards the registry is
  what it was before the request. A second reply before \<^verbatim>\<open>Result\<close> blocks its sender.\<close>

theorem request_reply:
  fixes msg reply reply2 :: "'u any"
  assumes "es_ok e" "0 < n" "Address p = e_address e" "rg_getByID (e_Registry e) (ID p) = Some proc"
    and fresh: "rg_getByID (e_Registry e) (''response/'' @ Itoa (int rnd)) = None"
  shows "\<exists>resp rp e' r' e''.
    Request n e obj rnd (Some p) msg timeout =
      Some ([ProcStart rp, ProcSend proc (Some p) msg (Some (rs_pid resp))], resp, e') \<and>
    send n e' (Some (rs_pid resp)) reply None = Some [ProcSend rp (Some (rs_pid resp)) reply None] \<and>
    pr_obj rp = obj \<and> rs_Send reply resp = Some r' \<and> rs_Send reply2 r' = None \<and>
    rs_Result False e' r' = Some (Inr reply, resp, e'') \<and>
    rg_getByID (e_Registry e'') = rg_getByID (e_Registry e)"
proof -
  obtain m where n: "n = Suc m" using assms(2) by (cases n) auto
  define resp :: "'u Response" where "resp = NewResponse e timeout rnd"
  define rp where "rp = \<lparr>pr_kind = KResponse, pr_obj = obj, pr_PID = rs_pid resp\<rparr>"
  define e' where "e' = e\<lparr>e_Registry := \<lparr>rg_lookup = gm_set (ID (rs_pid resp)) rp (rg_lookup (e_Registry e))\<rparr>\<rparr>"
  have i: "ID (rs_pid resp) = ''response/'' @ Itoa (int rnd)" "Address (rs_pid resp) = e_address e"
    "rs_result resp = []" by (simp_all add: resp_def NewResponse_def NewPID_def pidSeparator_def)
  have ok: "es_ok e'" using assms(1) fresh i
    by (auto simp: es_ok_def e'_def rg_get_def rg_getByID_def split: option.splits)
  have add: "reg_add n e rp = Some ([ProcStart rp] :: 'u call list, e')"
    using reg_add_new [of e rp n] fresh i by (simp add: e'_def rp_def)
  have route: "route False e' (Some p) msg snd = [ProcSend proc (Some p) msg snd]"
    "route False e' (Some (rs_pid resp)) reply None = [ProcSend rp (Some (rs_pid resp)) reply None]" for snd
    using assms(3,4) fresh i by (auto simp: route_def e'_def rg_getByID_def split: option.split)
  have "Request n e obj rnd (Some p) msg timeout =
      Some ([ProcStart rp, ProcSend proc (Some p) msg (Some (rs_pid resp))], resp, e')"
    using add route(1)
    by (simp add: send_ok [OF ok] Request_def Let_def resp_def [symmetric] rp_def [symmetric] SendWithSender_def n del: send.simps)
  moreover have "send n e' (Some (rs_pid resp)) reply None = Some [ProcSend rp (Some (rs_pid resp)) reply None]"
    using route(2) n by (simp add: send_ok [OF ok] del: send.simps)
  moreover have "rg_getByID (rg_leave (e_Registry e') (ID (rs_pid resp))) = rg_getByID (e_Registry e)"
    using fresh i(1) by (auto simp: fun_eq_iff e'_def rg_leave_def rg_Remove_def rg_getByID_def NewPID_def)
  ultimately show ?thesis using i(3)
    by (intro exI [of _ resp] exI [of _ rp] exI [of _ e'] exI [of _ "resp\<lparr>rs_result := [reply]\<rparr>"]
        exI [of _ "e'\<lparr>e_Registry := rg_leave (e_Registry e') (ID (rs_pid resp))\<rparr>"])
      (simp add: rs_Send_def rs_Result_def rp_def)
qed

theorem request_reply_witness:
  "\<exists>(resp :: nat Response) rp e' r' e''.
    Request 1 demo_engine 9 4711 (Some (pr_PID demo_proc)) (User 1) 100 =
      Some ([ProcStart rp, ProcSend demo_proc (Some (pr_PID demo_proc)) (User 1) (Some (rs_pid resp))], resp, e') \<and>
    rs_Send (User 2) resp = Some r' \<and> rs_Result False e' r' = Some (Inr (User 2), resp, e'')"
proof -
  have "es_ok demo_engine" "Address (pr_PID demo_proc) = e_address demo_engine"
    "rg_getByID (e_Registry demo_engine) (ID (pr_PID demo_proc)) = Some demo_proc"
    "rg_getByID (e_Registry demo_engine) (''response/'' @ Itoa (int 4711)) = None"
    by (code_simp, code_simp, code_simp, code_simp)
  from request_reply [OF this(1) _ this(2,3,4), of 1 9 "User (1::nat)" 100 "User 2" NilAny]
  show ?thesis by (auto simp del: send.simps)
qed

text \<open>If the random ID of a request is still taken, its response is not registered and the reply goes to the process
  that holds the ID: the answer to one request can resolve another.\<close>

theorem request_id_collision:
  fixes msg reply :: "'u any"
  assumes "es_ok e" "0 < n"
    and "rg_getByID (e_Registry e) (''response/'' @ Itoa (int rnd)) = Some q"
  shows "\<exists>cs resp. Request n e obj rnd pid msg timeout = Some (cs, resp, e) \<and>
    send n e (Some (rs_pid resp)) reply None = Some [ProcSend q (Some (rs_pid resp)) reply None]"
proof -
  obtain m where n: "n = Suc m" using assms(2) by (cases n) auto
  define resp :: "'u Response" where "resp = NewResponse e timeout rnd"
  have i: "ID (rs_pid resp) = ''response/'' @ Itoa (int rnd)" "Address (rs_pid resp) = e_address e"
    by (simp_all add: resp_def NewResponse_def NewPID_def pidSeparator_def)
  have "reg_add n e \<lparr>pr_kind = KResponse, pr_obj = obj, pr_PID = rs_pid resp\<rparr> =
      Some (to_stream e (ActorDuplicateIdEvent (Some (rs_pid resp))) :: 'u call list, e)"
    using assms(1,3) i n by (simp add: reg_add_old)
  then show ?thesis using n i assms(3)
    by (simp add: send_ok [OF assms(1)] Request_def Let_def resp_def [symmetric] SendWithSender_def route_def rg_getByID_def del: send.simps)
qed

theorem request_id_collision_witness:
  "\<exists>cs (resp :: nat Response). Request 1 (demo_engine\<lparr>e_Registry := \<lparr>rg_lookup =
       [(''eventstream/1'', demo_es), (''response/5'', demo_proc)]\<rparr>\<rparr>) 9 5 None (User 1) 100 =
     Some (cs, resp, demo_engine\<lparr>e_Registry := \<lparr>rg_lookup =
       [(''eventstream/1'', demo_es), (''response/5'', demo_proc)]\<rparr>\<rparr>)"
proof -
  let ?e = "demo_engine\<lparr>e_Registry := \<lparr>rg_lookup =
       [(''eventstream/1'', demo_es), (''response/5'', demo_proc)]\<rparr>\<rparr>"
  have "es_ok ?e" "rg_getByID (e_Registry ?e) (''response/'' @ Itoa (int 5)) = Some demo_proc"
    by (code_simp, code_simp)
  from request_id_collision [OF this(1) _ this(2), of 1 9 None "User (1::nat)" 100 NilAny]
  show ?thesis by (auto simp del: send.simps)
qed

end
