(* ===== verification/Opts.thy ===== *)
theory Opts
  imports Message
begin

text \<open>
  What an actor is made of: the context it is called with (the struct of
  \<^verbatim>\<open>src/actor/context.go\<close>), the functions that receive messages and the options of
  \<^verbatim>\<open>src/actor/opts.go\<close>. Code that uses the engine is arbitrary: a \<^verbatim>\<open>ReceiveFunc\<close> maps a
  context to the context it leaves behind, the effects it had (of a type of its own) and how it
  ended.
\<close>

datatype 'u outcome = Returned | Panicked "'u any" | Blocked

text \<open>The parent context is only used for its PID and its children; the process keeps the PID.
  The receiver is nil before the first start.\<close>

record ('u, 'r) Context =
  c_pid :: PID
  c_sender :: "PID option"
  c_receiver :: "'r option"
  c_message :: "'u any"
  c_parentCtx :: "PID option"
  c_children :: "(string, PID) SafeMap"
  c_context :: nat

type_synonym ('u, 'r, 'e) ReceiveFunc =
  "('u, 'r) Context \<Rightarrow> ('u, 'r) Context \<times> 'e list \<times> 'u outcome"

type_synonym ('u, 'r, 'e) MiddlewareFunc =
  "('u, 'r, 'e) ReceiveFunc \<Rightarrow> ('u, 'r, 'e) ReceiveFunc"

text \<open>A producer may panic (\<open>Inl\<close>) and need not return the same receiver twice: its argument is
  the moment it is called at. Durations are in nanoseconds.\<close>

record ('u, 'r, 'e) Opts =
  o_Producer :: "nat \<Rightarrow> 'u any + 'r"
  o_Kind :: string
  o_ID :: string
  o_MaxRestarts :: "32 word"
  o_RestartDelay :: int
  o_InboxSize :: int
  o_Middleware :: "('u, 'r, 'e) MiddlewareFunc list"
  o_Context :: nat

definition defaultInboxSize :: int where
  "defaultInboxSize = 1024"

definition defaultMaxRestarts :: "32 word" where
  "defaultMaxRestarts = 3"

definition defaultRestartDelay :: int where
  "defaultRestartDelay = 500 * 1000000"

definition Background :: nat where
  "Background = 0"

definition DefaultOpts :: "(nat \<Rightarrow> 'u any + 'r) \<Rightarrow> ('u, 'r, 'e) Opts" where
  "DefaultOpts p =
     \<lparr>o_Producer = p, o_Kind = [], o_ID = [], o_MaxRestarts = defaultMaxRestarts,
      o_RestartDelay = defaultRestartDelay, o_InboxSize = defaultInboxSize, o_Middleware = [],
      o_Context = Background\<rparr>"

type_synonym ('u, 'r, 'e) OptFunc = "('u, 'r, 'e) Opts \<Rightarrow> ('u, 'r, 'e) Opts"

definition WithContext :: "nat \<Rightarrow> ('u, 'r, 'e) OptFunc" where
  "WithContext ctx opts = opts\<lparr>o_Context := ctx\<rparr>"

definition WithMiddleware :: "('u, 'r, 'e) MiddlewareFunc list \<Rightarrow> ('u, 'r, 'e) OptFunc" where
  "WithMiddleware mw opts = opts\<lparr>o_Middleware := o_Middleware opts @ mw\<rparr>"

definition WithRestartDelay :: "int \<Rightarrow> ('u, 'r, 'e) OptFunc" where
  "WithRestartDelay d opts = opts\<lparr>o_RestartDelay := d\<rparr>"

definition WithInboxSize :: "int \<Rightarrow> ('u, 'r, 'e) OptFunc" where
  "WithInboxSize sz opts = opts\<lparr>o_InboxSize := sz\<rparr>"

text \<open>The conversion to \<^verbatim>\<open>int32\<close> truncates.\<close>

definition WithMaxRestarts :: "int \<Rightarrow> ('u, 'r, 'e) OptFunc" where
  "WithMaxRestarts n opts = opts\<lparr>o_MaxRestarts := word_of_int n\<rparr>"

definition WithID :: "string \<Rightarrow> ('u, 'r, 'e) OptFunc" where
  "WithID i opts = opts\<lparr>o_ID := i\<rparr>"

definition newContext :: "nat \<Rightarrow> PID \<Rightarrow> ('u, 'r) Context" where
  "newContext ctx pid =
     \<lparr>c_pid = pid, c_sender = None, c_receiver = None, c_message = NilAny, c_parentCtx = None,
      c_children = sm_New, c_context = ctx\<rparr>"

text \<open>The options a spawn ends up with: the defaults with the kind, then each option in turn, then
  a generated ID if none was given.\<close>

definition spawn_opts ::
    "(nat \<Rightarrow> 'u any + 'r) \<Rightarrow> string \<Rightarrow> ('u, 'r, 'e) OptFunc list \<Rightarrow> string \<Rightarrow> ('u, 'r, 'e) Opts" where
  "spawn_opts p kind opts rnd_id =
     (let options = fold (\<lambda>opt. opt) opts ((DefaultOpts p)\<lparr>o_Kind := kind\<rparr>) in
      if length (o_ID options) = 0 then options\<lparr>o_ID := rnd_id\<rparr> else options)"

end
