(* ===== verification/Process.thy ===== *)
theory Process
  imports Opts
begin

text \<open>
  The life of one actor (\<^verbatim>\<open>src/actor/process.go\<close>): processing a batch, starting, crashing,
  restarting and cleaning up. The functions act on the process and end in an outcome: they
  return, they panic, or they block forever; \<^verbatim>\<open>defer\<close> and \<^verbatim>\<open>recover\<close> are written out as the
  handling of that outcome. What a process does to the rest of the system is recorded in the
  history \<open>p_trace\<close>, in program order. \<^verbatim>\<open>Start\<close>, \<^verbatim>\<open>Invoke\<close> and \<^verbatim>\<open>tryRestart\<close> call each other
  and take fuel; \<open>None\<close> means it ran out.
\<close>

datatype ('u, 'e) effect =
    Broadcast "'u any"                  \<comment> \<open>\<^verbatim>\<open>engine.BroadcastEvent\<close>\<close>
  | InvokeMsg "'u Envelope"             \<comment> \<open>\<^verbatim>\<open>invokeMsg\<close> hands an envelope to the receiver\<close>
  | UserEff 'e                          \<comment> \<open>an effect of the receiver or a middleware\<close>
  | ParentDelete string                 \<comment> \<open>\<^verbatim>\<open>parentCtx.children.Delete\<close>\<close>
  | PoisonWait "PID option"             \<comment> \<open>\<^verbatim>\<open>engine.Poison(pid)\<close>, then waiting for its context\<close>
  | InboxStart
  | InboxStop
  | RegistryRemove PID
  | CallCancel nat
  | Sleep int

record ('u, 'r, 'e) process =
  p_opts :: "('u, 'r, 'e) Opts"
  p_context :: "('u, 'r) Context"
  p_pid :: PID
  p_restarts :: "32 word"
  p_mbuffer :: "'u Envelope list"
  p_trace :: "('u, 'e) effect list"

text \<open>A goroutine as \<^verbatim>\<open>gostackparse\<close> returns it.\<close>

record goroutine =
  g_id :: int
  g_state :: string
  g_stack :: "(string \<times> string \<times> int) list"   \<comment> \<open>Func, File, Line\<close>

text \<open>What the process meets: the receiver's \<^verbatim>\<open>Receive\<close>, the clock, the raw stack trace, the parser of
  the package \<^verbatim>\<open>gostackparse\<close> (\<open>None\<close> is an error), whether a poisoned child ever finishes,
  what the other goroutines have made of the children map by the time it is read, and the order in
  which it is read. The number is the moment, counted in effects.\<close>

record ('u, 'r, 'e) env =
  env_receive :: "('u, 'r, 'e) ReceiveFunc"
  env_now :: "nat \<Rightarrow> nat"
  env_stack :: "nat \<Rightarrow> string"
  env_parse :: "string \<Rightarrow> goroutine list option"
  env_itoa :: "int \<Rightarrow> string"
  env_done :: "nat \<Rightarrow> PID option \<Rightarrow> bool"
  env_kids :: "nat \<Rightarrow> (string, PID) SafeMap \<Rightarrow> (string, PID) SafeMap"
  env_order :: "nat \<Rightarrow> (string, PID) SafeMap \<Rightarrow> string list"

type_synonym ('u, 'r, 'e) result = "('u, 'r, 'e) process \<times> 'u outcome"

subsection \<open>Steps\<close>

definition emit :: "('u, 'e) effect \<Rightarrow> ('u, 'r, 'e) process \<Rightarrow> ('u, 'r, 'e) process" where
  "emit ef p = p\<lparr>p_trace := p_trace p @ [ef]\<rparr>"

definition moment :: "('u, 'r, 'e) process \<Rightarrow> nat" where
  "moment p = length (p_trace p)"

definition set_message :: "'u any \<Rightarrow> ('u, 'r, 'e) process \<Rightarrow> ('u, 'r, 'e) process" where
  "set_message m p = p\<lparr>p_context := (p_context p)\<lparr>c_message := m\<rparr>\<rparr>"

definition set_sender :: "PID option \<Rightarrow> ('u, 'r, 'e) process \<Rightarrow> ('u, 'r, 'e) process" where
  "set_sender s p = p\<lparr>p_context := (p_context p)\<lparr>c_sender := s\<rparr>\<rparr>"

definition set_receiver :: "'r \<Rightarrow> ('u, 'r, 'e) process \<Rightarrow> ('u, 'r, 'e) process" where
  "set_receiver r p = p\<lparr>p_context := (p_context p)\<lparr>c_receiver := Some r\<rparr>\<rparr>"

text \<open>Sequential composition: the second part runs if the first returns.\<close>

definition seq :: "('u, 'r, 'e) result \<Rightarrow> (('u, 'r, 'e) process \<Rightarrow> ('u, 'r, 'e) result) \<Rightarrow> ('u, 'r, 'e) result" where
  "seq r f = (case r of (p, Returned) \<Rightarrow> f p | _ \<Rightarrow> r)"

definition newProcess :: "string \<Rightarrow> ('u, 'r, 'e) Opts \<Rightarrow> ('u, 'r, 'e) process" where
  "newProcess address opts =
     (let pid = NewPID address (o_Kind opts @ pidSeparator @ o_ID opts) in
      \<lparr>p_opts = opts, p_context = newContext (o_Context opts) pid, p_pid = pid, p_restarts = 0,
       p_mbuffer = [], p_trace = []\<rparr>)"

definition applyMiddleware ::
    "('u, 'r, 'e) ReceiveFunc \<Rightarrow> ('u, 'r, 'e) MiddlewareFunc list \<Rightarrow> ('u, 'r, 'e) ReceiveFunc" where
  "applyMiddleware rcv middleware = fold (\<lambda>m rcv. m rcv) (rev middleware) rcv"

text \<open>The fields of a context are private to the package: what a receive function can change is
  the state behind the receiver and, by spawning, the children.\<close>

definition after_recv :: "('u, 'r) Context \<Rightarrow> ('u, 'r) Context \<Rightarrow> ('u, 'r) Context" where
  "after_recv c c' =
     c\<lparr>c_receiver := (case c_receiver c' of None \<Rightarrow> c_receiver c | Some r \<Rightarrow> Some r),
       c_children := c_children c'\<rparr>"

definition call_recv ::
    "('u, 'r, 'e) ReceiveFunc \<Rightarrow> ('u, 'r, 'e) process \<Rightarrow> ('u, 'r, 'e) result" where
  "call_recv f p =
     (let (c, es, out) = f (p_context p)
      in (p\<lparr>p_context := after_recv (p_context p) c, p_trace := p_trace p @ map UserEff es\<rparr>, out))"

text \<open>\<^verbatim>\<open>p.context.receiver.Receive(p.context)\<close>, without and with the middleware. Taking a method of
  a nil receiver panics.\<close>

definition recv_plain :: "('u, 'r, 'e) env \<Rightarrow> ('u, 'r, 'e) process \<Rightarrow> ('u, 'r, 'e) result" where
  "recv_plain env p =
     (if c_receiver (p_context p) = None then (p, Panicked (RuntimeError NilDeref))
      else call_recv (env_receive env) p)"

definition recv_mw :: "('u, 'r, 'e) env \<Rightarrow> ('u, 'r, 'e) process \<Rightarrow> ('u, 'r, 'e) result" where
  "recv_mw env p =
     (if c_receiver (p_context p) = None then (p, Panicked (RuntimeError NilDeref))
      else call_recv (applyMiddleware (env_receive env) (o_Middleware (p_opts p))) p)"

definition invokeMsg :: "('u, 'r, 'e) env \<Rightarrow> 'u Envelope \<Rightarrow> ('u, 'r, 'e) process \<Rightarrow> ('u, 'r, 'e) result" where
  "invokeMsg env msg p =
     (if is_pill (Msg msg) then (p, Returned)
      else
        let p = emit (InvokeMsg msg) (set_sender (Sender msg) (set_message (Msg msg) p)) in
        if length (o_Middleware (p_opts p)) > 0 then recv_mw env p else recv_plain env p)"

text \<open>\<^verbatim>\<open>Context.Children\<close>: the length and the entries are read in separate critical sections, so
  the map may have changed in between (\<open>sm\<close>, then \<open>sm'\<close>).\<close>

definition Children :: "(string, PID) SafeMap \<Rightarrow> (string, PID) SafeMap \<Rightarrow> string list \<Rightarrow> (PID option list) go" where
  "Children sm sm' ks =
     go_bind (go_make None (int (sm_Len sm))) (\<lambda>pids.
     go_bind (sm_ForEach sm' ks
       (\<lambda>_ child (i, pids). go_bind (go_store pids i (Some child)) (\<lambda>pids. Inr (i + 1, pids))) (0, pids))
       (\<lambda>(_, pids). Inr pids))"

fun poison_all :: "('u, 'r, 'e) env \<Rightarrow> PID option list \<Rightarrow> ('u, 'r, 'e) process \<Rightarrow> ('u, 'r, 'e) result" where
  "poison_all env [] p = (p, Returned)"
| "poison_all env (pid # pids) p =
     (let p = emit (PoisonWait pid) p in
      if env_done env (moment p) pid then poison_all env pids p else (p, Blocked))"

definition cleanup_children :: "('u, 'r, 'e) env \<Rightarrow> ('u, 'r, 'e) process \<Rightarrow> ('u, 'r, 'e) result" where
  "cleanup_children env p =
     (if sm_Len (c_children (p_context p)) > 0 then
        (let kids = env_kids env (moment p) (c_children (p_context p)) in
         case Children (c_children (p_context p)) kids (env_order env (moment p) kids) of
           Inl e \<Rightarrow> (p, Panicked (RuntimeError e))
         | Inr children \<Rightarrow> poison_all env children p)
      else (p, Returned))"

text \<open>The deferred \<^verbatim>\<open>cancel()\<close> runs when the body returns or panics; calling a nil function
  panics.\<close>

definition run_cancel :: "nat option \<Rightarrow> ('u, 'r, 'e) result \<Rightarrow> ('u, 'r, 'e) result" where
  "run_cancel cancel r =
     (case r of
        (p, Blocked) \<Rightarrow> (p, Blocked)
      | (p, out) \<Rightarrow>
          (case cancel of
             None \<Rightarrow> (p, Panicked (RuntimeError NilDeref))
           | Some c \<Rightarrow> (emit (CallCancel c) p, out)))"

definition cleanup :: "('u, 'r, 'e) env \<Rightarrow> nat option \<Rightarrow> ('u, 'r, 'e) process \<Rightarrow> ('u, 'r, 'e) result" where
  "cleanup env cancel p = run_cancel cancel
     (let p = (if c_parentCtx (p_context p) \<noteq> None then emit (ParentDelete (ID (p_pid p))) p else p) in
      seq (cleanup_children env p) (\<lambda>p.
      let p = set_message Stopped (emit (RegistryRemove (p_pid p)) (emit InboxStop p)) in
      seq (recv_mw env p) (\<lambda>p.
        (emit (Broadcast (ActorStoppedEvent (Some (p_pid p)) (env_now env (moment p)))) p, Returned))))"

definition Shutdown :: "('u, 'r, 'e) env \<Rightarrow> ('u, 'r, 'e) process \<Rightarrow> ('u, 'r, 'e) result" where
  "Shutdown env p = cleanup env None p"

subsection \<open>A batch\<close>

fun invoke_all :: "('u, 'r, 'e) env \<Rightarrow> 'u Envelope list \<Rightarrow> ('u, 'r, 'e) process \<Rightarrow> ('u, 'r, 'e) result" where
  "invoke_all env [] p = (p, Returned)"
| "invoke_all env (m # ms) p = seq (invokeMsg env m p) (invoke_all env ms)"

text \<open>The loop of \<^verbatim>\<open>Invoke\<close> over what is left of the batch \<open>msgs\<close>, with its two counters; it also
  returns \<open>nproc\<close>.\<close>

fun invoke_loop ::
    "('u, 'r, 'e) env \<Rightarrow> 'u Envelope list \<Rightarrow> nat \<Rightarrow> nat \<Rightarrow> 'u Envelope list \<Rightarrow> ('u, 'r, 'e) process \<Rightarrow>
     ('u, 'r, 'e) result \<times> nat" where
  "invoke_loop env msgs nproc processed [] p = ((p, Returned), nproc)"
| "invoke_loop env msgs nproc processed (msg # rest) p =
     (case Msg msg of
        PoisonPill cancel graceful \<Rightarrow>
          (seq (if graceful then invoke_all env (drop processed msgs) p else (p, Returned))
             (cleanup env cancel), nproc + 1)
      | _ \<Rightarrow>
          (case invokeMsg env msg p of
             (p, Returned) \<Rightarrow> invoke_loop env msgs (nproc + 1) (processed + 1) rest p
           | r \<Rightarrow> (r, nproc + 1)))"

subsection \<open>Restarts\<close>

definition cleanTrace :: "('u, 'r, 'e) env \<Rightarrow> string \<Rightarrow> string go" where
  "cleanTrace env stack =
     (case env_parse env stack of
        None \<Rightarrow> Inr stack
      | Some goros \<Rightarrow>
          if length goros \<noteq> 1 then Inr stack
          else
            let g = hd goros in
            if length (g_stack g) < 4 then Inl IndexOutOfRange
            else Inr (''goroutine '' @ env_itoa env (g_id g) @ '' ['' @ g_state g @ '']'' @ [CHR 0x0A] @
              concat (map (\<lambda>(func, file, line).
                func @ [CHR 0x0A] @ [CHR 0x09] @ file @ '':'' @ env_itoa env line @ [CHR 0x0A])
                (drop 4 (g_stack g)))))"

text \<open>\<^verbatim>\<open>Start\<close> up to the point where it replays the buffer.\<close>

definition start_body :: "('u, 'r, 'e) env \<Rightarrow> ('u, 'r, 'e) process \<Rightarrow> ('u, 'r, 'e) result" where
  "start_body env p =
     seq (recv_mw env (set_message Initialized p)) (\<lambda>p.
     let p = emit (Broadcast (ActorInitializedEvent (Some (p_pid p)) (env_now env (moment p)))) p in
     seq (recv_mw env (set_message Started p)) (\<lambda>p.
       (emit (Broadcast (ActorStartedEvent (Some (p_pid p)) (env_now env (moment p)))) p, Returned)))"

text \<open>What \<^verbatim>\<open>Start\<close> and \<^verbatim>\<open>Invoke\<close> do first when they recover from a panic.\<close>

definition recv_stopped :: "('u, 'r, 'e) env \<Rightarrow> ('u, 'r, 'e) process \<Rightarrow> ('u, 'r, 'e) result" where
  "recv_stopped env p = recv_plain env (set_message Stopped p)"

definition max_restarts_exceeded :: "('u, 'r, 'e) env \<Rightarrow> ('u, 'r, 'e) process \<Rightarrow> ('u, 'r, 'e) result" where
  "max_restarts_exceeded env p =
     cleanup env None
       (emit (Broadcast (ActorMaxRestartsExceededEvent (Some (p_pid p)) (env_now env (moment p)))) p)"

definition note_restart :: "('u, 'r, 'e) env \<Rightarrow> 'u any \<Rightarrow> string \<Rightarrow> ('u, 'r, 'e) process \<Rightarrow> ('u, 'r, 'e) process" where
  "note_restart env v stackTrace p =
     (let p = p\<lparr>p_restarts := p_restarts p + 1\<rparr>;
          p = emit (Broadcast (ActorRestartedEvent (Some (p_pid p)) (env_now env (moment p)) stackTrace v
                (p_restarts p))) p
      in emit (Sleep (o_RestartDelay (p_opts p))) p)"

text \<open>The end of \<^verbatim>\<open>Start\<close>: replaying the buffer with \<open>invoke\<close>, then starting the inbox.\<close>

definition replay ::
    "('u Envelope list \<Rightarrow> ('u, 'r, 'e) process \<Rightarrow> ('u, 'r, 'e) result option) \<Rightarrow>
     ('u, 'r, 'e) process \<Rightarrow> ('u, 'r, 'e) result option" where
  "replay invoke p =
     map_option (\<lambda>r. seq r (\<lambda>p. (emit InboxStart p, Returned)))
       (if length (p_mbuffer p) > 0
        then map_option (\<lambda>r. seq r (\<lambda>p. (p\<lparr>p_mbuffer := []\<rparr>, Returned))) (invoke (p_mbuffer p) p)
        else Some (p, Returned))"

text \<open>The deferred functions of \<^verbatim>\<open>Start\<close> and \<^verbatim>\<open>Invoke\<close>: after a panic, the receiver is told that it
  is stopped, and then \<open>restart\<close> runs.\<close>

definition recovering ::
    "('u, 'r, 'e) env \<Rightarrow> ('u any \<Rightarrow> ('u, 'r, 'e) process \<Rightarrow> ('u, 'r, 'e) result option) \<Rightarrow>
     ('u, 'r, 'e) result \<Rightarrow> ('u, 'r, 'e) result option" where
  "recovering env restart r =
     (case r of
        (p, Panicked v) \<Rightarrow>
          (case recv_stopped env p of
             (p, Returned) \<Rightarrow> restart v p
           | r \<Rightarrow> Some r)
      | _ \<Rightarrow> Some r)"

fun Start :: "('u, 'r, 'e) env \<Rightarrow> nat \<Rightarrow> ('u, 'r, 'e) process \<Rightarrow> ('u, 'r, 'e) result option"
  and Invoke :: "('u, 'r, 'e) env \<Rightarrow> nat \<Rightarrow> 'u Envelope list \<Rightarrow> ('u, 'r, 'e) process \<Rightarrow> ('u, 'r, 'e) result option"
  and tryRestart :: "('u, 'r, 'e) env \<Rightarrow> nat \<Rightarrow> 'u any \<Rightarrow> ('u, 'r, 'e) process \<Rightarrow> ('u, 'r, 'e) result option"
where
  "Start env 0 p = None"
| "Start env (Suc n) p =
     (case o_Producer (p_opts p) (moment p) of
        Inl v \<Rightarrow> Some (p, Panicked v)
      | Inr recv \<Rightarrow>
          (case (case start_body env (set_receiver recv p) of
                   (p, Returned) \<Rightarrow> replay (\<lambda>msgs p. Invoke env n msgs p) p
                 | r \<Rightarrow> Some r) of
             None \<Rightarrow> None
           | Some r \<Rightarrow> recovering env (\<lambda>v p. tryRestart env n v p) r))"
| "Invoke env 0 msgs p = None"
| "Invoke env (Suc n) msgs p =
     (let (r, nproc) = invoke_loop env msgs 0 0 msgs p
      in recovering env (\<lambda>v p. tryRestart env n v (p\<lparr>p_mbuffer := drop nproc msgs\<rparr>)) r)"
| "tryRestart env 0 v p = None"
| "tryRestart env (Suc n) v p =
     (case v of
        InternalError from err \<Rightarrow> Start env n (emit (Sleep (o_RestartDelay (p_opts p))) p)
      | _ \<Rightarrow>
          (case cleanTrace env (env_stack env (moment p)) of
             Inl e \<Rightarrow> Some (p, Panicked (RuntimeError e))
           | Inr stackTrace \<Rightarrow>
               if p_restarts p = o_MaxRestarts (p_opts p) then Some (max_restarts_exceeded env p)
               else Start env n (note_restart env v stackTrace p)))"


subsection \<open>What the parts leave alone\<close>

definition invoked :: "('u, 'r, 'e) process \<Rightarrow> 'u Envelope list" where
  "invoked p = List.map_filter (\<lambda>ef. case ef of InvokeMsg m \<Rightarrow> Some m | _ \<Rightarrow> None) (p_trace p)"

fun is_restart_ev :: "'u any \<Rightarrow> bool" where
  "is_restart_ev (ActorRestartedEvent _ _ _ _ _) = True"
| "is_restart_ev _ = False"

fun is_restarted :: "('u, 'e) effect \<Rightarrow> bool" where
  "is_restarted (Broadcast ev) = is_restart_ev ev"
| "is_restarted _ = False"

definition restart_events :: "('u, 'r, 'e) process \<Rightarrow> nat" where
  "restart_events p = length (filter is_restarted (p_trace p))"

definition has_recv :: "('u, 'r, 'e) process \<Rightarrow> bool" where
  "has_recv p \<longleftrightarrow> c_receiver (p_context p) \<noteq> None"

definition frame :: "('u, 'r, 'e) process \<Rightarrow> ('u, 'r, 'e) process \<Rightarrow> bool" where
  "frame p p' \<longleftrightarrow> p_opts p' = p_opts p \<and> p_pid p' = p_pid p \<and> p_restarts p' = p_restarts p \<and>
     p_mbuffer p' = p_mbuffer p \<and> invoked p' = invoked p \<and> restart_events p' = restart_events p \<and>
     (has_recv p \<longrightarrow> has_recv p')"

lemma frame_refl [simp]: "frame p p"
  by (simp add: frame_def)

lemma frame_trans: "frame p q \<Longrightarrow> frame q r \<Longrightarrow> frame p r"
  by (simp add: frame_def)

lemma map_filter_append [simp]: "List.map_filter f (xs @ ys) = List.map_filter f xs @ List.map_filter f ys"
  by (simp add: List.map_filter_def)

lemma map_filter_UserEff [simp]:
  "List.map_filter (\<lambda>ef. case ef of InvokeMsg m \<Rightarrow> Some m | _ \<Rightarrow> None) (map UserEff es) = []"
  "filter is_restarted (map UserEff es) = []"
  by (induction es) (auto simp: List.map_filter_def)

lemma invoked_emit: "invoked (emit ef p) = invoked p @ (case ef of InvokeMsg m \<Rightarrow> [m] | _ \<Rightarrow> [])"
  by (simp add: invoked_def emit_def List.map_filter_def split: effect.split)

lemma emit_simps [simp]:
  "p_opts (emit ef p) = p_opts p" "p_pid (emit ef p) = p_pid p" "p_restarts (emit ef p) = p_restarts p"
  "p_mbuffer (emit ef p) = p_mbuffer p" "has_recv (emit ef p) = has_recv p"
  "p_context (emit ef p) = p_context p"
  "restart_events (emit ef p) = restart_events p + (if is_restarted ef then 1 else 0)"
  by (simp_all add: emit_def has_recv_def restart_events_def)

lemma set_simps [simp]:
  "p_opts (set_message m p) = p_opts p" "p_pid (set_message m p) = p_pid p"
  "p_restarts (set_message m p) = p_restarts p" "p_mbuffer (set_message m p) = p_mbuffer p"
  "has_recv (set_message m p) = has_recv p" "invoked (set_message m p) = invoked p"
  "restart_events (set_message m p) = restart_events p"
  "p_opts (set_sender s p) = p_opts p" "p_pid (set_sender s p) = p_pid p"
  "p_restarts (set_sender s p) = p_restarts p" "p_mbuffer (set_sender s p) = p_mbuffer p"
  "has_recv (set_sender s p) = has_recv p" "invoked (set_sender s p) = invoked p"
  "restart_events (set_sender s p) = restart_events p"
  "p_opts (set_receiver r p) = p_opts p" "p_pid (set_receiver r p) = p_pid p"
  "p_restarts (set_receiver r p) = p_restarts p" "p_mbuffer (set_receiver r p) = p_mbuffer p"
  "has_recv (set_receiver r p)" "invoked (set_receiver r p) = invoked p"
  "restart_events (set_receiver r p) = restart_events p"
  "c_message (p_context (set_message m p)) = m"
  by (simp_all add: set_message_def set_sender_def set_receiver_def invoked_def has_recv_def restart_events_def)

lemma upd_simps [simp]:
  "invoked (p\<lparr>p_mbuffer := b\<rparr>) = invoked p" "has_recv (p\<lparr>p_mbuffer := b\<rparr>) = has_recv p"
  "restart_events (p\<lparr>p_mbuffer := b\<rparr>) = restart_events p"
  "invoked (p\<lparr>p_restarts := n\<rparr>) = invoked p" "has_recv (p\<lparr>p_restarts := n\<rparr>) = has_recv p"
  "restart_events (p\<lparr>p_restarts := n\<rparr>) = restart_events p"
  by (simp_all add: invoked_def has_recv_def restart_events_def)

lemma frame_emit: "(\<And>m. ef \<noteq> InvokeMsg m) \<Longrightarrow> \<not> is_restarted ef \<Longrightarrow> frame p (emit ef p)"
  by (cases ef) (auto simp: frame_def invoked_emit)

lemma frame_set [simp]: "frame p (set_message m p)" "frame p (set_sender s p)" "frame p (set_receiver r p)"
  by (simp_all add: frame_def)

lemma frame_call_recv: "frame p (fst (call_recv f p))"
  by (auto simp: call_recv_def frame_def invoked_def has_recv_def restart_events_def after_recv_def
      split: prod.split option.split)

lemma frame_recv [simp]: "frame p (fst (recv_plain env p))" "frame p (fst (recv_mw env p))"
  by (simp_all add: recv_plain_def recv_mw_def frame_call_recv)

lemma frame_seq: "frame p (fst r) \<Longrightarrow> (\<And>q. frame p q \<Longrightarrow> frame p (fst (f q))) \<Longrightarrow> frame p (fst (seq r f))"
  by (auto simp: seq_def split: prod.splits outcome.splits)

lemma frame_bcast: "frame p q \<Longrightarrow> \<not> is_restart_ev ev \<Longrightarrow> frame p (emit (Broadcast ev) q)"
  by (rule frame_trans [OF _ frame_emit]) simp_all

lemma frame_recv_msg: "frame p q \<Longrightarrow> frame p (fst (recv_mw env (set_message m q)))"
  using frame_trans [OF frame_trans [OF _ frame_set(1)] frame_recv(2)] .

lemma frame_recv_stopped: "frame p (fst (recv_stopped env p))"
  unfolding recv_stopped_def by (rule frame_trans [of _ "set_message Stopped p"]) simp_all

lemma frame_poison_all: "frame p (fst (poison_all env pids p))"
proof (induction pids arbitrary: p)
  case (Cons pid pids)
  have "frame p (emit (PoisonWait pid) p)" by (simp add: frame_emit)
  then show ?case using Cons.IH [of "emit (PoisonWait pid) p"] by (auto simp: Let_def intro: frame_trans)
qed simp

lemma frame_cleanup_children: "frame p (fst (cleanup_children env p))"
  by (auto simp: cleanup_children_def Let_def frame_poison_all split: sum.split)

lemma frame_run_cancel: "frame p (fst r) \<Longrightarrow> frame p (fst (run_cancel cancel r))"
  by (auto simp: run_cancel_def intro: frame_trans [OF _ frame_emit] split: prod.splits outcome.splits option.splits)

lemma frame_cleanup: "frame p (fst (cleanup env cancel p))"
  unfolding cleanup_def Let_def
proof (rule frame_run_cancel, rule frame_seq)
  let ?p = "if c_parentCtx (p_context p) \<noteq> None then emit (ParentDelete (ID (p_pid p))) p else p"
  have "frame p ?p" by (simp add: frame_emit)
  then show "frame p (fst (cleanup_children env ?p))" by (rule frame_trans [OF _ frame_cleanup_children])
next
  fix q :: "('a, 'b, 'c) process" assume q: "frame p q"
  let ?q = "set_message Stopped (emit (RegistryRemove (p_pid q)) (emit InboxStop q))"
  have "frame q ?q" by (simp add: frame_def invoked_emit)
  then have f: "frame p (fst (recv_mw env ?q))" using frame_trans [OF frame_trans [OF q] frame_recv(2)] by simp
  show "frame p (fst (seq (recv_mw env ?q) (\<lambda>p. (emit (Broadcast (ActorStoppedEvent (Some (p_pid p))
      (env_now env (moment p)))) p, Returned))))"
    by (rule frame_seq [OF f]) (simp add: frame_bcast)
qed

lemma frame_start_body: "frame p (fst (start_body env p))"
  unfolding start_body_def Let_def
  by (rule frame_seq, simp add: frame_recv_msg, rule frame_seq)
    (simp_all add: frame_recv_msg frame_bcast)

lemma frame_max_restarts: "frame p (fst (max_restarts_exceeded env p))"
  unfolding max_restarts_exceeded_def
  by (rule frame_trans [OF _ frame_cleanup]) (simp add: frame_emit)


text \<open>Like \<open>frame\<close>, but the envelopes \<open>ms\<close> have been handed to the receiver meanwhile.\<close>

definition progress :: "'u Envelope list \<Rightarrow> ('u, 'r, 'e) process \<Rightarrow> ('u, 'r, 'e) process \<Rightarrow> bool" where
  "progress ms p p' \<longleftrightarrow> p_opts p' = p_opts p \<and> p_pid p' = p_pid p \<and> p_restarts p' = p_restarts p \<and>
     p_mbuffer p' = p_mbuffer p \<and> invoked p' = invoked p @ ms \<and> restart_events p' = restart_events p \<and>
     (has_recv p \<longrightarrow> has_recv p')"

lemma progress_Nil [simp]: "progress [] p p' = frame p p'"
  by (simp add: progress_def frame_def)

lemma progress_trans: "progress xs p q \<Longrightarrow> progress ys q r \<Longrightarrow> progress (xs @ ys) p r"
  by (auto simp: progress_def)

abbreviation no_pills :: "'u Envelope list \<Rightarrow> bool" where
  "no_pills ms \<equiv> list_all (\<lambda>m. \<not> is_pill (Msg m)) ms"

lemma no_pills_drop: "no_pills ms \<Longrightarrow> no_pills (drop n ms)"
  by (meson in_set_dropD list_all_iff)

lemma invokeMsg_progress: "progress (if is_pill (Msg m) then [] else [m]) p (fst (invokeMsg env m p))"
proof (cases "is_pill (Msg m)")
  case False
  let ?p = "emit (InvokeMsg m) (set_sender (Sender m) (set_message (Msg m) p))"
  have "progress [m] p ?p" by (simp add: progress_def invoked_emit)
  moreover have "frame ?p (fst (recv_mw env ?p))" "frame ?p (fst (recv_plain env ?p))" by simp_all
  ultimately have "progress [m] p (fst (recv_mw env ?p))" "progress [m] p (fst (recv_plain env ?p))"
    using progress_trans [of "[m]" p ?p "[]"] by simp_all
  then show ?thesis using False by (simp add: invokeMsg_def Let_def)
qed (simp add: invokeMsg_def)

lemma invoke_loop_msg:
  "\<not> is_pill (Msg m) \<Longrightarrow> invoke_loop env msgs k j (m # rest) p =
     (case invokeMsg env m p of
        (p, Returned) \<Rightarrow> invoke_loop env msgs (k + 1) (j + 1) rest p
      | r \<Rightarrow> (r, k + 1))"
  by (cases "Msg m") simp_all

lemma invoke_loop_plain:
  assumes "no_pills rest" "invoke_loop env msgs k j rest p = ((p', out), nproc)"
  shows "\<exists>i \<le> length rest. nproc = k + i \<and> progress (take i rest) p p' \<and> (out = Returned \<longrightarrow> i = length rest)"
  using assms
proof (induction rest arbitrary: k j p)
  case (Cons m rest)
  obtain q o1 where r: "invokeMsg env m p = (q, o1)" by fastforce
  have m: "\<not> is_pill (Msg m)" "no_pills rest" using Cons.prems(1) by auto
  have q: "progress [m] p q" using invokeMsg_progress [of m p env] m(1) r by simp
  show ?case
  proof (cases "o1 = Returned")
    case True
    then have "invoke_loop env msgs (k + 1) (j + 1) rest q = ((p', out), nproc)"
      using Cons.prems(2) r m(1) by (simp add: invoke_loop_msg del: invoke_loop.simps(2))
    from Cons.IH [OF m(2) this] obtain i where "i \<le> length rest" "nproc = k + 1 + i"
      "progress (take i rest) q p'" "out = Returned \<longrightarrow> i = length rest" by auto
    then show ?thesis using progress_trans [OF q] by (intro exI [of _ "Suc i"]) auto
  next
    case False
    then have "p' = q" "nproc = k + 1" "out \<noteq> Returned" using Cons.prems(2) r m(1)
      by (auto simp: invoke_loop_msg simp del: invoke_loop.simps(2) split: outcome.splits)
    then show ?thesis using q by (intro exI [of _ "1"]) auto
  qed
qed simp

fun is_internal :: "'u any \<Rightarrow> bool" where
  "is_internal (InternalError from err) = True"
| "is_internal _ = False"

lemma tryRestart_other:
  "\<not> is_internal v \<Longrightarrow> tryRestart env (Suc n) v p =
     (case cleanTrace env (env_stack env (moment p)) of
        Inl e \<Rightarrow> Some (p, Panicked (RuntimeError e))
      | Inr stackTrace \<Rightarrow>
          if p_restarts p = o_MaxRestarts (p_opts p) then Some (max_restarts_exceeded env p)
          else Start env n (note_restart env v stackTrace p))"
  by (cases v) (simp_all split: sum.split)

lemma tryRestart_internal:
  "is_internal v \<Longrightarrow> tryRestart env (Suc n) v p = Start env n (emit (Sleep (o_RestartDelay (p_opts p))) p)"
  by (cases v) simp_all

lemma cleanup_None: "snd (cleanup env None p) \<noteq> Returned"
  by (auto simp: cleanup_def run_cancel_def split: prod.splits outcome.splits)

lemma max_restarts_not_returned: "snd (max_restarts_exceeded env p) \<noteq> Returned"
  by (simp add: max_restarts_exceeded_def cleanup_None)

subsection \<open>The restart budget\<close>

definition budget :: "('u, 'r, 'e) process \<Rightarrow> nat" where
  "budget p = unat (o_MaxRestarts (p_opts p) - p_restarts p)"

text \<open>Whatever happens, the restarts announced and the restarts left add up.\<close>

definition steady :: "('u, 'r, 'e) process \<Rightarrow> ('u, 'r, 'e) process \<Rightarrow> bool" where
  "steady p q \<longleftrightarrow> p_opts q = p_opts p \<and> p_pid q = p_pid p \<and> (has_recv p \<longrightarrow> has_recv q) \<and>
     budget q \<le> budget p \<and> restart_events q + budget q = restart_events p + budget p"

lemma steady_refl [simp]: "steady p p"
  by (simp add: steady_def)

lemma steady_trans: "steady p q \<Longrightarrow> steady q r \<Longrightarrow> steady p r"
  by (simp add: steady_def)

lemma progress_steady: "progress ms p q \<Longrightarrow> steady p q"
  by (simp add: progress_def steady_def budget_def)

lemma frame_steady: "frame p q \<Longrightarrow> steady p q"
  by (simp add: frame_def steady_def budget_def)

lemma steady_mbuffer [simp]:
  "steady p (q\<lparr>p_mbuffer := b\<rparr>) = steady p q" "steady (p\<lparr>p_mbuffer := b\<rparr>) q = steady p q"
  by (simp_all add: steady_def budget_def)

lemma steady_emit [simp]:
  "\<not> is_restarted ef \<Longrightarrow> steady p (emit ef q) = steady p q"
  "\<not> is_restarted ef \<Longrightarrow> steady (emit ef p) q = steady p q"
  by (simp_all add: steady_def budget_def)

lemma note_restart_simps [simp]:
  "p_opts (note_restart env v st p) = p_opts p" "p_pid (note_restart env v st p) = p_pid p"
  "p_mbuffer (note_restart env v st p) = p_mbuffer p" "invoked (note_restart env v st p) = invoked p"
  "has_recv (note_restart env v st p) = has_recv p"
  "p_restarts (note_restart env v st p) = p_restarts p + 1"
  by (simp_all add: note_restart_def Let_def invoked_emit)

lemma budget_note_restart:
  assumes "p_restarts p \<noteq> o_MaxRestarts (p_opts p)"
  shows "budget p = Suc (budget (note_restart env v st p))"
proof -
  have "o_MaxRestarts (p_opts p) - p_restarts p \<noteq> 0" using assms by simp
  then have "unat (o_MaxRestarts (p_opts p) - p_restarts p - 1) + 1 = unat (o_MaxRestarts (p_opts p) - p_restarts p)"
    using unat_minus_one [of "o_MaxRestarts (p_opts p) - p_restarts p"]
      unat_gt_0 [of "o_MaxRestarts (p_opts p) - p_restarts p"] by linarith
  then show ?thesis by (simp add: budget_def diff_diff_eq)
qed

lemma steady_note_restart:
  "p_restarts p \<noteq> o_MaxRestarts (p_opts p) \<Longrightarrow> steady p (note_restart env v st p)"
  using budget_note_restart [of p env v st]
  by (simp add: steady_def) (simp add: note_restart_def Let_def)

lemma steady_seq: "steady p (fst r) \<Longrightarrow> (\<And>q. steady p q \<Longrightarrow> steady p (fst (f q))) \<Longrightarrow> steady p (fst (seq r f))"
  by (auto simp: seq_def split: prod.splits outcome.splits)

lemma steady_cleanup: "steady p q \<Longrightarrow> steady p (fst (cleanup env c q))"
  using steady_trans frame_steady [OF frame_cleanup] by blast

lemma steady_invokeMsg: "steady p (fst (invokeMsg env m p))"
  using progress_steady [OF invokeMsg_progress] .

lemma steady_invoke_all: "steady p (fst (invoke_all env ms p))"
proof (induction ms arbitrary: p)
  case (Cons m ms)
  show ?case using steady_seq [OF steady_invokeMsg, of p "invoke_all env ms" env m] Cons.IH
    by (auto intro: steady_trans)
qed simp

lemma invoke_loop_pill:
  "Msg m = PoisonPill c g \<Longrightarrow> invoke_loop env msgs k j (m # rest) p =
     (seq (if g then invoke_all env (drop j msgs) p else (p, Returned)) (cleanup env c), k + 1)"
  by simp

lemma is_pillE: "is_pill m \<Longrightarrow> (\<And>c g. m = PoisonPill c g \<Longrightarrow> thesis) \<Longrightarrow> thesis"
  by (cases m) auto

lemma steady_invoke_loop: "steady p (fst (fst (invoke_loop env msgs k j rest p)))"
proof (induction rest arbitrary: k j p)
  case (Cons m rest)
  show ?case
  proof (cases "is_pill (Msg m)")
    case True
    then obtain c g where "Msg m = PoisonPill c g" by (rule is_pillE)
    then show ?thesis
      using steady_seq [OF steady_invoke_all steady_cleanup] steady_seq [of p "(p, Returned)", OF _ steady_cleanup]
      by (auto simp: invoke_loop_pill simp del: invoke_loop.simps(2))
  next
    case False
    obtain q o1 where r: "invokeMsg env m p = (q, o1)" by fastforce
    then have "steady p q" using steady_invokeMsg [of p env m] by simp
    then show ?thesis using False r Cons.IH [of q "k + 1" "j + 1"] steady_trans
      by (auto simp: invoke_loop_msg simp del: invoke_loop.simps(2) split: outcome.split)
  qed
qed simp

lemma recovering_cases:
  assumes "recovering env restart r = Some r'"
  obtains "r' = r" "\<And>v. snd r \<noteq> Panicked v"
    | v q where "snd r = Panicked v" "recv_stopped env (fst r) = (q, Returned)" "restart v q = Some r'"
    | v where "snd r = Panicked v" "r' = recv_stopped env (fst r)" "snd r' \<noteq> Returned"
proof (cases "snd r")
  case (Panicked v)
  then show thesis using assms that(2,3)
    by (cases r; cases "recv_stopped env (fst r)"; cases "snd (recv_stopped env (fst r))")
      (auto simp: recovering_def)
qed (use assms that(1) in \<open>cases r; auto simp: recovering_def\<close>)+

lemma replay_cases:
  assumes "replay invk q = Some r"
  obtains "p_mbuffer q = []" "r = (emit InboxStart q, Returned)"
    | q' where "invk (p_mbuffer q) q = Some (q', Returned)" "r = (emit InboxStart (q'\<lparr>p_mbuffer := []\<rparr>), Returned)"
    | "invk (p_mbuffer q) q = Some r" "snd r \<noteq> Returned"
proof (cases "p_mbuffer q = []")
  case False
  then obtain r1 where r1: "invk (p_mbuffer q) q = Some r1"
    "r = seq (seq r1 (\<lambda>p. (p\<lparr>p_mbuffer := []\<rparr>, Returned))) (\<lambda>p. (emit InboxStart p, Returned))"
    using assms by (auto simp: replay_def)
  show thesis
  proof (cases "snd r1")
    case Returned
    then show thesis using r1 that(2) [of "fst r1"] by (cases r1) (auto simp: seq_def)
  qed (use r1 that(3) in \<open>cases r1; auto simp: seq_def\<close>)+
qed (use assms that(1) in \<open>simp add: replay_def seq_def\<close>)

lemma Start_cases:
  assumes "Start env (Suc n) p = Some r"
  obtains v where "r = (p, Panicked v)"
    | recv q r' where "start_body env (set_receiver recv p) = (q, Returned)"
        "replay (Invoke env n) q = Some r'" "recovering env (tryRestart env n) r' = Some r"
    | recv r' where "start_body env (set_receiver recv p) = r'" "snd r' \<noteq> Returned"
        "recovering env (tryRestart env n) r' = Some r"
proof (cases "o_Producer (p_opts p) (moment p)")
  case (Inr recv)
  show thesis
  proof (cases "snd (start_body env (set_receiver recv p))")
    case Returned
    then show thesis using assms Inr that(2) [of recv "fst (start_body env (set_receiver recv p))"]
      by (auto split: option.splits prod.splits)
  qed (use assms Inr that(3) [of recv] in \<open>auto split: prod.splits\<close>)
qed (use assms that(1) in \<open>auto\<close>)

lemma steady_recovering:
  assumes "recovering env f r = Some r'" "steady p (fst r)" "\<And>v q r'. f v q = Some r' \<Longrightarrow> steady q (fst r')"
  shows "steady p (fst r')"
proof -
  have "steady p (fst (recv_stopped env (fst r)))"
    using steady_trans [OF assms(2) frame_steady [OF frame_recv_stopped]] .
  then show ?thesis using recovering_cases [OF assms(1)] assms(2,3) steady_trans by (metis fst_conv)
qed

lemma steady_start_body: "steady p (fst (start_body env (set_receiver recv p)))"
  using steady_trans [OF frame_steady [OF frame_set(3)] frame_steady [OF frame_start_body]] .

lemma steady_Start:
  assumes I: "\<And>msgs p r. Invoke env n msgs p = Some r \<Longrightarrow> steady p (fst r)"
    and T: "\<And>v p r. tryRestart env n v p = Some r \<Longrightarrow> steady p (fst r)"
    and "Start env (Suc n) p = Some r"
  shows "steady p (fst r)"
  using assms(3)
proof (cases rule: Start_cases)
  case (2 recv q r')
  have q: "steady p q" using steady_start_body [of p env recv] 2(1) by simp
  have "steady q (fst r')" using 2(2)
  proof (cases rule: replay_cases)
    case (2 q')
    then show ?thesis using I [OF 2(1)] by simp
  next
    case 3
    then show ?thesis using I [OF 3(1)] by simp
  qed simp
  from steady_recovering [OF 2(3) steady_trans [OF q this] T] show ?thesis .
next
  case (3 recv r')
  then have "steady p (fst r')" using steady_start_body [of p env recv] by simp
  from steady_recovering [OF 3(3) this T] show ?thesis .
qed simp

lemma steady_Invoke:
  assumes T: "\<And>v p r. tryRestart env n v p = Some r \<Longrightarrow> steady p (fst r)"
    and "Invoke env (Suc n) msgs p = Some r"
  shows "steady p (fst r)"
proof -
  obtain r1 k where l: "invoke_loop env msgs 0 0 msgs p = (r1, k)" by fastforce
  then have s: "steady p (fst r1)" using steady_invoke_loop [of p env msgs 0 0 msgs] by simp
  have "recovering env (\<lambda>v p. tryRestart env n v (p\<lparr>p_mbuffer := drop k msgs\<rparr>)) r1 = Some r"
    using assms(2) l by simp
  moreover have "steady q (fst r')" if "tryRestart env n v (q\<lparr>p_mbuffer := drop k msgs\<rparr>) = Some r'" for v q r'
    using T [OF that] by simp
  ultimately show ?thesis using steady_recovering [OF _ s] by blast
qed

lemma steady_tryRestart:
  assumes S: "\<And>p r. Start env n p = Some r \<Longrightarrow> steady p (fst r)"
    and "tryRestart env (Suc n) v p = Some r"
  shows "steady p (fst r)"
proof (cases "is_internal v")
  case True
  then show ?thesis using assms(2) S [of "emit (Sleep (o_RestartDelay (p_opts p))) p" r]
    by (simp add: tryRestart_internal del: tryRestart.simps(2))
next
  case False
  show ?thesis
  proof (cases "cleanTrace env (env_stack env (moment p))")
    case (Inr st)
    show ?thesis
    proof (cases "p_restarts p = o_MaxRestarts (p_opts p)")
      case True
      then show ?thesis using assms(2) False Inr frame_steady [OF frame_max_restarts [of p env]]
        by (auto simp: tryRestart_other simp del: tryRestart.simps(2))
    next
      case neq: False
      then have "Start env n (note_restart env v st p) = Some r"
        using assms(2) False Inr by (simp add: tryRestart_other del: tryRestart.simps(2))
      from steady_trans [OF steady_note_restart [OF neq] S [OF this]] show ?thesis .
    qed
  qed (use assms(2) False in \<open>auto simp: tryRestart_other simp del: tryRestart.simps(2)\<close>)
qed

lemma steady_all:
  "(\<forall>p r. Start env n p = Some r \<longrightarrow> steady p (fst r)) \<and>
   (\<forall>msgs p r. Invoke env n msgs p = Some r \<longrightarrow> steady p (fst r)) \<and>
   (\<forall>v p r. tryRestart env n v p = Some r \<longrightarrow> steady p (fst r))"
proof (induction n)
  case (Suc n)
  then have S: "\<And>p r. Start env n p = Some r \<Longrightarrow> steady p (fst r)"
    and I: "\<And>msgs p r. Invoke env n msgs p = Some r \<Longrightarrow> steady p (fst r)"
    and T: "\<And>v p r. tryRestart env n v p = Some r \<Longrightarrow> steady p (fst r)" by blast+
  show ?case
    by (intro conjI allI impI)
      ((rule steady_Start, erule I, erule T, assumption), (rule steady_Invoke, erule T, assumption),
        (rule steady_tryRestart, erule S, assumption))
qed simp

lemmas steady_run = steady_all [THEN conjunct1, rule_format] steady_all [THEN conjunct2, THEN conjunct1, rule_format]
  steady_all [THEN conjunct2, THEN conjunct2, rule_format]

end
