(* ===== verification/Deque.thy ===== *)
theory Deque
  imports Prelude
begin

text \<open>
  The contract of a double-ended mailbox queue, as a locale: what the inbox relies on when
  it calls a queue, stated over an abstraction to lists. The client lemma, that any
  sequence of calls behaves as it does on lists, is proved once here.
\<close>

datatype 'a dq_op = OpPush 'a | OpPushFront 'a | OpPop | OpPopN int | OpClear

datatype 'a dq_out = OutNone | OutPop "'a option" | OutPopN "'a list option"

text \<open>The specification on lists.\<close>

fun dq_spec :: "'a dq_op \<Rightarrow> 'a list \<Rightarrow> 'a dq_out \<times> 'a list" where
  "dq_spec (OpPush x) xs = (OutNone, xs @ [x])"
| "dq_spec (OpPushFront x) xs = (OutNone, x # xs)"
| "dq_spec OpPop [] = (OutPop None, [])"
| "dq_spec OpPop (x # xs) = (OutPop (Some x), xs)"
| "dq_spec (OpPopN n) xs =
     (if xs = [] then (OutPopN None, []) else (OutPopN (Some (take (nat n) xs)), drop (nat n) xs))"
| "dq_spec OpClear xs = (OutNone, [])"

fun dq_spec_run :: "'a dq_op list \<Rightarrow> 'a list \<Rightarrow> 'a dq_out list \<times> 'a list" where
  "dq_spec_run [] xs = ([], xs)"
| "dq_spec_run (op # ops) xs =
     (let (out, xs1) = dq_spec op xs; (outs, xs2) = dq_spec_run ops xs1 in (out # outs, xs2))"

text \<open>A negative batch size is the one argument the queue rejects.\<close>

fun dq_op_ok :: "'a dq_op \<Rightarrow> bool" where
  "dq_op_ok (OpPopN n) = (0 \<le> n)"
| "dq_op_ok _ = True"

text \<open>Calling an implementation, one operation or a sequence of them.\<close>

fun dq_call :: "('q \<Rightarrow> 'a \<Rightarrow> 'q go) \<Rightarrow> ('q \<Rightarrow> 'a \<Rightarrow> 'q go) \<Rightarrow> ('q \<Rightarrow> (('a \<times> bool) \<times> 'q) go) \<Rightarrow>
    ('q \<Rightarrow> int \<Rightarrow> ('a list option \<times> 'q) go) \<Rightarrow> ('q \<Rightarrow> 'q) \<Rightarrow> 'a dq_op \<Rightarrow> 'q \<Rightarrow> ('a dq_out \<times> 'q) go" where
  "dq_call push pushf pop popn clr (OpPush x) q = go_bind (push q x) (\<lambda>q'. Inr (OutNone, q'))"
| "dq_call push pushf pop popn clr (OpPushFront x) q = go_bind (pushf q x) (\<lambda>q'. Inr (OutNone, q'))"
| "dq_call push pushf pop popn clr OpPop q =
     go_bind (pop q) (\<lambda>((x, ok), q'). Inr (OutPop (if ok then Some x else None), q'))"
| "dq_call push pushf pop popn clr (OpPopN n) q = go_bind (popn q n) (\<lambda>(r, q'). Inr (OutPopN r, q'))"
| "dq_call push pushf pop popn clr OpClear q = Inr (OutNone, clr q)"

fun dq_run :: "('a dq_op \<Rightarrow> 'q \<Rightarrow> ('a dq_out \<times> 'q) go) \<Rightarrow> 'a dq_op list \<Rightarrow> 'q \<Rightarrow> ('a dq_out list \<times> 'q) go" where
  "dq_run call [] q = Inr ([], q)"
| "dq_run call (op # ops) q =
     go_bind (call op q) (\<lambda>(out, q1). go_bind (dq_run call ops q1) (\<lambda>(outs, q2). Inr (out # outs, q2)))"

locale deque =
  fixes invar :: "'q \<Rightarrow> bool"
    and elems :: "'q \<Rightarrow> 'a list"
    and push :: "'q \<Rightarrow> 'a \<Rightarrow> 'q go"
    and push_front :: "'q \<Rightarrow> 'a \<Rightarrow> 'q go"
    and pop :: "'q \<Rightarrow> (('a \<times> bool) \<times> 'q) go"
    and pop_n :: "'q \<Rightarrow> int \<Rightarrow> ('a list option \<times> 'q) go"
    and clear :: "'q \<Rightarrow> 'q"
    and len :: "'q \<Rightarrow> int"
  assumes push_law: "invar q \<Longrightarrow>
      \<exists>q'. push q x = Inr q' \<and> invar q' \<and> elems q' = elems q @ [x]"
    and push_front_law: "invar q \<Longrightarrow>
      \<exists>q'. push_front q x = Inr q' \<and> invar q' \<and> elems q' = x # elems q"
    and pop_law: "invar q \<Longrightarrow> elems q \<noteq> [] \<Longrightarrow>
      \<exists>q'. pop q = Inr ((hd (elems q), True), q') \<and> invar q' \<and> elems q' = tl (elems q)"
    and pop_empty_law: "invar q \<Longrightarrow> elems q = [] \<Longrightarrow> \<exists>x. pop q = Inr ((x, False), q)"
    and pop_n_law: "invar q \<Longrightarrow> elems q \<noteq> [] \<Longrightarrow> 0 \<le> n \<Longrightarrow>
      \<exists>q'. pop_n q n = Inr (Some (take (nat n) (elems q)), q') \<and> invar q' \<and>
           elems q' = drop (nat n) (elems q)"
    and pop_n_empty_law: "invar q \<Longrightarrow> elems q = [] \<Longrightarrow> pop_n q n = Inr (None, q)"
    and clear_law: "invar q \<Longrightarrow> invar (clear q) \<and> elems (clear q) = []"
    and len_law: "invar q \<Longrightarrow> len q = int (length (elems q))"
begin

lemma call_refines:
  assumes "invar q" "dq_op_ok op"
  shows "\<exists>q'. dq_call push push_front pop pop_n clear op q = Inr (fst (dq_spec op (elems q)), q') \<and>
           invar q' \<and> elems q' = snd (dq_spec op (elems q))"
proof (cases op)
  case (OpPush x)
  then show ?thesis using push_law[OF assms(1), of x] by auto
next
  case (OpPushFront x)
  then show ?thesis using push_front_law[OF assms(1), of x] by auto
next
  case OpPop
  then show ?thesis
    using pop_law[OF assms(1)] pop_empty_law[OF assms(1)] assms(1) by (cases "elems q") auto
next
  case (OpPopN n)
  then show ?thesis
    using pop_n_law[OF assms(1), of n] pop_n_empty_law[OF assms(1), of n] assms by auto
next
  case OpClear
  then show ?thesis using clear_law[OF assms(1)] by auto
qed

lemma run_refines:
  assumes "invar q" "list_all dq_op_ok ops"
  shows "\<exists>q'. dq_run (dq_call push push_front pop pop_n clear) ops q =
             Inr (fst (dq_spec_run ops (elems q)), q') \<and>
           invar q' \<and> elems q' = snd (dq_spec_run ops (elems q))"
  using assms
proof (induction ops arbitrary: q)
  case Nil
  then show ?case by simp
next
  case (Cons op ops)
  then obtain q1 where q1: "dq_call push push_front pop pop_n clear op q =
        Inr (fst (dq_spec op (elems q)), q1)" "invar q1" "elems q1 = snd (dq_spec op (elems q))"
    using call_refines[of q op] by auto
  with Cons.IH[of q1] Cons.prems obtain q2 where
    "dq_run (dq_call push push_front pop pop_n clear) ops q1 =
        Inr (fst (dq_spec_run ops (elems q1)), q2)"
    "invar q2" "elems q2 = snd (dq_spec_run ops (elems q1))"
    by auto
  with q1 show ?case by (simp add: case_prod_beta Let_def)
qed

end

end
