(* ===== verification/RingBuffer.thy ===== *)
theory RingBuffer
  imports Deque
begin

text \<open>
  The growable ring buffer of \<^verbatim>\<open>src/ringbuffer/ringbuffer.go\<close>, the mailbox of every
  actor.
\<close>

subsection \<open>State\<close>

record 'a buffer =
  b_items :: "'a list"
  b_head :: int
  b_tail :: int
  b_mod :: int

record 'a RingBuffer =
  rb_len :: int
  rb_content :: "'a buffer"

subsection \<open>Operations\<close>

definition New :: "'a \<Rightarrow> int \<Rightarrow> 'a RingBuffer go" where
  "New z sz = go_bind (go_make z sz) (\<lambda>items.
     Inr \<lparr>rb_len = 0, rb_content = \<lparr>b_items = items, b_head = 0, b_tail = 0, b_mod = sz\<rparr>\<rparr>)"

text \<open>The part of \<^verbatim>\<open>Push\<close> that doubles the storage when the new tail meets the head.\<close>

definition push_grow :: "'a \<Rightarrow> 'a buffer \<Rightarrow> 'a buffer go" where
  "push_grow z c =
     go_bind (go_make z (b_mod c * 2)) (\<lambda>newBuff.
     go_bind (go_for 0 (nat (b_mod c)) (\<lambda>i buf.
        go_bind (go_rem (b_tail c + i) (b_mod c)) (\<lambda>idx.
        go_bind (go_index (b_items c) idx) (\<lambda>x. go_store buf i x))) newBuff) (\<lambda>newBuff.
     Inr \<lparr>b_items = newBuff, b_head = 0, b_tail = b_mod c, b_mod = b_mod c * 2\<rparr>))"

definition Push :: "'a \<Rightarrow> 'a RingBuffer \<Rightarrow> 'a \<Rightarrow> 'a RingBuffer go" where
  "Push z rb item =
     go_bind (go_rem (b_tail (rb_content rb) + 1) (b_mod (rb_content rb))) (\<lambda>tail'.
     let c = (rb_content rb)\<lparr>b_tail := tail'\<rparr> in
     go_bind (if b_tail c = b_head c then push_grow z c else Inr c) (\<lambda>c.
     go_bind (go_store (b_items c) (b_tail c) item) (\<lambda>items.
     Inr \<lparr>rb_len = rb_len rb + 1, rb_content = c\<lparr>b_items := items\<rparr>\<rparr>)))"

definition Len :: "'a RingBuffer \<Rightarrow> int" where
  "Len rb = rb_len rb"

definition Pop :: "'a \<Rightarrow> 'a RingBuffer \<Rightarrow> (('a \<times> bool) \<times> 'a RingBuffer) go" where
  "Pop z rb =
     (if rb_len rb = 0 then Inr ((z, False), rb)
      else let c = rb_content rb in
        go_bind (go_rem (b_head c + 1) (b_mod c)) (\<lambda>head'.
        go_bind (go_index (b_items c) head') (\<lambda>item.
        go_bind (go_store (b_items c) head' z) (\<lambda>items.
        Inr ((item, True),
             \<lparr>rb_len = rb_len rb - 1, rb_content = c\<lparr>b_items := items, b_head := head'\<rparr>\<rparr>)))))"

text \<open>The part of \<^verbatim>\<open>PushFront\<close> that doubles the storage of a full buffer.\<close>

definition pushfront_grow :: "'a \<Rightarrow> 'a RingBuffer \<Rightarrow> 'a buffer go" where
  "pushfront_grow z rb =
     (let c = rb_content rb in
      go_bind (go_make z (b_mod c * 2)) (\<lambda>newBuff.
      go_bind (go_for 0 (nat (rb_len rb)) (\<lambda>i buf.
         go_bind (go_rem (b_head c + 1 + i) (b_mod c)) (\<lambda>idx.
         go_bind (go_index (b_items c) idx) (\<lambda>x. go_store buf (i + 1) x))) newBuff) (\<lambda>newBuff.
      Inr \<lparr>b_items = newBuff, b_head = 0, b_tail = rb_len rb, b_mod = b_mod c * 2\<rparr>)))"

definition PushFront :: "'a \<Rightarrow> 'a RingBuffer \<Rightarrow> 'a \<Rightarrow> 'a RingBuffer go" where
  "PushFront z rb item =
     go_bind (if rb_len rb \<ge> b_mod (rb_content rb) - 1 then pushfront_grow z rb
              else Inr (rb_content rb)) (\<lambda>c.
     go_bind (go_store (b_items c) (b_head c) item) (\<lambda>items.
     go_bind (go_rem (b_head c - 1 + b_mod c) (b_mod c)) (\<lambda>head'.
     Inr \<lparr>rb_len = rb_len rb + 1, rb_content = c\<lparr>b_items := items, b_head := head'\<rparr>\<rparr>)))"

text \<open>\<^verbatim>\<open>PopN\<close> returns \<open>None\<close> for the Go pair \<^verbatim>\<open>nil, false\<close>.\<close>

definition PopN :: "'a \<Rightarrow> 'a RingBuffer \<Rightarrow> int \<Rightarrow> ('a list option \<times> 'a RingBuffer) go" where
  "PopN z rb n =
     (if rb_len rb = 0 then Inr (None, rb)
      else let c = rb_content rb; n = (if n \<ge> rb_len rb then rb_len rb else n) in
        go_bind (go_make z n) (\<lambda>out.
        go_bind (go_for 0 (nat n) (\<lambda>i (out, items).
           go_bind (go_rem (b_head c + 1 + i) (b_mod c)) (\<lambda>pos.
           go_bind (go_index items pos) (\<lambda>x.
           go_bind (go_store out i x) (\<lambda>out.
           go_bind (go_store items pos z) (\<lambda>items.
           Inr (out, items)))))) (out, b_items c)) (\<lambda>(out, items).
        go_bind (go_rem (b_head c + n) (b_mod c)) (\<lambda>head'.
        Inr (Some out,
             \<lparr>rb_len = rb_len rb - n, rb_content = c\<lparr>b_items := items, b_head := head'\<rparr>\<rparr>)))))"

definition Clear :: "'a RingBuffer \<Rightarrow> 'a RingBuffer" where
  "Clear rb = \<lparr>rb_len = 0, rb_content = (rb_content rb)\<lparr>b_head := 0, b_tail := 0\<rparr>\<rparr>"


subsection \<open>Representation invariant and abstraction\<close>

text \<open>
  The slot at \<^verbatim>\<open>head\<close> is free; the elements are the \<^verbatim>\<open>len\<close> slots after it, and
  \<^verbatim>\<open>tail\<close> is the last of them.
\<close>

definition rb_slot :: "'a RingBuffer \<Rightarrow> nat \<Rightarrow> nat" where
  "rb_slot rb i = nat ((b_head (rb_content rb) + 1 + int i) mod b_mod (rb_content rb))"

definition rb_invar :: "'a RingBuffer \<Rightarrow> bool" where
  "rb_invar rb \<longleftrightarrow>
     0 < b_mod (rb_content rb) \<and>
     int (length (b_items (rb_content rb))) = b_mod (rb_content rb) \<and>
     0 \<le> b_head (rb_content rb) \<and> b_head (rb_content rb) < b_mod (rb_content rb) \<and>
     0 \<le> rb_len rb \<and> rb_len rb < b_mod (rb_content rb) \<and>
     b_tail (rb_content rb) = (b_head (rb_content rb) + rb_len rb) mod b_mod (rb_content rb)"

definition rb_list :: "'a RingBuffer \<Rightarrow> 'a list" where
  "rb_list rb = map (\<lambda>i. b_items (rb_content rb) ! rb_slot rb i) [0..<nat (rb_len rb)]"

lemma length_rb_list [simp]: "length (rb_list rb) = nat (rb_len rb)"
  by (simp add: rb_list_def)

lemma mod_add_inj:
  fixes a m :: int
  assumes "(a + i) mod m = (a + j) mod m" "0 \<le> i" "i < m" "0 \<le> j" "j < m"
  shows "i = j"
proof -
  from assms(1) have "m dvd (i - j)"
    by (simp add: mod_eq_dvd_iff)
  then have "\<not> (0 < i - j \<and> i - j < m)" "\<not> (0 < j - i \<and> j - i < m)"
    using zdvd_not_zless by (blast, metis dvd_minus_iff minus_diff_eq zdvd_not_zless)
  with assms(2-5) show ?thesis by linarith
qed

lemma rb_slot_less:
  "rb_invar rb \<Longrightarrow> rb_slot rb i < length (b_items (rb_content rb))"
  by (simp add: rb_slot_def rb_invar_def nat_less_iff)

text \<open>Two views of the same slots: reading off the list of elements by index.\<close>

lemma rb_list_nth:
  "i < nat (rb_len rb) \<Longrightarrow> rb_list rb ! i = b_items (rb_content rb) ! rb_slot rb i"
  by (simp add: rb_list_def)

lemma rb_slot_inj:
  assumes "rb_invar rb" "rb_slot rb i = rb_slot rb j"
    "int i < b_mod (rb_content rb)" "int j < b_mod (rb_content rb)"
  shows "i = j"
proof -
  from assms(1,2) have
    "(b_head (rb_content rb) + 1 + int i) mod b_mod (rb_content rb) =
     (b_head (rb_content rb) + 1 + int j) mod b_mod (rb_content rb)"
    by (simp add: rb_slot_def rb_invar_def eq_nat_nat_iff)
  then have "int i = int j"
    by (rule mod_add_inj) (use assms in auto)
  then show ?thesis by simp
qed

text \<open>The new tail of a push meets the head exactly when the buffer is full.\<close>

lemma rb_next_tail:
  assumes "rb_invar rb"
  shows "(b_tail (rb_content rb) + 1) mod b_mod (rb_content rb) =
         (b_head (rb_content rb) + 1 + rb_len rb) mod b_mod (rb_content rb)"
  using assms by (simp add: rb_invar_def mod_simps ac_simps)

lemma rb_tail_bounds:
  "rb_invar rb \<Longrightarrow> 0 \<le> b_tail (rb_content rb) \<and> b_tail (rb_content rb) < b_mod (rb_content rb)"
  by (simp add: rb_invar_def)

lemma rb_rem_tail:
  assumes "rb_invar rb"
  shows "go_rem (b_tail (rb_content rb) + 1) (b_mod (rb_content rb)) =
         Inr ((b_head (rb_content rb) + 1 + rb_len rb) mod b_mod (rb_content rb))"
proof -
  have "0 < b_mod (rb_content rb)" using assms by (simp add: rb_invar_def)
  then have "go_rem (b_tail (rb_content rb) + 1) (b_mod (rb_content rb)) =
      Inr ((b_tail (rb_content rb) + 1) mod b_mod (rb_content rb))"
    using rb_tail_bounds[OF assms] by (intro go_rem_ok) simp_all
  then show ?thesis by (simp only: rb_next_tail[OF assms])
qed

lemma rb_full_iff:
  assumes "rb_invar rb"
  shows "(b_head (rb_content rb) + 1 + rb_len rb) mod b_mod (rb_content rb) =
           b_head (rb_content rb) \<longleftrightarrow> rb_len rb = b_mod (rb_content rb) - 1"
proof
  let ?h = "b_head (rb_content rb)" and ?m = "b_mod (rb_content rb)"
  assume *: "(?h + 1 + rb_len rb) mod ?m = ?h"
  have "(?h + (1 + rb_len rb)) mod ?m = (?h + 0) mod ?m"
    using * assms by (simp add: rb_invar_def ac_simps)
  then have "?m dvd 1 + rb_len rb" by (simp add: mod_eq_dvd_iff)
  then have "?m \<le> 1 + rb_len rb"
    using assms by (intro zdvd_imp_le) (auto simp: rb_invar_def)
  then show "rb_len rb = ?m - 1" using assms by (auto simp: rb_invar_def)
next
  assume "rb_len rb = b_mod (rb_content rb) - 1"
  then show "(b_head (rb_content rb) + 1 + rb_len rb) mod b_mod (rb_content rb) =
             b_head (rb_content rb)"
    using assms by (simp add: rb_invar_def)
qed


subsection \<open>The two growth loops\<close>

lemma push_grow_ok:
  assumes "0 < b_mod c" "int (length (b_items c)) = b_mod c" "0 \<le> b_tail c"
  shows "\<exists>newb. push_grow z c =
           Inr \<lparr>b_items = newb, b_head = 0, b_tail = b_mod c, b_mod = b_mod c * 2\<rparr> \<and>
           int (length newb) = b_mod c * 2 \<and>
           (\<forall>j. int j < b_mod c \<longrightarrow> newb ! j = b_items c ! nat ((b_tail c + int j) mod b_mod c))"
proof -
  let ?P = "\<lambda>k buf. int (length buf) = b_mod c * 2 \<and>
              (\<forall>j<k. buf ! j = b_items c ! nat ((b_tail c + int j) mod b_mod c))"
  have "\<exists>s'. go_for 0 (nat (b_mod c)) (\<lambda>i buf.
          go_bind (go_rem (b_tail c + i) (b_mod c)) (\<lambda>idx.
          go_bind (go_index (b_items c) idx) (\<lambda>x. go_store buf i x)))
          (replicate (nat (b_mod c * 2)) z) = Inr s' \<and> ?P (0 + nat (b_mod c)) s'"
  proof (rule go_for_invariant)
    show "?P 0 (replicate (nat (b_mod c * 2)) z)" using assms by simp
  next
    fix k buf
    assume k: "0 \<le> k" "k < 0 + nat (b_mod c)" and P: "?P k buf"
    have len: "k < length buf" using k P assms by linarith
    then have "go_store buf (int k) x = Inr (buf[k := x])" for x
      by (simp add: go_simps)
    with k len P assms show "\<exists>s'. go_bind (go_rem (b_tail c + int k) (b_mod c)) (\<lambda>idx.
        go_bind (go_index (b_items c) idx) (\<lambda>x. go_store buf (int k) x)) = Inr s' \<and> ?P (Suc k) s'"
      by (simp add: go_simps nth_list_update less_Suc_eq)
  qed
  then show ?thesis using assms
    by (auto simp: push_grow_def go_simps)
qed

lemma pushfront_grow_ok:
  assumes "rb_invar rb"
  shows "\<exists>newb. pushfront_grow z rb =
           Inr \<lparr>b_items = newb, b_head = 0, b_tail = rb_len rb,
                b_mod = b_mod (rb_content rb) * 2\<rparr> \<and>
           int (length newb) = b_mod (rb_content rb) * 2 \<and>
           (\<forall>j < nat (rb_len rb). newb ! Suc j = rb_list rb ! j)"
proof -
  let ?c = "rb_content rb"
  let ?P = "\<lambda>k buf. int (length buf) = b_mod ?c * 2 \<and> (\<forall>j<k. buf ! Suc j = b_items ?c ! rb_slot rb j)"
  note inv = assms[unfolded rb_invar_def]
  have "\<exists>s'. go_for 0 (nat (rb_len rb)) (\<lambda>i buf.
          go_bind (go_rem (b_head ?c + 1 + i) (b_mod ?c)) (\<lambda>idx.
          go_bind (go_index (b_items ?c) idx) (\<lambda>x. go_store buf (i + 1) x)))
          (replicate (nat (b_mod ?c * 2)) z) = Inr s' \<and> ?P (0 + nat (rb_len rb)) s'"
  proof (rule go_for_invariant)
    show "?P 0 (replicate (nat (b_mod ?c * 2)) z)" using inv by simp
  next
    fix k buf
    assume k: "0 \<le> k" "k < 0 + nat (rb_len rb)" and P: "?P k buf"
    have len: "Suc k < length buf" using k P inv by linarith
    then have "go_store buf (int k + 1) x = Inr (buf[Suc k := x])" for x
      by (simp add: go_store_def nat_add_distrib)
    with k len P inv show "\<exists>s'. go_bind (go_rem (b_head ?c + 1 + int k) (b_mod ?c)) (\<lambda>idx.
        go_bind (go_index (b_items ?c) idx) (\<lambda>x. go_store buf (int k + 1) x)) = Inr s' \<and> ?P (Suc k) s'"
      by (simp add: go_simps nth_list_update less_Suc_eq rb_slot_def)
  qed
  then show ?thesis using inv
    by (auto simp: pushfront_grow_def go_simps Let_def rb_list_nth)
qed


subsection \<open>Each operation implements its list counterpart\<close>

lemma rb_listI:
  assumes "nat (rb_len rb) = length xs"
    and "\<And>i. i < length xs \<Longrightarrow> b_items (rb_content rb) ! rb_slot rb i = xs ! i"
  shows "rb_list rb = xs"
  using assms by (intro nth_equalityI) (simp_all add: rb_list_nth)

lemma New_ok:
  assumes "0 < sz"
  shows "\<exists>rb. New z sz = Inr rb \<and> rb_invar rb \<and> rb_list rb = []"
  using assms by (simp add: New_def go_simps rb_invar_def rb_list_def)

lemma Push_ok_room:
  assumes inv: "rb_invar rb" and room: "rb_len rb \<noteq> b_mod (rb_content rb) - 1"
  shows "\<exists>rb'. Push z rb x = Inr rb' \<and> rb_invar rb' \<and> rb_list rb' = rb_list rb @ [x]"
proof -
  let ?c = "rb_content rb"
  let ?t = "(b_head ?c + 1 + rb_len rb) mod b_mod ?c"
  let ?rb = "\<lparr>rb_len = rb_len rb + 1,
    rb_content = ?c\<lparr>b_tail := ?t, b_items := (b_items ?c)[nat ?t := x]\<rparr>\<rparr>"
  note i = inv[unfolded rb_invar_def]
  have t: "go_rem (b_tail ?c + 1) (b_mod ?c) = Inr ?t" by (rule rb_rem_tail[OF inv])
  have t0: "0 \<le> ?t" "?t < int (length (b_items ?c))" using i by simp_all
  have "Push z rb x = Inr ?rb"
    using rb_full_iff[OF inv] room t t0 by (simp add: Push_def go_simps Let_def)
  moreover have "rb_invar ?rb" using i room by (auto simp: rb_invar_def algebra_simps)
  moreover have slot: "rb_slot ?rb = rb_slot rb" by (simp add: rb_slot_def fun_eq_iff)
  moreover have tslot: "nat ?t = rb_slot rb (nat (rb_len rb))" using i by (simp add: rb_slot_def)
  moreover have "rb_list ?rb = rb_list rb @ [x]"
  proof (rule rb_listI)
    show "nat (rb_len ?rb) = length (rb_list rb @ [x])"
      using i by (simp add: nat_add_distrib)
  next
    fix k assume "k < length (rb_list rb @ [x])"
    then consider "k < nat (rb_len rb)" | "k = nat (rb_len rb)"
      by (auto simp: less_Suc_eq)
    then show "b_items (rb_content ?rb) ! rb_slot ?rb k = (rb_list rb @ [x]) ! k"
    proof cases
      case 1
      have "rb_slot rb k \<noteq> rb_slot rb (nat (rb_len rb))"
        using rb_slot_inj[OF inv, of k "nat (rb_len rb)"] 1 i by auto
      with 1 show ?thesis unfolding slot using tslot by (simp add: nth_append rb_list_nth)
    next
      case 2
      then show ?thesis unfolding slot using tslot rb_slot_less[OF inv, of k]
        by (simp add: nth_append)
    qed
  qed
  ultimately show ?thesis by blast
qed

lemma Push_ok_full:
  assumes inv: "rb_invar rb" and full: "rb_len rb = b_mod (rb_content rb) - 1"
  shows "\<exists>rb'. Push z rb x = Inr rb' \<and> rb_invar rb' \<and> rb_list rb' = rb_list rb @ [x]"
proof -
  let ?c = "rb_content rb"
  note i = inv[unfolded rb_invar_def]
  have t: "go_rem (b_tail ?c + 1) (b_mod ?c) = Inr (b_head ?c)"
    using rb_rem_tail[OF inv] rb_full_iff[OF inv] full by simp
  obtain newb where grow: "push_grow z (?c\<lparr>b_tail := b_head ?c\<rparr>) =
      Inr \<lparr>b_items = newb, b_head = 0, b_tail = b_mod ?c, b_mod = b_mod ?c * 2\<rparr>"
    and len: "int (length newb) = b_mod ?c * 2"
    and newb: "\<And>j. int j < b_mod ?c \<Longrightarrow> newb ! j = b_items ?c ! nat ((b_head ?c + int j) mod b_mod ?c)"
    using push_grow_ok[of "?c\<lparr>b_tail := b_head ?c\<rparr>" z] i by auto
  let ?rb = "\<lparr>rb_len = rb_len rb + 1,
    rb_content = \<lparr>b_items = newb[nat (b_mod ?c) := x], b_head = 0, b_tail = b_mod ?c,
                  b_mod = b_mod ?c * 2\<rparr>\<rparr>"
  have "Push z rb x = Inr ?rb"
    using t grow len i by (simp add: Push_def go_simps Let_def)
  moreover have "rb_invar ?rb" using i full len by (simp add: rb_invar_def)
  moreover have slot: "rb_slot ?rb k = Suc k" if "int k < b_mod ?c" for k
    using that by (simp add: rb_slot_def nat_add_distrib mod_pos_pos_trivial)
  moreover have "rb_list ?rb = rb_list rb @ [x]"
  proof (rule rb_listI)
    show "nat (rb_len ?rb) = length (rb_list rb @ [x])"
      using i by (simp add: nat_add_distrib)
  next
    fix k assume k: "k < length (rb_list rb @ [x])"
    then have km: "int k < b_mod ?c" using full i by (simp add: less_Suc_eq) linarith
    show "b_items (rb_content ?rb) ! rb_slot ?rb k = (rb_list rb @ [x]) ! k"
    proof (cases "k < nat (rb_len rb)")
      case True
      then have "newb ! Suc k = rb_list rb ! k"
        using newb[of "Suc k"] full i by (simp add: rb_list_nth rb_slot_def ac_simps)
      then show ?thesis unfolding slot[OF km] using True full i by (simp add: nth_append)
    next
      case False
      then have "Suc k = nat (b_mod ?c)" using k full i by simp linarith
      then show ?thesis unfolding slot[OF km] using False k full i len by (simp add: nth_append)
    qed
  qed
  ultimately show ?thesis by blast
qed

lemma Push_ok:
  "rb_invar rb \<Longrightarrow>
   \<exists>rb'. Push z rb x = Inr rb' \<and> rb_invar rb' \<and> rb_list rb' = rb_list rb @ [x]"
  by (cases "rb_len rb = b_mod (rb_content rb) - 1") (simp_all add: Push_ok_room Push_ok_full)


lemma rb_slot_advance:
  assumes "rb_invar rb" "0 \<le> n"
    and "b_head (rb_content rb') = (b_head (rb_content rb) + n) mod b_mod (rb_content rb)"
    and "b_mod (rb_content rb') = b_mod (rb_content rb)"
  shows "rb_slot rb' i = rb_slot rb (i + nat n)"
proof -
  have "((b_head (rb_content rb) + n) mod b_mod (rb_content rb) + (1 + int i)) mod b_mod (rb_content rb)
        = (b_head (rb_content rb) + n + (1 + int i)) mod b_mod (rb_content rb)"
    by (rule mod_add_left_eq)
  then show ?thesis using assms by (simp add: rb_slot_def algebra_simps)
qed

lemma Pop_empty: "rb_len rb = 0 \<Longrightarrow> Pop z rb = Inr ((z, False), rb)"
  by (simp add: Pop_def)

lemma Pop_ok:
  assumes inv: "rb_invar rb" and ne: "rb_len rb \<noteq> 0"
  shows "\<exists>rb'. Pop z rb = Inr ((hd (rb_list rb), True), rb') \<and> rb_invar rb' \<and>
           rb_list rb' = tl (rb_list rb)"
proof -
  let ?c = "rb_content rb"
  let ?h = "(b_head ?c + 1) mod b_mod ?c"
  let ?rb = "\<lparr>rb_len = rb_len rb - 1,
    rb_content = ?c\<lparr>b_items := (b_items ?c)[nat ?h := z], b_head := ?h\<rparr>\<rparr>"
  note i = inv[unfolded rb_invar_def]
  have h0: "nat ?h = rb_slot rb 0" by (simp add: rb_slot_def)
  have hd: "hd (rb_list rb) = b_items ?c ! nat ?h"
    using ne i h0 by (simp add: hd_conv_nth rb_list_nth flip: length_greater_0_conv)
  have "Pop z rb = Inr ((hd (rb_list rb), True), ?rb)"
    using ne i hd by (simp add: Pop_def go_simps Let_def)
  moreover have "rb_invar ?rb" using i ne by (simp add: rb_invar_def mod_simps)
  moreover have "rb_list ?rb = tl (rb_list rb)"
  proof (rule rb_listI)
    show "nat (rb_len ?rb) = length (tl (rb_list rb))" using i by simp
  next
    fix k assume k: "k < length (tl (rb_list rb))"
    have slot: "rb_slot ?rb k = rb_slot rb (Suc k)"
      using rb_slot_advance[OF inv, of 1 ?rb k] by simp
    have "int (Suc k) < b_mod ?c" using k i by simp linarith
    then have "rb_slot rb 0 \<noteq> rb_slot rb (Suc k)"
      using rb_slot_inj[OF inv, of 0 "Suc k"] i by auto
    then show "b_items (rb_content ?rb) ! rb_slot ?rb k = tl (rb_list rb) ! k"
      unfolding slot using k h0 by (simp add: nth_tl rb_list_nth)
  qed
  ultimately show ?thesis by blast
qed

lemma PushFront_store_ok:
  assumes inv: "rb_invar rb" and room: "rb_len rb < b_mod (rb_content rb) - 1"
  shows "\<exists>rb'. go_bind (go_store (b_items (rb_content rb)) (b_head (rb_content rb)) x) (\<lambda>items.
       go_bind (go_rem (b_head (rb_content rb) - 1 + b_mod (rb_content rb)) (b_mod (rb_content rb))) (\<lambda>head'.
       Inr \<lparr>rb_len = rb_len rb + 1,
            rb_content = (rb_content rb)\<lparr>b_items := items, b_head := head'\<rparr>\<rparr>)) = Inr rb' \<and>
     rb_invar rb' \<and> rb_list rb' = x # rb_list rb"
proof -
  let ?c = "rb_content rb"
  let ?h = "(b_head ?c - 1 + b_mod ?c) mod b_mod ?c"
  let ?rb = "\<lparr>rb_len = rb_len rb + 1,
    rb_content = ?c\<lparr>b_items := (b_items ?c)[nat (b_head ?c) := x], b_head := ?h\<rparr>\<rparr>"
  note i = inv[unfolded rb_invar_def]
  have adv: "(?h + (1 + k)) mod b_mod ?c = (b_head ?c + k) mod b_mod ?c" for k
  proof -
    have "(?h + (1 + k)) mod b_mod ?c = (b_head ?c - 1 + b_mod ?c + (1 + k)) mod b_mod ?c"
      by (rule mod_add_left_eq)
    also have "\<dots> = (b_head ?c + k + b_mod ?c) mod b_mod ?c" by (simp add: algebra_simps)
    finally show ?thesis by simp
  qed
  have slot0: "rb_slot ?rb 0 = nat (b_head ?c)"
    using adv[of 0] i by (simp add: rb_slot_def)
  have slotS: "rb_slot ?rb (Suc k) = rb_slot rb k" for k
    using adv[of "1 + int k"] by (simp add: rb_slot_def algebra_simps)
  have "rb_invar ?rb" using i room adv[of "rb_len rb"] by (simp add: rb_invar_def algebra_simps)
  moreover have "rb_list ?rb = x # rb_list rb"
  proof (rule rb_listI)
    show "nat (rb_len ?rb) = length (x # rb_list rb)" using i by (simp add: nat_add_distrib)
  next
    fix k assume k: "k < length (x # rb_list rb)"
    show "b_items (rb_content ?rb) ! rb_slot ?rb k = (x # rb_list rb) ! k"
    proof (cases k)
      case 0
      have "nat (b_head ?c) < length (b_items ?c)" using i by linarith
      then show ?thesis using 0 slot0 by simp
    next
      case (Suc j)
      have "1 + int j < b_mod ?c" using room k Suc by simp
      then have "int (rb_slot rb j) \<noteq> b_head ?c"
        using mod_add_inj[of "b_head ?c" "1 + int j" "b_mod ?c" 0] i room k Suc
        by (auto simp: rb_slot_def algebra_simps)
      then have "rb_slot rb j \<noteq> nat (b_head ?c)" using i by auto
      then show ?thesis using Suc k slotS by (simp add: rb_list_nth)
    qed
  qed
  ultimately show ?thesis using i by (simp add: go_simps)
qed

lemma PushFront_ok:
  assumes inv: "rb_invar rb"
  shows "\<exists>rb'. PushFront z rb x = Inr rb' \<and> rb_invar rb' \<and> rb_list rb' = x # rb_list rb"
proof (cases "rb_len rb \<ge> b_mod (rb_content rb) - 1")
  case False
  then show ?thesis using PushFront_store_ok[OF inv, of x] by (simp add: PushFront_def)
next
  case True
  let ?c = "rb_content rb"
  note i = inv[unfolded rb_invar_def]
  obtain newb where grow: "pushfront_grow z rb =
      Inr \<lparr>b_items = newb, b_head = 0, b_tail = rb_len rb, b_mod = b_mod ?c * 2\<rparr>"
    and len: "int (length newb) = b_mod ?c * 2"
    and newb: "\<And>j. j < nat (rb_len rb) \<Longrightarrow> newb ! Suc j = rb_list rb ! j"
    using pushfront_grow_ok[OF inv, of z] by auto
  let ?g = "\<lparr>b_items = newb, b_head = 0, b_tail = rb_len rb, b_mod = b_mod ?c * 2\<rparr>"
  let ?rb = "\<lparr>rb_len = rb_len rb, rb_content = ?g\<rparr>"
  have g: "rb_invar ?rb" using i len by (simp add: rb_invar_def)
  have "rb_slot ?rb j = Suc j" if "j < nat (rb_len rb)" for j
  proof -
    have "1 + int j < b_mod ?c * 2" using that i by linarith
    then show ?thesis by (simp add: rb_slot_def nat_add_distrib)
  qed
  then have "rb_list ?rb = rb_list rb"
    using newb by (intro rb_listI) simp_all
  with PushFront_store_ok[OF g, of x] grow True i show ?thesis
    by (simp add: PushFront_def)
qed

lemma Clear_ok: "rb_invar rb \<Longrightarrow> rb_invar (Clear rb) \<and> rb_list (Clear rb) = []"
  by (simp add: rb_invar_def Clear_def rb_list_def)

lemma Len_ok: "rb_invar rb \<Longrightarrow> Len rb = int (length (rb_list rb))"
  by (simp add: rb_invar_def Len_def)


lemma PopN_loop:
  assumes inv: "rb_invar rb" and N: "0 \<le> N" "N \<le> rb_len rb"
  shows "\<exists>items. go_for 0 (nat N) (\<lambda>i (out, items).
           go_bind (go_rem (b_head (rb_content rb) + 1 + i) (b_mod (rb_content rb))) (\<lambda>pos.
           go_bind (go_index items pos) (\<lambda>x.
           go_bind (go_store out i x) (\<lambda>out.
           go_bind (go_store items pos z) (\<lambda>items.
           Inr (out, items)))))) (replicate (nat N) z, b_items (rb_content rb)) =
         Inr (take (nat N) (rb_list rb), items) \<and>
         length items = length (b_items (rb_content rb)) \<and>
         (\<forall>j. nat N \<le> j \<longrightarrow> int j < rb_len rb \<longrightarrow> items ! rb_slot rb j = rb_list rb ! j)"
    (is "\<exists>items. ?for = _ \<and> _")
proof -
  let ?c = "rb_content rb"
  let ?P = "\<lambda>k (out, items). length out = nat N \<and> (\<forall>j<k. out ! j = rb_list rb ! j) \<and>
     length items = length (b_items ?c) \<and>
     (\<forall>j. k \<le> j \<longrightarrow> int j < rb_len rb \<longrightarrow> items ! rb_slot rb j = rb_list rb ! j)"
  note i = inv[unfolded rb_invar_def]
  have "\<exists>s'. ?for = Inr s' \<and> ?P (0 + nat N) s'"
  proof (rule go_for_invariant)
    show "?P 0 (replicate (nat N) z, b_items ?c)" by (simp add: rb_list_nth zless_nat_eq_int_zless)
  next
    fix k s
    assume k: "0 \<le> k" "k < 0 + nat N" and Ps: "?P k s"
    obtain out items where s: "s = (out, items)" by fastforce
    have P: "length out = nat N" "\<forall>j<k. out ! j = rb_list rb ! j"
      "length items = length (b_items ?c)"
      "\<forall>j. k \<le> j \<longrightarrow> int j < rb_len rb \<longrightarrow> items ! rb_slot rb j = rb_list rb ! j"
      using Ps s by auto
    have kl: "int k < rb_len rb" using k N by linarith
    have rem: "go_rem (b_head ?c + 1 + int k) (b_mod ?c) = Inr (int (rb_slot rb k))"
      using i by (simp add: go_simps rb_slot_def)
    have "rb_slot rb k \<noteq> rb_slot rb j" if "Suc k \<le> j" "int j < rb_len rb" for j
      using rb_slot_inj[OF inv, of j k] that kl i by auto
    then show "\<exists>s'. (case s of (out, items) \<Rightarrow>
        go_bind (go_rem (b_head ?c + 1 + int k) (b_mod ?c)) (\<lambda>pos.
        go_bind (go_index items pos) (\<lambda>x.
        go_bind (go_store out (int k) x) (\<lambda>out.
        go_bind (go_store items pos z) (\<lambda>items. Inr (out, items)))))) = Inr s' \<and> ?P (Suc k) s'"
      using P k kl rb_slot_less[OF inv, of k]
      by (auto simp: s rem go_index_def go_store_def nth_list_update less_Suc_eq)
  qed
  then obtain out items where out: "?for = Inr (out, items)" "length out = nat N"
      "\<forall>j<nat N. out ! j = rb_list rb ! j" "length items = length (b_items ?c)"
      "\<forall>j. nat N \<le> j \<longrightarrow> int j < rb_len rb \<longrightarrow> items ! rb_slot rb j = rb_list rb ! j"
    by auto
  have "out = take (nat N) (rb_list rb)"
    using out(2,3) N by (intro nth_equalityI) (auto simp: nat_le_eq_zle)
  with out show ?thesis by auto
qed

lemma PopN_empty: "rb_len rb = 0 \<Longrightarrow> PopN z rb n = Inr (None, rb)"
  by (simp add: PopN_def)

lemma PopN_ok:
  assumes inv: "rb_invar rb" and ne: "rb_len rb \<noteq> 0" and n: "0 \<le> n"
  shows "\<exists>rb'. PopN z rb n = Inr (Some (take (nat n) (rb_list rb)), rb') \<and> rb_invar rb' \<and>
           rb_list rb' = drop (nat n) (rb_list rb)"
proof -
  let ?c = "rb_content rb"
  define N where "N = (if n \<ge> rb_len rb then rb_len rb else n)"
  note i = inv[unfolded rb_invar_def]
  have N: "0 \<le> N" "N \<le> rb_len rb" using i n by (simp_all add: N_def)
  have tk: "take (nat n) (rb_list rb) = take (nat N) (rb_list rb)"
    "drop (nat n) (rb_list rb) = drop (nat N) (rb_list rb)"
    by (auto simp: N_def)
  from PopN_loop[OF inv N, of z] obtain items where
    loop: "go_for 0 (nat N) (\<lambda>i (out, items).
           go_bind (go_rem (b_head ?c + 1 + i) (b_mod ?c)) (\<lambda>pos.
           go_bind (go_index items pos) (\<lambda>x.
           go_bind (go_store out i x) (\<lambda>out.
           go_bind (go_store items pos z) (\<lambda>items.
           Inr (out, items)))))) (replicate (nat N) z, b_items ?c) =
         Inr (take (nat N) (rb_list rb), items)"
    and len: "length items = length (b_items ?c)"
    and rest: "\<And>j. nat N \<le> j \<Longrightarrow> int j < rb_len rb \<Longrightarrow> items ! rb_slot rb j = rb_list rb ! j"
    by auto
  let ?h = "(b_head ?c + N) mod b_mod ?c"
  let ?rb = "\<lparr>rb_len = rb_len rb - N, rb_content = ?c\<lparr>b_items := items, b_head := ?h\<rparr>\<rparr>"
  have "PopN z rb n = Inr (Some (take (nat N) (rb_list rb)), ?rb)"
    using ne N i loop by (simp add: PopN_def Let_def go_simps flip: N_def)
  moreover have "rb_invar ?rb" using i N ne len by (simp add: rb_invar_def mod_simps)
  moreover have "rb_list ?rb = drop (nat N) (rb_list rb)"
  proof (rule rb_listI)
    show "nat (rb_len ?rb) = length (drop (nat N) (rb_list rb))" using N by (simp add: nat_diff_distrib)
  next
    fix k assume "k < length (drop (nat N) (rb_list rb))"
    then have k: "nat N + k < nat (rb_len rb)" by simp
    have slot: "rb_slot ?rb k = rb_slot rb (nat N + k)"
      using rb_slot_advance[OF inv N(1), of ?rb k] by (simp add: add.commute)
    show "b_items (rb_content ?rb) ! rb_slot ?rb k = drop (nat N) (rb_list rb) ! k"
      unfolding slot using rest[of "nat N + k"] k N by (simp add: zless_nat_eq_int_zless)
  qed
  ultimately show ?thesis unfolding tk by blast
qed


subsection \<open>The ring buffer is a mailbox queue\<close>

interpretation ring: deque rb_invar rb_list "Push z" "PushFront z" "Pop z" "PopN z" Clear Len
  for z :: 'a
proof unfold_locales
  fix rb :: "'a RingBuffer" and x :: 'a
  assume inv: "rb_invar rb"
  have empty: "rb_list rb = [] \<longleftrightarrow> rb_len rb = 0"
    using inv by (auto simp: rb_invar_def simp flip: length_0_conv)
  show "\<exists>q'. Push z rb x = Inr q' \<and> rb_invar q' \<and> rb_list q' = rb_list rb @ [x]"
    by (rule Push_ok[OF inv])
  show "\<exists>q'. PushFront z rb x = Inr q' \<and> rb_invar q' \<and> rb_list q' = x # rb_list rb"
    by (rule PushFront_ok[OF inv])
  show "rb_invar (Clear rb) \<and> rb_list (Clear rb) = []" by (rule Clear_ok[OF inv])
  show "Len rb = int (length (rb_list rb))" by (rule Len_ok[OF inv])
  show "\<exists>q'. Pop z rb = Inr ((hd (rb_list rb), True), q') \<and> rb_invar q' \<and> rb_list q' = tl (rb_list rb)"
    if "rb_list rb \<noteq> []" using that empty by (simp add: Pop_ok[OF inv])
  show "\<exists>x. Pop z rb = Inr ((x, False), rb)" if "rb_list rb = []"
    using that empty by (simp add: Pop_empty)
  show "\<exists>q'. PopN z rb n = Inr (Some (take (nat n) (rb_list rb)), q') \<and> rb_invar q' \<and>
           rb_list q' = drop (nat n) (rb_list rb)"
    if "rb_list rb \<noteq> []" "0 \<le> n" for n using that empty by (simp add: PopN_ok[OF inv])
  show "PopN z rb n = Inr (None, rb)" if "rb_list rb = []" for n
    using that empty by (simp add: PopN_empty)
qed


subsection \<open>Properties\<close>

text \<open>C1: a ring buffer created with a positive size never panics, and on every sequence of
  calls of Push, PushFront, Pop, PopN (with a non-negative batch size) and Clear it returns
  exactly what an unbounded list would return, growing as needed.\<close>

theorem ring_refines_list:
  assumes "0 < sz" "list_all dq_op_ok ops"
  shows "\<exists>rb rb'. New z sz = Inr rb \<and>
     dq_run (dq_call (Push z) (PushFront z) (Pop z) (PopN z) Clear) ops rb =
       Inr (fst (dq_spec_run ops []), rb') \<and>
     rb_list rb' = snd (dq_spec_run ops []) \<and> Len rb' = int (length (rb_list rb'))"
proof -
  obtain rb where rb: "New z sz = Inr rb" "rb_invar rb" "rb_list rb = []"
    using New_ok[OF assms(1), of z] by auto
  from ring.run_refines[OF rb(2) assms(2), of z] obtain rb' where
    "dq_run (dq_call (Push z) (PushFront z) (Pop z) (PopN z) Clear) ops rb =
       Inr (fst (dq_spec_run ops []), rb')"
    "rb_invar rb'" "rb_list rb' = snd (dq_spec_run ops [])"
    unfolding rb(3) by auto
  with rb(1) Len_ok[of rb'] show ?thesis by (auto simp del: length_rb_list)
qed

theorem ring_refines_list_witness:
  "\<exists>rb rb'. New (0::nat) 1 = Inr rb \<and>
     dq_run (dq_call (Push 0) (PushFront 0) (Pop 0) (PopN 0) Clear)
       [OpPush 7, OpPush 8, OpPushFront 6, OpPopN 2, OpPop, OpPop] rb =
       Inr ([OutNone, OutNone, OutNone, OutPopN (Some [6, 7]), OutPop (Some 8), OutPop None], rb') \<and>
     rb_list rb' = []"
  using ring_refines_list[of 1 "[OpPush 7, OpPush 8, OpPushFront 6, OpPopN 2, OpPop, OpPop]" "0::nat"]
  by (auto simp: numeral_eq_Suc)

lemma push_grow_mod: "push_grow z c = Inr c' \<Longrightarrow> b_mod c' = b_mod c * 2"
  by (auto simp: push_grow_def go_bind_eq_Inr)

lemma pushfront_grow_mod: "pushfront_grow z rb = Inr c' \<Longrightarrow> b_mod c' = b_mod (rb_content rb) * 2"
  by (auto simp: pushfront_grow_def go_bind_eq_Inr Let_def)

text \<open>Push and PushFront double the capacity when and only when the buffer is full (all
  slots but the free one in use), and keep it otherwise, so a buffer that never holds more
  than \<open>n\<close> messages never outgrows twice \<open>n + 1\<close> slots or its initial size.\<close>

theorem ring_growth:
  assumes "rb_invar rb" "Push z rb x = Inr rb1" "PushFront z rb x = Inr rb2"
  shows "b_mod (rb_content rb1) =
           (if rb_len rb = b_mod (rb_content rb) - 1 then 2 * (rb_len rb + 1)
            else b_mod (rb_content rb)) \<and>
         b_mod (rb_content rb2) = b_mod (rb_content rb1)"
proof -
  have "b_mod (rb_content rb1) = (if rb_len rb = b_mod (rb_content rb) - 1 then 2 * b_mod (rb_content rb)
            else b_mod (rb_content rb))"
    using assms(2) rb_full_iff[OF assms(1)] unfolding Push_def rb_rem_tail[OF assms(1)]
    by (auto simp: Let_def go_bind_eq_Inr dest!: push_grow_mod split: if_splits)
  moreover have "b_mod (rb_content rb2) = (if rb_len rb \<ge> b_mod (rb_content rb) - 1 then 2 * b_mod (rb_content rb)
            else b_mod (rb_content rb))"
    using assms(3) unfolding PushFront_def
    by (auto simp: go_bind_eq_Inr dest!: pushfront_grow_mod split: if_splits)
  ultimately show ?thesis using assms(1) by (auto simp: rb_invar_def)
qed

theorem ring_growth_witness:
  "\<exists>rb rb1 rb2. New (0::nat) 1 = Inr rb \<and> Push 0 rb 5 = Inr rb1 \<and> PushFront 0 rb 5 = Inr rb2 \<and>
     b_mod (rb_content rb1) = 2 \<and> b_mod (rb_content rb2) = 2"
proof -
  obtain rb where rb: "New (0::nat) 1 = Inr rb" "rb_invar rb" using New_ok[of 1 "0::nat"] by auto
  obtain rb1 rb2 where ops: "Push 0 rb 5 = Inr rb1" "PushFront 0 rb 5 = Inr rb2"
    using Push_ok[OF rb(2)] PushFront_ok[OF rb(2)] by metis
  from ring_growth[OF rb(2) ops] rb ops show ?thesis
    by (auto simp: New_def go_make_def)
qed

text \<open>a ring buffer of size 0 accepts no message: the first Push divides by zero and
  the first PushFront indexes an empty slice.\<close>

theorem ring_zero_size_panics:
  "\<exists>rb. New z 0 = Inr rb \<and> Push z rb x = Inl DivideByZero \<and>
        PushFront z rb x = Inl IndexOutOfRange"
  by (simp add: New_def Push_def PushFront_def pushfront_grow_def go_make_def go_rem_def
        go_store_def Let_def)

declare length_rb_list [simp del]

end
