(* ===== verification/Inbox.thy ===== *)
theory Inbox
  imports RingBuffer "HOL-Library.Multiset"
begin

text \<open>
  The inbox of an actor (\<^verbatim>\<open>src/actor/inbox.go\<close>): a ring buffer and an atomic status word
  that decides when a goroutine runs the actor. Every atomic operation of the code (a locked
  ring-buffer call, a compare-and-swap, a load, a store) is one step; any number of
  goroutines interleave. The program counter of a goroutine says which operation it performs
  next. The counter that makes \<^verbatim>\<open>run\<close> call \<^verbatim>\<open>runtime.Gosched\<close> now and then is left out: a goroutine
  may be overtaken at every step here.
\<close>

subsection \<open>State\<close>

text \<open>The four values of \<^verbatim>\<open>procStatus\<close>, in the order of the constants.\<close>

datatype status = StStopped | StStarting | StIdle | StRunning

definition defaultThroughput :: nat where
  "defaultThroughput = 300"

definition messageBatchSize :: int where
  "messageBatchSize = 1024 * 4"

datatype 'a pc =
    PDone                 \<comment> \<open>no call in progress\<close>
  | PSend bool 'a         \<comment> \<open>\<^verbatim>\<open>Send\<close> or (\<open>True\<close>) \<^verbatim>\<open>SendPriority\<close>, before the ring-buffer call\<close>
  | PSched                \<comment> \<open>\<^verbatim>\<open>schedule\<close>, before its compare-and-swap\<close>
  | PStart                \<comment> \<open>\<^verbatim>\<open>Start\<close>, before the compare-and-swap\<close>
  | PStartProc            \<comment> \<open>\<^verbatim>\<open>Start\<close>, before \<^verbatim>\<open>in.proc = proc\<close>\<close>
  | PStartIdle            \<comment> \<open>\<^verbatim>\<open>Start\<close>, before the swap to idle\<close>
  | WLoad                 \<comment> \<open>\<^verbatim>\<open>run\<close>, before the load in the loop condition\<close>
  | WPop                  \<comment> \<open>\<^verbatim>\<open>run\<close>, before \<^verbatim>\<open>PopN\<close>\<close>
  | WInvoke "'a list"     \<comment> \<open>\<^verbatim>\<open>run\<close>, inside \<^verbatim>\<open>in.proc.Invoke(msgs)\<close>\<close>
  | WCas                  \<comment> \<open>\<^verbatim>\<open>process\<close>, before the compare-and-swap after \<^verbatim>\<open>run\<close>\<close>
  | WLen                  \<comment> \<open>\<^verbatim>\<open>process\<close>, before \<^verbatim>\<open>in.rb.Len() > 0\<close>\<close>

text \<open>
  The last five fields are history variables that no step reads: what was pushed, what was
  taken out in batches, what was cleared, whether the inbox was ever stopped, and whether
  \<^verbatim>\<open>Start\<close> won its compare-and-swap after that.
\<close>

record 'a Inbox =
  ib_rb :: "'a RingBuffer"
  ib_proc :: bool
  ib_status :: status
  ib_pcs :: "nat \<Rightarrow> 'a pc"
  ib_pushed :: "'a list"
  ib_taken :: "'a list"
  ib_cleared :: "'a list"
  ib_stopped :: bool
  ib_restarted :: bool

definition NewInbox :: "'a \<Rightarrow> int \<Rightarrow> 'a Inbox go" where
  "NewInbox z sz = go_bind (New z sz) (\<lambda>rb.
     Inr \<lparr>ib_rb = rb, ib_proc = False, ib_status = StStopped, ib_pcs = (\<lambda>_. PDone),
          ib_pushed = [], ib_taken = [], ib_cleared = [], ib_stopped = False,
          ib_restarted = False\<rparr>)"

definition set_pc :: "nat \<Rightarrow> 'a pc \<Rightarrow> 'a Inbox \<Rightarrow> 'a Inbox" where
  "set_pc t c s = s\<lparr>ib_pcs := (ib_pcs s)(t := c)\<rparr>"

subsection \<open>The operations, one atomic step each\<close>

definition ib_push :: "'a \<Rightarrow> bool \<Rightarrow> 'a \<Rightarrow> 'a Inbox \<Rightarrow> 'a Inbox option" where
  "ib_push z prio x s =
     (case (if prio then PushFront z (ib_rb s) x else Push z (ib_rb s) x) of
        Inl _ \<Rightarrow> None
      | Inr rb \<Rightarrow> Some (s\<lparr>ib_rb := rb, ib_pushed := ib_pushed s @ [x]\<rparr>))"

text \<open>\<open>u\<close> is the goroutine that \<^verbatim>\<open>Schedule\<close> starts on \<^verbatim>\<open>in.process\<close>.\<close>

definition ib_schedule :: "nat \<Rightarrow> nat \<Rightarrow> 'a Inbox \<Rightarrow> 'a Inbox option" where
  "ib_schedule t u s =
     (if ib_status s = StIdle then
        (if u \<noteq> t \<and> ib_pcs s u = PDone
         then Some (set_pc u WLoad (set_pc t PDone (s\<lparr>ib_status := StRunning\<rparr>))) else None)
      else Some (set_pc t PDone s))"

definition ib_start_cas :: "nat \<Rightarrow> 'a Inbox \<Rightarrow> 'a Inbox" where
  "ib_start_cas t s =
     (if ib_status s = StStopped
      then set_pc t PStartProc (s\<lparr>ib_status := StStarting, ib_restarted := ib_restarted s \<or> ib_stopped s\<rparr>)
      else set_pc t PDone s)"

definition ib_run_pop :: "'a \<Rightarrow> nat \<Rightarrow> 'a Inbox \<Rightarrow> 'a Inbox option" where
  "ib_run_pop z t s =
     (case PopN z (ib_rb s) messageBatchSize of
        Inl _ \<Rightarrow> None
      | Inr (r, rb) \<Rightarrow>
          (case r of
             Some msgs \<Rightarrow>
               if length msgs > 0
               then Some (set_pc t (WInvoke msgs) (s\<lparr>ib_rb := rb, ib_taken := ib_taken s @ msgs\<rparr>))
               else Some (set_pc t WCas (s\<lparr>ib_rb := rb\<rparr>))
           | None \<Rightarrow> Some (set_pc t WCas (s\<lparr>ib_rb := rb\<rparr>))))"

definition ib_process_cas :: "nat \<Rightarrow> 'a Inbox \<Rightarrow> 'a Inbox" where
  "ib_process_cas t s =
     (if ib_status s = StRunning then set_pc t WLen (s\<lparr>ib_status := StIdle\<rparr>) else set_pc t PDone s)"

definition ib_process_len :: "nat \<Rightarrow> 'a Inbox \<Rightarrow> 'a Inbox" where
  "ib_process_len t s = (if Len (ib_rb s) > 0 then set_pc t PSched s else set_pc t PDone s)"

text \<open>The next atomic step of goroutine \<open>t\<close>. A goroutine inside \<^verbatim>\<open>Invoke\<close> returns to the loop;
  the calls the actor makes meanwhile are steps of other goroutines.\<close>

fun ib_tick :: "'a \<Rightarrow> nat \<Rightarrow> nat \<Rightarrow> 'a Inbox \<Rightarrow> 'a Inbox option" where
  "ib_tick z t u s =
     (case ib_pcs s t of
        PDone \<Rightarrow> None
      | PSend prio x \<Rightarrow> map_option (set_pc t PSched) (ib_push z prio x s)
      | PSched \<Rightarrow> ib_schedule t u s
      | PStart \<Rightarrow> Some (ib_start_cas t s)
      | PStartProc \<Rightarrow> Some (set_pc t PStartIdle (s\<lparr>ib_proc := True\<rparr>))
      | PStartIdle \<Rightarrow> Some (set_pc t PSched (s\<lparr>ib_status := StIdle\<rparr>))
      | WLoad \<Rightarrow> Some (set_pc t (if ib_status s \<noteq> StStopped then WPop else WCas) s)
      | WPop \<Rightarrow> ib_run_pop z t s
      | WInvoke msgs \<Rightarrow> Some (set_pc t WLoad s)
      | WCas \<Rightarrow> Some (ib_process_cas t s)
      | WLen \<Rightarrow> Some (ib_process_len t s))"

definition ib_Stop :: "'a Inbox \<Rightarrow> 'a Inbox" where
  "ib_Stop s = s\<lparr>ib_status := StStopped, ib_stopped := True\<rparr>"

definition ib_Clear :: "'a Inbox \<Rightarrow> 'a Inbox" where
  "ib_Clear s = s\<lparr>ib_rb := Clear (ib_rb s), ib_cleared := ib_cleared s @ rb_list (ib_rb s)\<rparr>"

text \<open>What the environment can do: begin a call on an unused goroutine, or let one advance.\<close>

datatype 'a ib_cmd =
    CallSend nat bool 'a
  | CallStart nat
  | CallStop
  | CallClear
  | Tick nat nat

fun ib_exec :: "'a \<Rightarrow> 'a ib_cmd \<Rightarrow> 'a Inbox \<Rightarrow> 'a Inbox option" where
  "ib_exec z (CallSend t prio x) s = (if ib_pcs s t = PDone then Some (set_pc t (PSend prio x) s) else None)"
| "ib_exec z (CallStart t) s = (if ib_pcs s t = PDone then Some (set_pc t PStart s) else None)"
| "ib_exec z CallStop s = Some (ib_Stop s)"
| "ib_exec z CallClear s = Some (ib_Clear s)"
| "ib_exec z (Tick t u) s = ib_tick z t u s"

inductive ib_reach :: "'a \<Rightarrow> int \<Rightarrow> 'a Inbox \<Rightarrow> bool" for z sz where
  init: "NewInbox z sz = Inr s \<Longrightarrow> ib_reach z sz s"
| step: "ib_reach z sz s \<Longrightarrow> ib_exec z c s = Some s' \<Longrightarrow> ib_reach z sz s'"

fun ib_execs :: "'a \<Rightarrow> 'a ib_cmd list \<Rightarrow> 'a Inbox \<Rightarrow> 'a Inbox option" where
  "ib_execs z [] s = Some s"
| "ib_execs z (c # cs) s = (case ib_exec z c s of None \<Rightarrow> None | Some s' \<Rightarrow> ib_execs z cs s')"

lemma ib_execs_reach: "ib_reach z sz s \<Longrightarrow> ib_execs z cs s = Some s' \<Longrightarrow> ib_reach z sz s'"
  by (induction cs arbitrary: s) (auto split: option.splits intro: ib_reach.step)

lemma set_pc_simps [simp]:
  "ib_rb (set_pc t c s) = ib_rb s" "ib_proc (set_pc t c s) = ib_proc s"
  "ib_status (set_pc t c s) = ib_status s" "ib_pcs (set_pc t c s) = (ib_pcs s)(t := c)"
  "ib_pushed (set_pc t c s) = ib_pushed s" "ib_taken (set_pc t c s) = ib_taken s"
  "ib_cleared (set_pc t c s) = ib_cleared s" "ib_stopped (set_pc t c s) = ib_stopped s"
  "ib_restarted (set_pc t c s) = ib_restarted s"
  by (simp_all add: set_pc_def)


subsection \<open>Nothing is lost or duplicated\<close>

definition ib_data_inv :: "'a Inbox \<Rightarrow> bool" where
  "ib_data_inv s \<longleftrightarrow> rb_invar (ib_rb s) \<and>
     mset (ib_pushed s) = mset (ib_taken s) + mset (ib_cleared s) + mset (rb_list (ib_rb s))"

lemma ib_push_data:
  assumes "ib_data_inv s"
  shows "\<exists>rb. ib_push z prio x s = Some (s\<lparr>ib_rb := rb, ib_pushed := ib_pushed s @ [x]\<rparr>) \<and>
     rb_invar rb \<and> rb_list rb = (if prio then x # rb_list (ib_rb s) else rb_list (ib_rb s) @ [x])"
  using ring.push_law [of "ib_rb s" z x] ring.push_front_law [of "ib_rb s" z x] assms
  by (auto simp: ib_push_def ib_data_inv_def)

lemma ib_run_pop_data:
  assumes "ib_data_inv s"
  shows "(rb_list (ib_rb s) = [] \<and> ib_run_pop z t s = Some (set_pc t WCas s)) \<or>
    (rb_list (ib_rb s) \<noteq> [] \<and> (\<exists>rb. rb_invar rb \<and>
      rb_list rb = drop (nat messageBatchSize) (rb_list (ib_rb s)) \<and>
      ib_run_pop z t s =
        Some (set_pc t (WInvoke (take (nat messageBatchSize) (rb_list (ib_rb s))))
          (s\<lparr>ib_rb := rb, ib_taken := ib_taken s @ take (nat messageBatchSize) (rb_list (ib_rb s))\<rparr>))))"
proof (cases "rb_list (ib_rb s) = []")
  case True
  then show ?thesis
    using ring.pop_n_empty_law [of "ib_rb s" z messageBatchSize] assms
    by (simp add: ib_run_pop_def ib_data_inv_def)
next
  case False
  then obtain rb where "PopN z (ib_rb s) messageBatchSize =
      Inr (Some (take (nat messageBatchSize) (rb_list (ib_rb s))), rb)" "rb_invar rb"
      "rb_list rb = drop (nat messageBatchSize) (rb_list (ib_rb s))"
    using ring.pop_n_law [of "ib_rb s" messageBatchSize z] assms
    by (auto simp: ib_data_inv_def messageBatchSize_def)
  then show ?thesis using False
    by (auto simp: ib_run_pop_def messageBatchSize_def)
qed

lemmas ib_step_defs = ib_schedule_def ib_start_cas_def ib_process_cas_def ib_process_len_def
  ib_Stop_def ib_Clear_def

lemma mset_take_drop: "mset xs = mset (take n xs) + mset (drop n xs)"
  by (metis append_take_drop_id mset_append)

lemma ib_data_inv_pop:
  "ib_data_inv s \<Longrightarrow> ib_run_pop z t s = Some s' \<Longrightarrow> ib_data_inv s'"
  using ib_run_pop_data [of s z t]
    mset_take_drop [of "rb_list (ib_rb s)" "nat messageBatchSize"]
  by (auto simp: ib_data_inv_def ac_simps)

lemma ib_data_inv_push:
  "ib_data_inv s \<Longrightarrow> ib_push z prio x s = Some s' \<Longrightarrow> ib_data_inv s'"
  using ib_push_data [of s z prio x] by (auto simp: ib_data_inv_def)

lemma ib_data_inv_frame:
  "ib_data_inv s \<Longrightarrow> ib_rb s' = ib_rb s \<Longrightarrow> ib_pushed s' = ib_pushed s \<Longrightarrow>
   ib_taken s' = ib_taken s \<Longrightarrow> ib_cleared s' = ib_cleared s \<Longrightarrow> ib_data_inv s'"
  by (simp add: ib_data_inv_def)

lemma ib_data_inv_step: "ib_data_inv s \<Longrightarrow> ib_exec z c s = Some s' \<Longrightarrow> ib_data_inv s'"
proof (induction z c s rule: ib_exec.induct)
  case (4 z s)
  then show ?case using Clear_ok [of "ib_rb s"] by (auto simp: ib_data_inv_def ib_Clear_def)
next
  case (5 z t u s)
  then show ?case
    by (auto simp: ib_step_defs split: pc.splits if_splits
        intro: ib_data_inv_pop ib_data_inv_frame dest: ib_data_inv_push)
qed (auto simp: ib_Stop_def split: if_splits intro: ib_data_inv_frame)

lemma ib_data_inv_reach: "ib_reach z sz s \<Longrightarrow> 0 < sz \<Longrightarrow> ib_data_inv s"
proof (induction rule: ib_reach.induct)
  case (init s)
  then show ?case using New_ok [of sz z] by (auto simp: NewInbox_def ib_data_inv_def)
qed (rule ib_data_inv_step)


subsection \<open>No lost wake-up\<close>

text \<open>A goroutine that owns the running status, one that will call \<^verbatim>\<open>schedule\<close>, and one in
  the middle of \<^verbatim>\<open>Start\<close>.\<close>

fun holder :: "'a pc \<Rightarrow> bool" where
  "holder WLoad = True"
| "holder WPop = True"
| "holder (WInvoke _) = True"
| "holder WCas = True"
| "holder _ = False"

fun waking :: "'a pc \<Rightarrow> bool" where
  "waking PSched = True"
| "waking WLen = True"
| "waking _ = False"

fun pending :: "'a pc \<Rightarrow> bool" where
  "pending PStartProc = True"
| "pending PStartIdle = True"
| "pending _ = False"

definition some_pc :: "('a pc \<Rightarrow> bool) \<Rightarrow> 'a Inbox \<Rightarrow> bool" where
  "some_pc P s \<longleftrightarrow> (\<exists>t. P (ib_pcs s t))"

definition other_pc :: "('a pc \<Rightarrow> bool) \<Rightarrow> nat \<Rightarrow> 'a Inbox \<Rightarrow> bool" where
  "other_pc P t s \<longleftrightarrow> (\<exists>u. u \<noteq> t \<and> P (ib_pcs s u))"

lemma some_pc_split: "some_pc P s \<longleftrightarrow> P (ib_pcs s t) \<or> other_pc P t s"
  by (auto simp: some_pc_def other_pc_def)

lemma some_pc_set [simp]: "some_pc P (set_pc t c s) \<longleftrightarrow> P c \<or> other_pc P t s"
  by (auto simp: some_pc_def other_pc_def)

lemma other_pc_set: "u \<noteq> t \<Longrightarrow> P c \<or> \<not> P (ib_pcs s u) \<Longrightarrow> other_pc P t s \<Longrightarrow> other_pc P t (set_pc u c s)"
  by (auto simp: other_pc_def)

lemma some_other_frame:
  "ib_pcs s' = ib_pcs s \<Longrightarrow> some_pc P s' = some_pc P s"
  "ib_pcs s' = ib_pcs s \<Longrightarrow> other_pc P t s' = other_pc P t s"
  by (simp_all add: some_pc_def other_pc_def)

lemma some_other_upd [simp]:
  "some_pc P (ib_rb_update f0 s) = some_pc P s" "other_pc P t (ib_rb_update f0 s) = other_pc P t s"
  "some_pc P (ib_proc_update f1 s) = some_pc P s" "other_pc P t (ib_proc_update f1 s) = other_pc P t s"
  "some_pc P (ib_status_update f2 s) = some_pc P s" "other_pc P t (ib_status_update f2 s) = other_pc P t s"
  "some_pc P (ib_pushed_update f3 s) = some_pc P s" "other_pc P t (ib_pushed_update f3 s) = other_pc P t s"
  "some_pc P (ib_taken_update f4 s) = some_pc P s" "other_pc P t (ib_taken_update f4 s) = other_pc P t s"
  "some_pc P (ib_cleared_update f5 s) = some_pc P s" "other_pc P t (ib_cleared_update f5 s) = other_pc P t s"
  "some_pc P (ib_stopped_update f6 s) = some_pc P s" "other_pc P t (ib_stopped_update f6 s) = other_pc P t s"
  "some_pc P (ib_restarted_update f7 s) = some_pc P s" "other_pc P t (ib_restarted_update f7 s) = other_pc P t s"
  by (simp_all add: some_pc_def other_pc_def)

definition ib_wake_inv :: "'a Inbox \<Rightarrow> bool" where
  "ib_wake_inv s \<longleftrightarrow>
     (ib_status s = StRunning \<longrightarrow> some_pc holder s) \<and>
     (ib_status s = StStarting \<longrightarrow> some_pc pending s) \<and>
     (ib_status s = StIdle \<longrightarrow> rb_list (ib_rb s) \<noteq> [] \<longrightarrow> some_pc waking s)"

lemma ib_wake_inv_split:
  "ib_wake_inv s \<longleftrightarrow>
     (ib_status s = StRunning \<longrightarrow> holder (ib_pcs s t) \<or> other_pc holder t s) \<and>
     (ib_status s = StStarting \<longrightarrow> pending (ib_pcs s t) \<or> other_pc pending t s) \<and>
     (ib_status s = StIdle \<longrightarrow> rb_list (ib_rb s) \<noteq> [] \<longrightarrow> waking (ib_pcs s t) \<or> other_pc waking t s)"
  unfolding ib_wake_inv_def using some_pc_split [of _ s t] by blast

lemma ib_wake_inv_schedule:
  assumes "ib_wake_inv s" "ib_pcs s t = PSched" "ib_schedule t u s = Some s'"
  shows "ib_wake_inv s'"
proof (cases "ib_status s = StIdle")
  case True
  then show ?thesis using assms by (auto simp: ib_schedule_def ib_wake_inv_def split: if_splits)
next
  case False
  then show ?thesis using assms(1,3) ib_wake_inv_split [of s t] assms(2)
    by (auto simp: ib_schedule_def ib_wake_inv_def)
qed

lemma ib_wake_inv_tick:
  assumes "ib_data_inv s" "ib_wake_inv s" "ib_tick z t u s = Some s'"
  shows "ib_wake_inv s'"
proof -
  note w = assms(2) [unfolded ib_wake_inv_split [of s t]]
  show ?thesis
  proof (cases "ib_pcs s t")
    case (PSend prio x)
    obtain rb where "ib_push z prio x s = Some (s\<lparr>ib_rb := rb, ib_pushed := ib_pushed s @ [x]\<rparr>)"
      using ib_push_data [OF assms(1)] by blast
    then show ?thesis using PSend w assms(3) by (auto simp: ib_wake_inv_def)
  next
    case PSched
    then show ?thesis using assms(2,3) ib_wake_inv_schedule [of s t u s'] by simp
  next
    case WPop
    have run: "ib_run_pop z t s = Some s'" using WPop assms(3) by simp
    show ?thesis
    proof (cases "rb_list (ib_rb s) = []")
      case True
      then have "s' = set_pc t WCas s" using ib_run_pop_data [OF assms(1), of z t] run by simp
      then show ?thesis using w WPop by (auto simp: ib_wake_inv_def)
    next
      case False
      then obtain rb xs where
        "s' = set_pc t (WInvoke xs) (s\<lparr>ib_rb := rb, ib_taken := ib_taken s @ xs\<rparr>)"
        using ib_run_pop_data [OF assms(1), of z t] run by auto
      then show ?thesis using w WPop False by (auto simp: ib_wake_inv_def)
    qed
  next
    case WLen
    then show ?thesis using w assms(3) Len_ok [of "ib_rb s"] assms(1)
      by (auto simp: ib_wake_inv_def ib_process_len_def ib_data_inv_def)
  qed (use w assms(3) in \<open>auto simp: ib_wake_inv_def ib_start_cas_def ib_process_cas_def split: if_splits\<close>)
qed

lemma ib_wake_inv_step:
  assumes "ib_data_inv s" "ib_wake_inv s" "ib_exec z c s = Some s'"
  shows "ib_wake_inv s'"
proof (cases c)
  case (CallSend t prio x)
  then show ?thesis using assms(2,3) unfolding ib_wake_inv_split [of s t]
    by (auto simp: ib_wake_inv_def split: if_splits)
next
  case (CallStart t)
  then show ?thesis using assms(2,3) unfolding ib_wake_inv_split [of s t]
    by (auto simp: ib_wake_inv_def split: if_splits)
next
  case CallStop
  then show ?thesis using assms(3) by (auto simp: ib_wake_inv_def ib_Stop_def)
next
  case CallClear
  then show ?thesis using assms Clear_ok [of "ib_rb s"]
    by (auto simp: ib_wake_inv_def ib_Clear_def ib_data_inv_def)
next
  case (Tick t u)
  then show ?thesis using assms ib_wake_inv_tick [of s z t u s'] by simp
qed

lemma ib_wake_inv_reach: "ib_reach z sz s \<Longrightarrow> 0 < sz \<Longrightarrow> ib_wake_inv s"
proof (induction rule: ib_reach.induct)
  case (init s)
  then show ?case by (auto simp: NewInbox_def go_bind_eq_Inr ib_wake_inv_def)
next
  case (step s c s')
  then show ?case using ib_wake_inv_step [OF ib_data_inv_reach] by simp
qed


subsection \<open>One goroutine at a time\<close>

definition uniq_pc :: "('a pc \<Rightarrow> bool) \<Rightarrow> 'a Inbox \<Rightarrow> bool" where
  "uniq_pc P s \<longleftrightarrow> (\<forall>t u. P (ib_pcs s t) \<longrightarrow> P (ib_pcs s u) \<longrightarrow> t = u)"

lemma uniq_pc_set: "uniq_pc P s \<Longrightarrow> (P c \<Longrightarrow> \<not> other_pc P t s) \<Longrightarrow> uniq_pc P (set_pc t c s)"
  by (auto simp: uniq_pc_def other_pc_def)

lemma uniq_pc_other: "uniq_pc P s \<Longrightarrow> P (ib_pcs s t) \<Longrightarrow> \<not> other_pc P t s"
  by (auto simp: uniq_pc_def other_pc_def)

lemma uniq_pc_upd [simp]:
  "uniq_pc P (ib_rb_update f0 s) = uniq_pc P s" "uniq_pc P (ib_proc_update f1 s) = uniq_pc P s"
  "uniq_pc P (ib_status_update f2 s) = uniq_pc P s" "uniq_pc P (ib_pushed_update f3 s) = uniq_pc P s"
  "uniq_pc P (ib_taken_update f4 s) = uniq_pc P s" "uniq_pc P (ib_cleared_update f5 s) = uniq_pc P s"
  "uniq_pc P (ib_stopped_update f6 s) = uniq_pc P s"
  "uniq_pc P (ib_restarted_update f7 s) = uniq_pc P s"
  by (simp_all add: uniq_pc_def)

text \<open>As long as \<^verbatim>\<open>Start\<close> has not won again after a \<^verbatim>\<open>Stop\<close>, the status word is a lock: whoever
  processes owns it.\<close>

definition ib_excl :: "'a Inbox \<Rightarrow> bool" where
  "ib_excl s \<longleftrightarrow>
     uniq_pc holder s \<and> uniq_pc pending s \<and>
     (some_pc holder s \<longrightarrow> ib_status s = StRunning \<or> ib_status s = StStopped \<and> ib_stopped s) \<and>
     (some_pc pending s \<longrightarrow> \<not> some_pc holder s \<and>
        (ib_status s = StStarting \<or> ib_status s = StStopped \<and> ib_stopped s))"

definition ib_excl_inv :: "'a Inbox \<Rightarrow> bool" where
  "ib_excl_inv s \<longleftrightarrow> ib_restarted s \<or> ib_excl s"

lemma ib_excl_set:
  assumes "ib_excl s" "holder c \<Longrightarrow> holder (ib_pcs s t)" "pending c \<Longrightarrow> pending (ib_pcs s t)"
  shows "ib_excl (set_pc t c s)"
  using assms uniq_pc_other [of holder s t] uniq_pc_other [of pending s t]
  by (auto simp: ib_excl_def some_pc_split [of _ s t] intro!: uniq_pc_set)

lemma ib_excl_upd [simp]:
  "ib_excl (ib_rb_update f0 s) = ib_excl s" "ib_excl (ib_proc_update f1 s) = ib_excl s"
  "ib_excl (ib_pushed_update f3 s) = ib_excl s" "ib_excl (ib_taken_update f4 s) = ib_excl s"
  "ib_excl (ib_cleared_update f5 s) = ib_excl s" "ib_excl (ib_restarted_update f7 s) = ib_excl s"
  by (simp_all add: ib_excl_def)

lemma ib_excl_schedule:
  assumes "ib_excl s" "ib_pcs s t = PSched" "ib_schedule t u s = Some s'"
  shows "ib_excl s'"
proof (cases "ib_status s = StIdle")
  case True
  then have "s' = set_pc u WLoad (set_pc t PDone (s\<lparr>ib_status := StRunning\<rparr>))"
    and none: "\<not> some_pc holder s" "\<not> some_pc pending s"
    using assms by (auto simp: ib_schedule_def ib_excl_def split: if_splits)
  moreover have "uniq_pc holder s" "uniq_pc pending s" using assms(1) by (auto simp: ib_excl_def)
  ultimately show ?thesis using none
    by (auto simp: ib_excl_def some_pc_def other_pc_def uniq_pc_def split: if_splits)
next
  case False
  then show ?thesis using assms by (auto simp: ib_schedule_def intro: ib_excl_set)
qed

lemma ib_excl_start_cas:
  assumes "ib_excl s" "ib_pcs s t = PStart" "\<not> ib_restarted (ib_start_cas t s)"
  shows "ib_excl (ib_start_cas t s)"
proof (cases "ib_status s = StStopped")
  case True
  with assms(1,3) have "\<not> some_pc holder s" "\<not> some_pc pending s"
    by (auto simp: ib_excl_def ib_start_cas_def)
  then show ?thesis using assms True
    by (auto simp: ib_start_cas_def ib_excl_def some_pc_split [of _ s t] intro!: uniq_pc_set)
next
  case False
  then show ?thesis using assms by (auto simp: ib_start_cas_def intro: ib_excl_set)
qed

lemma ib_excl_process_cas:
  assumes "ib_excl s" "ib_pcs s t = WCas"
  shows "ib_excl (ib_process_cas t s)"
proof (cases "ib_status s = StRunning")
  case True
  then show ?thesis using assms uniq_pc_other [of holder s t]
    by (auto simp: ib_process_cas_def ib_excl_def some_pc_split [of _ s t] intro!: uniq_pc_set)
next
  case False
  then show ?thesis using assms by (auto simp: ib_process_cas_def intro: ib_excl_set)
qed

lemma ib_excl_start_idle:
  assumes "ib_excl s" "ib_pcs s t = PStartIdle"
  shows "ib_excl (set_pc t PSched (s\<lparr>ib_status := StIdle\<rparr>))"
  using assms uniq_pc_other [of pending s t]
  by (auto simp: ib_excl_def some_pc_split [of _ s t] intro!: uniq_pc_set)

lemma ib_restarted_mono: "ib_exec z c s = Some s' \<Longrightarrow> ib_restarted s \<Longrightarrow> ib_restarted s'"
  by (cases c) (auto simp: ib_step_defs ib_push_def ib_run_pop_def split: if_splits pc.splits
      sum.splits option.splits)

lemma ib_excl_tick:
  assumes "ib_data_inv s" "ib_excl s" "ib_tick z t u s = Some s'" "\<not> ib_restarted s'"
  shows "ib_excl s'"
proof (cases "ib_pcs s t")
  case (PSend prio x)
  then show ?thesis using ib_push_data [OF assms(1), of z prio x] assms
    by (auto intro!: ib_excl_set)
next
  case PSched
  then show ?thesis using assms ib_excl_schedule [of s t u s'] by simp
next
  case PStart
  then show ?thesis using assms ib_excl_start_cas [of s t] by auto
next
  case PStartIdle
  then show ?thesis using assms ib_excl_start_idle [of s t] by auto
next
  case WCas
  then show ?thesis using assms ib_excl_process_cas [of s t] by auto
next
  case WPop
  then show ?thesis using ib_run_pop_data [OF assms(1), of z t] assms
    by (auto intro!: ib_excl_set)
qed (use assms in \<open>auto simp: ib_process_len_def intro!: ib_excl_set split: if_splits\<close>)

lemma ib_excl_inv_step:
  assumes "ib_data_inv s" "ib_excl_inv s" "ib_exec z c s = Some s'"
  shows "ib_excl_inv s'"
proof (cases "ib_restarted s'")
  case False
  then have e: "ib_excl s" using ib_restarted_mono [OF assms(3)] assms(2) by (auto simp: ib_excl_inv_def)
  have "ib_excl s'"
  proof (cases c)
    case CallStop
    then show ?thesis using e assms(3) by (auto simp: ib_Stop_def ib_excl_def)
  next
    case CallClear
    then show ?thesis using e assms(3) by (auto simp: ib_Clear_def)
  next
    case (Tick t u)
    then show ?thesis using e ib_excl_tick [OF assms(1)] assms(3) False by simp
  qed (use e assms(3) in \<open>auto intro!: ib_excl_set split: if_splits\<close>)
  then show ?thesis by (simp add: ib_excl_inv_def)
qed (simp add: ib_excl_inv_def)

lemma ib_excl_inv_reach: "ib_reach z sz s \<Longrightarrow> 0 < sz \<Longrightarrow> ib_excl_inv s"
proof (induction rule: ib_reach.induct)
  case (init s)
  then show ?case
    by (auto simp: NewInbox_def go_bind_eq_Inr ib_excl_inv_def ib_excl_def uniq_pc_def some_pc_def)
next
  case (step s c s')
  then show ?case using ib_excl_inv_step [OF ib_data_inv_reach] by simp
qed


subsection \<open>The processor is set before it is called\<close>

definition ib_proc_inv :: "'a Inbox \<Rightarrow> bool" where
  "ib_proc_inv s \<longleftrightarrow> ib_proc s \<or>
     ib_status s \<in> {StStopped, StStarting} \<and> \<not> some_pc holder s \<and> \<not> some_pc (\<lambda>c. c = PStartIdle) s"

lemma ib_proc_inv_set:
  "ib_proc_inv s \<Longrightarrow> \<not> holder c \<Longrightarrow> c \<noteq> PStartIdle \<Longrightarrow> ib_proc_inv (set_pc t c s)"
  by (auto simp: ib_proc_inv_def some_pc_split [of _ s t])

lemma ib_proc_inv_step:
  assumes "ib_data_inv s" "ib_proc_inv s" "ib_exec z c s = Some s'"
  shows "ib_proc_inv s'"
proof (cases "ib_proc s")
  case True
  then have "ib_proc s'" using assms(3)
    by (cases c) (auto simp: ib_step_defs ib_push_def ib_run_pop_def split: if_splits pc.splits
        sum.splits option.splits)
  then show ?thesis by (simp add: ib_proc_inv_def)
next
  case False
  then have n: "ib_status s \<in> {StStopped, StStarting}" "\<not> some_pc holder s"
      "\<not> some_pc (\<lambda>c. c = PStartIdle) s" using assms(2) by (auto simp: ib_proc_inv_def)
  show ?thesis
  proof (cases c)
    case (Tick t u)
    have "\<not> holder (ib_pcs s t)" "ib_pcs s t \<noteq> PStartIdle" using n by (auto simp: some_pc_def)
    then show ?thesis using Tick assms(3) n some_pc_split [of holder s t]
        some_pc_split [of "\<lambda>c. c = PStartIdle" s t]
      by (auto simp: ib_proc_inv_def ib_step_defs ib_push_def split: pc.splits if_splits sum.splits)
  qed (use n assms(2,3) in \<open>auto intro!: ib_proc_inv_set simp: ib_Stop_def ib_Clear_def ib_proc_inv_def
      split: if_splits\<close>, (auto simp: other_pc_def some_pc_def)?)
qed

lemma ib_proc_inv_reach: "ib_reach z sz s \<Longrightarrow> 0 < sz \<Longrightarrow> ib_proc_inv s"
proof (induction rule: ib_reach.induct)
  case (init s)
  then show ?case by (auto simp: NewInbox_def go_bind_eq_Inr ib_proc_inv_def some_pc_def)
next
  case (step s c s')
  then show ?case using ib_proc_inv_step [OF ib_data_inv_reach] by simp
qed

subsection \<open>Order\<close>

text \<open>Commands without \<^verbatim>\<open>SendPriority\<close> (whose messages overtake) and without \<^verbatim>\<open>Clear\<close>.\<close>

fun plain_cmd :: "'a ib_cmd \<Rightarrow> bool" where
  "plain_cmd (CallSend t prio x) = (\<not> prio)"
| "plain_cmd CallClear = False"
| "plain_cmd _ = True"

definition ib_fifo :: "'a Inbox \<Rightarrow> bool" where
  "ib_fifo s \<longleftrightarrow> ib_data_inv s \<and> ib_pushed s = ib_taken s @ rb_list (ib_rb s) \<and>
     (\<forall>t x. ib_pcs s t \<noteq> PSend True x)"

lemma ib_fifo_frame:
  "ib_fifo s \<Longrightarrow> ib_data_inv s' \<Longrightarrow> ib_rb s' = ib_rb s \<Longrightarrow> ib_pushed s' = ib_pushed s \<Longrightarrow>
   ib_taken s' = ib_taken s \<Longrightarrow> (\<And>t x. ib_pcs s' t = PSend True x \<Longrightarrow> ib_pcs s t = PSend True x) \<Longrightarrow>
   ib_fifo s'"
  by (auto simp: ib_fifo_def)

lemma ib_fifo_step:
  assumes "ib_fifo s" "plain_cmd c" "ib_exec z c s = Some s'"
  shows "ib_fifo s'"
proof -
  have d: "ib_data_inv s" "ib_data_inv s'"
    using assms ib_data_inv_step [OF _ assms(3)] by (auto simp: ib_fifo_def)
  show ?thesis
  proof (cases c)
    case (Tick t u)
    have run: "ib_tick z t u s = Some s'" using assms(3) Tick by simp
    show ?thesis
    proof (cases "ib_pcs s t")
      case (PSend prio x)
      then have "\<not> prio" using assms(1) by (auto simp: ib_fifo_def)
      then show ?thesis using ib_push_data [OF d(1), of z prio x] PSend run d(2) assms(1)
        by (auto simp: ib_fifo_def split: if_splits)
    next
      case WPop
      then show ?thesis using ib_run_pop_data [OF d(1), of z t] run d(2) assms(1)
        by (auto simp: ib_fifo_def split: if_splits)
    qed (use run d(2) assms(1) in \<open>auto simp: ib_step_defs split: if_splits elim!: ib_fifo_frame\<close>)
  qed (use assms d in \<open>auto simp: ib_Stop_def split: if_splits elim!: ib_fifo_frame\<close>)
qed

lemma ib_fifo_execs:
  "ib_execs z cs s = Some s' \<Longrightarrow> list_all plain_cmd cs \<Longrightarrow> ib_fifo s \<Longrightarrow> ib_fifo s'"
  by (induction cs arbitrary: s) (auto split: option.splits dest: ib_fifo_step)

lemma ib_fifo_New: "NewInbox z sz = Inr s \<Longrightarrow> 0 < sz \<Longrightarrow> ib_fifo s"
  using ib_data_inv_reach [OF ib_reach.init, of z sz s] New_ok [of sz z]
  by (auto simp: ib_fifo_def NewInbox_def)


subsection \<open>Properties\<close>

text \<open>A trace: one message is sent, the inbox is started, and goroutine 1 processes the message.\<close>

definition ib_demo :: "nat ib_cmd list" where
  "ib_demo = [CallSend 2 False 10, Tick 2 9, Tick 2 9, CallStart 0, Tick 0 9, Tick 0 9, Tick 0 9,
     Tick 0 1, Tick 1 9, Tick 1 9]"

text \<open>The trace goes on with \<^verbatim>\<open>Stop\<close>, a second message and a second \<^verbatim>\<open>Start\<close>.\<close>

definition ib_demo_restart :: "nat ib_cmd list" where
  "ib_demo_restart = ib_demo @ [CallStop, CallSend 4 False 20, Tick 4 9, Tick 4 9, CallStart 5,
     Tick 5 9, Tick 5 9, Tick 5 9, Tick 5 6, Tick 6 9, Tick 6 9]"

text \<open>Or the worker finishes: the batch, an empty batch, the swap to idle and the length check.\<close>

definition ib_demo_quiet :: "nat ib_cmd list" where
  "ib_demo_quiet = ib_demo @ [Tick 1 9, Tick 1 9, Tick 1 9, Tick 1 9, Tick 1 9]"

definition ib_after :: "int \<Rightarrow> nat ib_cmd list \<Rightarrow> nat Inbox option" where
  "ib_after sz cs = (case NewInbox 0 sz of Inl _ \<Rightarrow> None | Inr s \<Rightarrow> ib_execs 0 cs s)"

lemma ib_after_reach: "ib_after sz cs = Some s \<Longrightarrow> ib_reach 0 sz s"
  by (auto simp: ib_after_def split: sum.splits intro: ib_execs_reach ib_reach.init)

lemma ib_demo_state:
  "map_option (\<lambda>s. (ib_pcs s 1, ib_pcs s 9, ib_restarted s, ib_pushed s, ib_taken s)) (ib_after 8 ib_demo) =
     Some (WInvoke [10], PDone, False, [10], [10])"
  by code_simp

lemma ib_demo_obtain:
  obtains s0 s where "NewInbox 0 8 = Inr s0" "ib_execs 0 ib_demo s0 = Some s" "ib_after 8 ib_demo = Some s"
    "ib_reach 0 8 s" "ib_pcs s 1 = WInvoke [10]" "ib_pcs s 9 = PDone" "\<not> ib_restarted s"
    "ib_pushed s = [10]" "ib_taken s = [10]"
  using ib_demo_state ib_after_reach [of 8 ib_demo] that
  by (auto simp: ib_after_def split: sum.splits)

fun cmd_tids :: "'a ib_cmd \<Rightarrow> nat set" where
  "cmd_tids (CallSend t prio x) = {t}"
| "cmd_tids (CallStart t) = {t}"
| "cmd_tids (Tick t u) = {t, u}"
| "cmd_tids _ = {}"

lemma ib_exec_tids: "ib_exec z c s = Some s' \<Longrightarrow> v \<notin> cmd_tids c \<Longrightarrow> ib_pcs s' v = ib_pcs s v"
  by (cases c) (auto simp: ib_step_defs ib_push_def ib_run_pop_def split: if_splits pc.splits
      sum.splits option.splits)

lemma ib_execs_tids:
  "ib_execs z cs s = Some s' \<Longrightarrow> v \<notin> (\<Union>c\<in>set cs. cmd_tids c) \<Longrightarrow> ib_pcs s' v = ib_pcs s v"
  by (induction cs arbitrary: s) (auto split: option.splits simp: ib_exec_tids)

text \<open>C13: In every reachable state of an inbox, whatever the interleaving of its callers and workers,
  the messages pushed are exactly those taken out in batches, those removed by \<^verbatim>\<open>Clear\<close> and those still
  queued: nothing is lost and nothing is delivered twice.\<close>

theorem inbox_no_loss:
  assumes "ib_reach z sz s" "0 < sz"
  shows "mset (ib_pushed s) = mset (ib_taken s) + mset (ib_cleared s) + mset (rb_list (ib_rb s))"
  using ib_data_inv_reach [OF assms] by (simp add: ib_data_inv_def)

theorem inbox_no_loss_witness:
  "\<exists>s. ib_after 8 ib_demo = Some s \<and>
     mset (ib_pushed s) = mset (ib_taken s) + mset (ib_cleared s) + mset (rb_list (ib_rb s))"
proof -
  obtain s where "ib_after 8 ib_demo = Some s" "ib_reach 0 8 s" by (rule ib_demo_obtain)
  then show ?thesis using inbox_no_loss [of 0 8 s] by simp
qed

text \<open>C14: As long as only \<^verbatim>\<open>Send\<close> is used (no \<^verbatim>\<open>SendPriority\<close>, no \<^verbatim>\<open>Clear\<close>), the messages handed
  to the processor, in order, followed by those still queued, are the messages in the order in which they
  were pushed: delivery is first in, first out, across batches and across concurrent senders.\<close>

theorem inbox_fifo:
  assumes "NewInbox z sz = Inr s0" "0 < sz" "ib_execs z cs s0 = Some s" "list_all plain_cmd cs"
  shows "ib_pushed s = ib_taken s @ rb_list (ib_rb s)"
  using ib_fifo_execs [OF assms(3,4) ib_fifo_New [OF assms(1,2)]] by (simp add: ib_fifo_def)

theorem inbox_fifo_witness:
  "\<exists>s. ib_after 8 ib_demo = Some s \<and> ib_pushed s = [10] \<and> ib_pushed s = ib_taken s @ rb_list (ib_rb s)"
proof -
  obtain s0 s where "NewInbox 0 8 = Inr s0" "ib_execs 0 ib_demo s0 = Some s"
    "ib_after 8 ib_demo = Some s" "ib_pushed s = [10]" by (rule ib_demo_obtain)
  moreover have "list_all plain_cmd ib_demo" by code_simp
  ultimately show ?thesis using inbox_fifo [of 0 8 s0 ib_demo s] by simp
qed

text \<open>C2: No wake-up is lost. When no goroutine is inside an operation of a started inbox that
  nobody stopped, its status is idle and its queue is empty: every message sent has been handed over.\<close>

theorem inbox_no_lost_wakeup:
  assumes "ib_reach z sz s" "0 < sz" "\<And>t. ib_pcs s t = PDone" "ib_status s \<noteq> StStopped"
  shows "ib_status s = StIdle \<and> rb_list (ib_rb s) = []"
  using ib_wake_inv_reach [OF assms(1,2)] assms(3,4)
  by (cases "ib_status s") (auto simp: ib_wake_inv_def some_pc_def)

theorem inbox_no_lost_wakeup_witness:
  "\<exists>s. ib_after 8 ib_demo_quiet = Some s \<and> ib_taken s = [10] \<and> ib_status s = StIdle \<and> rb_list (ib_rb s) = []"
proof -
  have "map_option (\<lambda>s. (map (ib_pcs s) [0..<10], ib_taken s, ib_status s)) (ib_after 8 ib_demo_quiet) =
      Some (replicate 10 PDone, [10], StIdle)" by code_simp
  then obtain s where s: "ib_after 8 ib_demo_quiet = Some s" "ib_taken s = [10]" "ib_status s = StIdle"
      "map (ib_pcs s) [0..<10] = replicate 10 PDone" by auto
  have "ib_pcs s t = PDone" for t
  proof (cases "t < 10")
    case True
    then show ?thesis using arg_cong [OF s(4), of "\<lambda>xs. xs ! t"] by simp
  next
    case False
    then have "t \<notin> (\<Union>c\<in>set ib_demo_quiet. cmd_tids c)"
      by (auto simp: ib_demo_quiet_def ib_demo_def)
    then show ?thesis using s(1)
      by (auto simp: ib_after_def NewInbox_def go_bind_eq_Inr split: sum.splits dest!: ib_execs_tids [of _ _ _ s t])
  qed
  then show ?thesis using inbox_no_lost_wakeup [of 0 8 s] ib_after_reach [OF s(1)] s by simp
qed

text \<open>C15: Mutual exclusion. Unless \<^verbatim>\<open>Start\<close> won again after a \<^verbatim>\<open>Stop\<close>, at most one goroutine is
  inside the processor's \<^verbatim>\<open>Invoke\<close>; and whoever is there finds the processor set.\<close>

theorem inbox_one_worker:
  assumes "ib_reach z sz s" "0 < sz" "ib_pcs s t = WInvoke xs"
  shows "ib_proc s \<and> (\<not> ib_restarted s \<longrightarrow> (\<forall>u ys. ib_pcs s u = WInvoke ys \<longrightarrow> u = t))"
proof -
  have "some_pc holder s" using assms(3) by (auto simp: some_pc_def intro!: exI [of _ t])
  then show ?thesis
    using ib_excl_inv_reach [OF assms(1,2)] ib_proc_inv_reach [OF assms(1,2)] assms(3)
    by (fastforce simp: ib_excl_inv_def ib_excl_def uniq_pc_def ib_proc_inv_def)
qed

theorem inbox_one_worker_witness:
  "\<exists>s. ib_after 8 ib_demo = Some s \<and> ib_pcs s 1 = WInvoke [10] \<and> ib_proc s \<and>
     \<not> (\<exists>u ys. u \<noteq> 1 \<and> ib_pcs s u = WInvoke ys)"
proof -
  obtain s where "ib_after 8 ib_demo = Some s" "ib_reach 0 8 s" "ib_pcs s 1 = WInvoke [10]"
    "\<not> ib_restarted s" by (rule ib_demo_obtain)
  then show ?thesis using inbox_one_worker [of 0 8 s 1 "[10]"] by auto
qed

text \<open>No step of an inbox panics or blocks: a goroutine inside \<^verbatim>\<open>Send\<close>, \<^verbatim>\<open>SendPriority\<close>,
  \<^verbatim>\<open>Start\<close> or the processing loop always has a next step, a fresh goroutine being available to
  \<^verbatim>\<open>Schedule\<close>.\<close>

theorem inbox_progress:
  assumes "ib_reach z sz s" "0 < sz" "ib_pcs s t \<noteq> PDone" "u \<noteq> t" "ib_pcs s u = PDone"
  shows "\<exists>s'. ib_tick z t u s = Some s'"
  using ib_push_data [OF ib_data_inv_reach [OF assms(1,2)], of z]
    ib_run_pop_data [OF ib_data_inv_reach [OF assms(1,2)], of z t] assms(3-5)
  by (cases "ib_pcs s t") (auto simp: ib_schedule_def)

theorem inbox_progress_witness:
  "\<exists>s s'. ib_after 8 ib_demo = Some s \<and> ib_tick 0 1 9 s = Some s'"
proof -
  obtain s where "ib_after 8 ib_demo = Some s" "ib_reach 0 8 s" "ib_pcs s 1 = WInvoke [10]"
    "ib_pcs s 9 = PDone" by (rule ib_demo_obtain)
  then show ?thesis using inbox_progress [of 0 8 s 1 9] by auto
qed

text \<open>\<^verbatim>\<open>Start\<close> after \<^verbatim>\<open>Stop\<close> while the old worker is still inside \<^verbatim>\<open>Invoke\<close> puts two
  goroutines into the processor at once.\<close>

theorem inbox_restart_two_workers:
  "map_option (\<lambda>s. (ib_pcs s 1, ib_pcs s 6)) (ib_after 8 ib_demo_restart) =
     Some (WInvoke [10], WInvoke [20])"
  by code_simp

end
