(* ===== verification/Context.thy ===== *)
theory Context
  imports Engine Process Inbox
begin

text \<open>
  Spawning actors (\<^verbatim>\<open>Spawn\<close>, \<^verbatim>\<open>SpawnFunc\<close> and \<^verbatim>\<open>NewEngine\<close> of \<^verbatim>\<open>src/actor/engine.go\<close>), the repeated
  message of a \<^verbatim>\<open>SendRepeater\<close>, and what an actor can do through its context
  (\<^verbatim>\<open>src/actor/context.go\<close>). The engine a context points to is an argument. The result type
  is \<open>None\<close> for a broadcast that never returns, \<open>Some (Inl e)\<close> for a panic.
\<close>

subsection \<open>Spawning\<close>

definition zero_Envelope :: "'u Envelope" where
  "zero_Envelope = \<lparr>Msg = NilAny, Sender = None\<rparr>"

text \<open>A spawned actor: its process and its inbox. \<open>obj\<close> is the identity of the new object, \<open>rnd\<close>
  the number \<^verbatim>\<open>rand.Intn\<close> returned.\<close>

record ('u, 'r, 'e) spawned =
  sp_calls :: "'u call list"
  sp_pid :: PID
  sp_process :: "('u, 'r, 'e) process"
  sp_inbox :: "'u Envelope Inbox"
  sp_engine :: Engine

definition spawn_process ::
    "nat \<Rightarrow> Engine \<Rightarrow> nat \<Rightarrow> ('u, 'r, 'e) process \<Rightarrow> ('u, 'r, 'e) spawned go option" where
  "spawn_process n e obj proc =
     (case NewInbox zero_Envelope (o_InboxSize (p_opts proc)) of
        Inl ex \<Rightarrow> Some (Inl ex)
      | Inr ib \<Rightarrow>
          map_option (\<lambda>(cs, pid, e'). Inr \<lparr>sp_calls = cs, sp_pid = pid, sp_process = proc, sp_inbox = ib, sp_engine = e'\<rparr>)
            (SpawnProc n e \<lparr>pr_kind = KProcess, pr_obj = obj, pr_PID = p_pid proc\<rparr>))"

text \<open>What the methods of a process do with its inbox.\<close>

definition proc_Send :: "nat \<Rightarrow> 'u any \<Rightarrow> PID option \<Rightarrow> 'u Envelope ib_cmd" where
  "proc_Send t msg sender = CallSend t False \<lparr>Msg = msg, Sender = sender\<rparr>"

definition proc_SendPriority :: "nat \<Rightarrow> 'u any \<Rightarrow> PID option \<Rightarrow> 'u Envelope ib_cmd" where
  "proc_SendPriority t msg sender = CallSend t True \<lparr>Msg = msg, Sender = sender\<rparr>"

definition proc_ClearMailbox :: "'u Envelope ib_cmd" where
  "proc_ClearMailbox = CallClear"

definition Spawn ::
    "nat \<Rightarrow> Engine \<Rightarrow> nat \<Rightarrow> nat \<Rightarrow> (nat \<Rightarrow> 'u any + 'r) \<Rightarrow> string \<Rightarrow> ('u, 'r, 'e) OptFunc list \<Rightarrow>
     ('u, 'r, 'e) spawned go option" where
  "Spawn n e obj rnd p kind opts =
     (let options = spawn_opts p kind opts (Itoa (int rnd))
      in spawn_process n e obj (newProcess (e_address e) options))"

text \<open>A function as an actor: the receiver holds nothing but the function.\<close>

definition newFuncReceiver :: "'f \<Rightarrow> nat \<Rightarrow> 'u any + 'f" where
  "newFuncReceiver f = (\<lambda>_. Inr f)"

definition funcReceiver_Receive :: "(('u, 'f) Context \<Rightarrow> ('u, 'f) Context \<times> 'e list \<times> 'u outcome) \<Rightarrow> ('u, 'f, 'e) ReceiveFunc" where
  "funcReceiver_Receive f c = f c"

definition SpawnFunc ::
    "nat \<Rightarrow> Engine \<Rightarrow> nat \<Rightarrow> nat \<Rightarrow> 'f \<Rightarrow> string \<Rightarrow> ('u, 'f, 'e) OptFunc list \<Rightarrow> ('u, 'f, 'e) spawned go option" where
  "SpawnFunc n e obj rnd f kind opts = Spawn n e obj rnd (newFuncReceiver f) kind opts"

definition c_PID :: "('u, 'r) Context \<Rightarrow> PID" where
  "c_PID c = c_pid c"

definition SpawnChild ::
    "nat \<Rightarrow> Engine \<Rightarrow> nat \<Rightarrow> nat \<Rightarrow> (nat \<Rightarrow> 'u any + 'r) \<Rightarrow> string \<Rightarrow> ('u, 'r, 'e) OptFunc list \<Rightarrow>
     ('v, 's) Context \<Rightarrow> (('u, 'r, 'e) spawned \<times> ('v, 's) Context) go option" where
  "SpawnChild n e obj rnd p name opts c =
     (let options = spawn_opts p (ID (c_PID c) @ pidSeparator @ name) opts (Itoa (int rnd));
          proc = newProcess (e_address e) options;
          proc = proc\<lparr>p_context := (p_context proc)\<lparr>c_parentCtx := Some (c_pid c)\<rparr>\<rparr>
      in map_option (\<lambda>r. go_bind r (\<lambda>sp.
           Inr (sp, c\<lparr>c_children := sm_Set (c_children c) (ID (sp_pid sp)) (sp_pid sp)\<rparr>)))
         (spawn_process n e obj proc))"

definition SpawnChildFunc ::
    "nat \<Rightarrow> Engine \<Rightarrow> nat \<Rightarrow> nat \<Rightarrow> 'f \<Rightarrow> string \<Rightarrow> ('u, 'f, 'e) OptFunc list \<Rightarrow>
     ('v, 's) Context \<Rightarrow> (('u, 'f, 'e) spawned \<times> ('v, 's) Context) go option" where
  "SpawnChildFunc n e obj rnd f name opts c = SpawnChild n e obj rnd (newFuncReceiver f) name opts c"

text \<open>\<^verbatim>\<open>NewEngine\<close>: the configuration's remote, if any, gives its address and is started with the engine,
  where it may register processes; a failed start is the error. Then the event stream is spawned.\<close>

record Remoter =
  rm_Address :: string
  rm_Start :: "Engine \<Rightarrow> string + Engine"

definition start_remote :: "Remoter option \<Rightarrow> string + Engine" where
  "start_remote remote =
     (let e = \<lparr>e_Registry = newRegistry, e_address = LocalLookupAddr, e_remote = False, e_eventStream = None\<rparr> in
      case remote of
        None \<Rightarrow> Inr e
      | Some r \<Rightarrow> rm_Start r (e\<lparr>e_remote := True, e_address := rm_Address r\<rparr>))"

definition NewEngine ::
    "nat \<Rightarrow> Remoter option \<Rightarrow> nat \<Rightarrow> nat \<Rightarrow> (nat \<Rightarrow> 'u any + 'r) \<Rightarrow> ((string + ('u, 'r, 'e) spawned) go) option" where
  "NewEngine n remote obj rnd newEventStream =
     (case start_remote remote of
        Inl err \<Rightarrow> Some (Inr (Inl (''failed to start remote: '' @ err)))
      | Inr e \<Rightarrow>
          map_option (\<lambda>r. go_bind r (\<lambda>sp.
              Inr (Inr (sp\<lparr>sp_engine := (sp_engine sp)\<lparr>e_eventStream := Some (sp_pid sp)\<rparr>\<rparr>))))
            (Spawn n e obj rnd newEventStream ''eventstream'' []))"

subsection \<open>Repeated messages\<close>

record 'u SendRepeater =
  sr_self :: "PID option"
  sr_target :: "PID option"
  sr_msg :: "'u any"
  sr_interval :: int
  sr_closed :: bool        \<comment> \<open>\<^verbatim>\<open>cancelch\<close> is closed\<close>
  sr_running :: bool       \<comment> \<open>the goroutine of \<^verbatim>\<open>start\<close> has not returned\<close>

text \<open>A nil PID is cloned to nil; \<^verbatim>\<open>Engine.SendRepeat\<close> dereferences the clone, the context's
  version does not. The ticker panics if the interval is not positive.\<close>

definition sr_start :: "'u SendRepeater \<Rightarrow> 'u SendRepeater go" where
  "sr_start sr = (if sr_interval sr \<le> 0 then Inl TickerInterval else Inr (sr\<lparr>sr_running := True\<rparr>))"

definition eng_SendRepeat :: "PID option \<Rightarrow> 'u any \<Rightarrow> int \<Rightarrow> 'u SendRepeater go" where
  "eng_SendRepeat pid msg interval = go_bind (deref pid) (\<lambda>clonedPID.
     sr_start \<lparr>sr_self = None, sr_target = Some clonedPID, sr_msg = msg, sr_interval = interval,
       sr_closed = False, sr_running = False\<rparr>)"

definition c_SendRepeat :: "('u, 'r) Context \<Rightarrow> PID option \<Rightarrow> 'v any \<Rightarrow> int \<Rightarrow> 'v SendRepeater go" where
  "c_SendRepeat c pid msg interval =
     sr_start \<lparr>sr_self = Some (c_pid c), sr_target = pid, sr_msg = msg, sr_interval = interval,
       sr_closed = False, sr_running = False\<rparr>"

text \<open>The goroutine's \<^verbatim>\<open>select\<close>: the ticker's branch (if it is chosen, \<open>True\<close>) sends, the other
  one is ready once the channel is closed. \<open>None\<close>: the chosen branch is not ready.\<close>

definition sr_select :: "nat \<Rightarrow> Engine \<Rightarrow> bool \<Rightarrow> 'u SendRepeater \<Rightarrow> ('u call list \<times> 'u SendRepeater) option" where
  "sr_select n e tick sr =
     (if \<not> sr_running sr then None
      else if tick then map_option (\<lambda>cs. (cs, sr)) (SendWithSender n e (sr_target sr) (sr_msg sr) (sr_self sr))
      else if sr_closed sr then Some ([], sr\<lparr>sr_running := False\<rparr>) else None)"

definition sr_Stop :: "'u SendRepeater \<Rightarrow> 'u SendRepeater go" where
  "sr_Stop sr = (if sr_closed sr then Inl CloseClosed else Inr (sr\<lparr>sr_closed := True\<rparr>))"

subsection \<open>What an actor does through its context\<close>

definition c_Request ::
    "nat \<Rightarrow> Engine \<Rightarrow> nat \<Rightarrow> nat \<Rightarrow> ('u, 'r) Context \<Rightarrow> PID option \<Rightarrow> 'u any \<Rightarrow> int \<Rightarrow>
     ('u call list \<times> 'u Response \<times> Engine) option" where
  "c_Request n e obj rnd c pid msg timeout = Request n e obj rnd pid msg timeout"

definition Respond :: "nat \<Rightarrow> Engine \<Rightarrow> ('u, 'r) Context \<Rightarrow> 'u any \<Rightarrow> 'u call list option" where
  "Respond n e c msg = (if c_sender c = None then Some [] else eng_Send n e (c_sender c) msg)"

definition c_Send :: "nat \<Rightarrow> Engine \<Rightarrow> ('u, 'r) Context \<Rightarrow> PID option \<Rightarrow> 'u any \<Rightarrow> 'u call list option" where
  "c_Send n e c pid msg = SendWithSender n e pid msg (Some (c_pid c))"

definition c_SendPriority :: "nat \<Rightarrow> Engine \<Rightarrow> ('u, 'r) Context \<Rightarrow> PID option \<Rightarrow> 'u any \<Rightarrow> 'u call list option" where
  "c_SendPriority n e c pid msg = SendPriorityWithSender n e pid msg (Some (c_pid c))"

definition Forward :: "nat \<Rightarrow> Engine \<Rightarrow> ('u, 'r) Context \<Rightarrow> PID option \<Rightarrow> 'u call list option" where
  "Forward n e c pid = SendWithSender n e pid (c_message c) (Some (c_pid c))"

definition c_GetPID :: "Engine \<Rightarrow> string \<Rightarrow> PID option" where
  "c_GetPID e i = (case rg_getByID (e_Registry e) i of None \<Rightarrow> None | Some proc \<Rightarrow> Some (pr_PID proc))"

definition Parent :: "('u, 'r) Context \<Rightarrow> PID option" where
  "Parent c = c_parentCtx c"

definition c_Child :: "('u, 'r) Context \<Rightarrow> string \<Rightarrow> PID option" where
  "c_Child c i = sm_Get (c_children c) i"

definition c_Sender :: "('u, 'r) Context \<Rightarrow> PID option" where
  "c_Sender c = c_sender c"

definition c_Message :: "('u, 'r) Context \<Rightarrow> 'u any" where
  "c_Message c = c_message c"

definition c_Receiver :: "('u, 'r) Context \<Rightarrow> 'r option" where
  "c_Receiver c = c_receiver c"

definition c_Context :: "('u, 'r) Context \<Rightarrow> nat" where
  "c_Context c = c_context c"

definition c_ClearMailbox :: "Engine \<Rightarrow> ('u, 'r) Context \<Rightarrow> 'u call list" where
  "c_ClearMailbox e c = eng_ClearMailbox e (Some (c_pid c))"


subsection \<open>Laws of spawning\<close>

lemma NewInbox_ok: "0 \<le> sz \<Longrightarrow> \<exists>ib. NewInbox z sz = Inr ib"
  by (auto simp: NewInbox_def New_def go_make_def)

lemma newProcess_simps [simp]:
  "p_opts (newProcess a opts) = opts" "p_pid (newProcess a opts) = NewPID a (o_Kind opts @ pidSeparator @ o_ID opts)"
  "c_pid (p_context (newProcess a opts)) = NewPID a (o_Kind opts @ pidSeparator @ o_ID opts)"
  by (simp_all add: newProcess_def Let_def newContext_def)

definition proc_ref :: "nat \<Rightarrow> PID \<Rightarrow> Processer" where
  "proc_ref obj pid = \<lparr>pr_kind = KProcess, pr_obj = obj, pr_PID = pid\<rparr>"

lemma spawn_process_new:
  assumes "NewInbox zero_Envelope (o_InboxSize (p_opts proc)) = Inr ib"
    and "rg_getByID (e_Registry e) (ID (p_pid proc)) = None"
  shows "spawn_process n e obj proc = Some (Inr
    \<lparr>sp_calls = [ProcStart (proc_ref obj (p_pid proc))], sp_pid = p_pid proc, sp_process = proc, sp_inbox = ib,
     sp_engine = e\<lparr>e_Registry := \<lparr>rg_lookup = gm_set (ID (p_pid proc)) (proc_ref obj (p_pid proc)) (rg_lookup (e_Registry e))\<rparr>\<rparr>\<rparr>)"
proof -
  have "reg_add n e (proc_ref obj (p_pid proc)) = Some ([ProcStart (proc_ref obj (p_pid proc))] :: 'a call list,
     e\<lparr>e_Registry := \<lparr>rg_lookup = gm_set (ID (p_pid proc)) (proc_ref obj (p_pid proc)) (rg_lookup (e_Registry e))\<rparr>\<rparr>)"
    using reg_add_new [of e "proc_ref obj (p_pid proc)" n] assms(2) by (simp add: proc_ref_def)
  then show ?thesis using assms(1) unfolding spawn_process_def SpawnProc_def proc_ref_def by simp
qed

lemma spawn_process_old:
  assumes "NewInbox zero_Envelope (o_InboxSize (p_opts proc)) = Inr ib"
    and "rg_getByID (e_Registry e) (ID (p_pid proc)) \<noteq> None" "es_ok e"
  shows "spawn_process (Suc n) e obj proc = Some (Inr
    \<lparr>sp_calls = to_stream e (ActorDuplicateIdEvent (Some (p_pid proc))), sp_pid = p_pid proc, sp_process = proc,
     sp_inbox = ib, sp_engine = e\<rparr>)"
proof -
  have "reg_add (Suc n) e (proc_ref obj (p_pid proc)) =
      Some (to_stream e (ActorDuplicateIdEvent (Some (p_pid proc))) :: 'a call list, e)"
    using reg_add_old [of e "proc_ref obj (p_pid proc)" n] assms(2,3) by (simp add: proc_ref_def)
  then show ?thesis using assms(1) unfolding spawn_process_def SpawnProc_def proc_ref_def by simp
qed

lemma spawn_opts_default:
  "spawn_opts p kind [] i = (DefaultOpts p)\<lparr>o_Kind := kind, o_ID := i\<rparr>"
  by (simp add: spawn_opts_def DefaultOpts_def)

lemma spawn_opts_id: "i \<noteq> [] \<Longrightarrow> spawn_opts p kind [WithID i] rnd = (DefaultOpts p)\<lparr>o_Kind := kind, o_ID := i\<rparr>"
  by (simp add: spawn_opts_def DefaultOpts_def WithID_def)


subsection \<open>The engine over time\<close>

text \<open>What changes an engine once it is made: processes being added, by \<^verbatim>\<open>Spawn\<close>, \<^verbatim>\<open>SpawnProc\<close> or
  \<^verbatim>\<open>Request\<close>, and removed, by \<^verbatim>\<open>cleanup\<close> or \<^verbatim>\<open>Result\<close>.\<close>

fun eng_step :: "Processer dir_op \<Rightarrow> Engine \<Rightarrow> Engine" where
  "eng_step (Enter proc) e = e\<lparr>e_Registry := snd (rg_add (e_Registry e) proc)\<rparr>"
| "eng_step (Leave i) e = e\<lparr>e_Registry := rg_leave (e_Registry e) i\<rparr>"

definition eng_ok :: "Engine \<Rightarrow> bool" where
  "eng_ok e \<longleftrightarrow> rg_ok (e_Registry e) \<and> es_ok e"

lemma rg_find_step:
  assumes "rg_ok r"
  shows "rg_ok (snd (rg_add r p))" "rg_getByID r i \<noteq> None \<Longrightarrow> rg_getByID (snd (rg_add r p)) i = rg_getByID r i"
    "rg_ok (rg_leave r j)" "i \<noteq> j \<Longrightarrow> rg_getByID (rg_leave r j) i = rg_getByID r i"
  using registry.dir_step_refines [OF assms, of "Enter p"] registry.dir_step_refines [OF assms, of "Leave j"]
  by (auto split: if_splits)

lemma eng_step_ok:
  assumes "eng_ok e" "\<And>i. op = Leave i \<Longrightarrow> e_eventStream e \<noteq> None \<Longrightarrow> i \<noteq> ID (the (e_eventStream e))"
  shows "eng_ok (eng_step op e) \<and> e_eventStream (eng_step op e) = e_eventStream e"
proof (cases op)
  case (Enter p)
  then show ?thesis using assms(1) rg_find_step(1,2) [of "e_Registry e"]
    by (auto simp: eng_ok_def es_ok_def rg_get_Some split: option.splits)
next
  case (Leave i)
  then show ?thesis using assms rg_find_step(3,4) [of "e_Registry e"]
    by (auto simp: eng_ok_def es_ok_def rg_get_Some split: option.splits)
qed

lemma eng_steps_ok:
  assumes "eng_ok e" "\<And>es. e_eventStream e = Some es \<Longrightarrow> Leave (ID es) \<notin> set ops"
  shows "eng_ok (fold eng_step ops e) \<and> e_eventStream (fold eng_step ops e) = e_eventStream e"
  using assms
proof (induction ops arbitrary: e)
  case (Cons op ops)
  have "eng_ok (eng_step op e) \<and> e_eventStream (eng_step op e) = e_eventStream e"
    by (rule eng_step_ok [OF Cons.prems(1)]) (use Cons.prems(2) in force)
  then show ?case using Cons.IH [of "eng_step op e"] Cons.prems(2) by auto
qed simp

lemma Spawn_new:
  fixes p :: "nat \<Rightarrow> 'u any + 'r" and opts :: "('u, 'r, 'e) OptFunc list"
  assumes "0 \<le> o_InboxSize opt" "rg_getByID (e_Registry e) (o_Kind opt @ pidSeparator @ o_ID opt) = None"
    and opt: "opt = spawn_opts p kind opts (Itoa (int rnd))"
    and pid: "pid = NewPID (e_address e) (o_Kind opt @ pidSeparator @ o_ID opt)"
  shows "\<exists>ib. Spawn n e obj rnd p kind opts = Some (Inr
    \<lparr>sp_calls = [ProcStart (proc_ref obj pid)], sp_pid = pid, sp_process = newProcess (e_address e) opt, sp_inbox = ib,
     sp_engine = e\<lparr>e_Registry := \<lparr>rg_lookup = gm_set (ID pid) (proc_ref obj pid) (rg_lookup (e_Registry e))\<rparr>\<rparr>\<rparr>)"
proof -
  obtain ib :: "'u Envelope Inbox" where "NewInbox zero_Envelope (o_InboxSize (p_opts (newProcess (e_address e) opt))) = Inr ib"
    using NewInbox_ok [OF assms(1), of zero_Envelope] by auto
  from spawn_process_new [OF this, of e n obj] show ?thesis
    using assms(2) opt pid by (auto simp: Spawn_def Let_def NewPID_def)
qed

lemma Spawn_engine:
  fixes p :: "nat \<Rightarrow> 'u any + 'r" and opts :: "('u, 'r, 'e) OptFunc list"
  assumes "es_ok e" "0 \<le> o_InboxSize opt" and opt: "opt = spawn_opts p kind opts (Itoa (int rnd))"
  shows "\<exists>sp. Spawn (Suc n) e obj rnd p kind opts = Some (Inr sp) \<and>
    sp_pid sp = NewPID (e_address e) (o_Kind opt @ pidSeparator @ o_ID opt) \<and>
    sp_engine sp = eng_step (Enter (proc_ref obj (sp_pid sp))) e"
proof -
  let ?proc = "newProcess (e_address e) opt"
  obtain ib where ib: "NewInbox (zero_Envelope :: 'u Envelope) (o_InboxSize (p_opts ?proc)) = Inr ib"
    using NewInbox_ok [OF assms(2), of "zero_Envelope :: 'u Envelope"] by auto
  show ?thesis
  proof (cases "rg_getByID (e_Registry e) (ID (p_pid ?proc))")
    case None
    then have "e\<lparr>e_Registry := \<lparr>rg_lookup = gm_set (ID (p_pid ?proc)) (proc_ref obj (p_pid ?proc)) (rg_lookup (e_Registry e))\<rparr>\<rparr> =
        eng_step (Enter (proc_ref obj (p_pid ?proc))) e"
      by (simp add: rg_add_def rg_getByID_def proc_ref_def)
    then show ?thesis using spawn_process_new [OF ib None, of "Suc n" obj] by (simp add: Spawn_def opt [symmetric] Let_def)
  next
    case (Some q)
    then have "eng_step (Enter (proc_ref obj (p_pid ?proc))) e = e"
      by (simp add: rg_add_def rg_getByID_def proc_ref_def)
    then show ?thesis using spawn_process_old [OF ib _ assms(1), of n obj] Some by (simp add: Spawn_def opt [symmetric] Let_def)
  qed
qed

lemma Spawn_returns:
  fixes p :: "nat \<Rightarrow> 'u any + 'r" and opts :: "('u, 'r, 'e) OptFunc list"
  assumes "es_ok e" "0 \<le> o_InboxSize (spawn_opts p kind opts (Itoa (int rnd)))"
  shows "\<exists>sp. Spawn (Suc n) e obj rnd p kind opts = Some (Inr sp)"
  using Spawn_engine [OF assms(1) assms(2) refl, of n obj] by blast

text \<open>A request enters its response into the registry and sends; the result takes it out again.\<close>

lemma Request_engine:
  assumes "eng_ok e"
  shows "\<exists>cs resp proc. Request (Suc n) e obj rnd pid msg timeout = Some (cs, resp, eng_step (Enter proc) e) \<and>
    rs_result resp = [] \<and> ID (rs_pid resp) = ''response'' @ pidSeparator @ Itoa (int rnd)"
proof -
  let ?resp = "NewResponse e timeout rnd :: 'a Response"
  let ?proc = "\<lparr>pr_kind = KResponse, pr_obj = obj, pr_PID = rs_pid ?resp\<rparr>"
  have "es_ok e" using assms by (simp add: eng_ok_def)
  then obtain cs :: "'a call list" where "reg_add (Suc n) e ?proc = Some (cs, eng_step (Enter ?proc) e)"
    by (cases "rg_add (e_Registry e) ?proc")
      (auto simp: reg_add_def Let_def BroadcastEvent_ok rg_add_def simp del: BroadcastEvent.simps split: option.splits)
  moreover have "es_ok (eng_step (Enter ?proc) e)" using eng_step_ok [OF assms, of "Enter ?proc"] by (simp add: eng_ok_def)
  ultimately show ?thesis
    by (auto simp: Request_def Let_def SendWithSender_def send_ok NewResponse_def NewPID_def simp del: send.simps eng_step.simps)
qed

text \<open>A remote that starts leaves a well-formed registry in which the ID \<open>i\<close> is free.\<close>

definition remote_ok :: "Remoter option \<Rightarrow> string \<Rightarrow> bool" where
  "remote_ok remote i = (case start_remote remote of
     Inl _ \<Rightarrow> True | Inr e \<Rightarrow> rg_ok (e_Registry e) \<and> rg_getByID (e_Registry e) i = None)"

lemma remote_ok_None [simp]: "remote_ok None i"
  by (simp add: remote_ok_def start_remote_def)

lemma NewEngine_ok:
  fixes sp :: "('u, 'r, 'e) spawned"
  assumes "NewEngine n remote obj rnd es = Some (Inr (Inr sp))" "remote_ok remote (''eventstream/'' @ Itoa (int rnd))"
  shows "eng_ok (sp_engine sp) \<and>
    (\<exists>a. e_eventStream (sp_engine sp) = Some (NewPID a (''eventstream/'' @ Itoa (int rnd))))"
proof -
  obtain e where e: "start_remote remote = Inr e"
    using assms(1) by (cases "start_remote remote") (auto simp: NewEngine_def)
  then have ok: "rg_ok (e_Registry e)" "rg_getByID (e_Registry e) (''eventstream/'' @ Itoa (int rnd)) = None"
    using assms(2) by (simp_all add: remote_ok_def)
  define opt :: "('u, 'r, 'e) Opts" where "opt = spawn_opts es ''eventstream'' [] (Itoa (int rnd))"
  have o: "o_Kind opt @ pidSeparator @ o_ID opt = ''eventstream/'' @ Itoa (int rnd)" "0 \<le> o_InboxSize opt"
    by (simp_all add: opt_def spawn_opts_default pidSeparator_def DefaultOpts_def defaultInboxSize_def)
  let ?pid = "NewPID (e_address e) (''eventstream/'' @ Itoa (int rnd))"
  from Spawn_new [OF o(2) _ opt_def refl, of e n obj] ok(2) o(1) obtain ib where
    sp: "Spawn n e obj rnd es ''eventstream'' [] = Some (Inr
      \<lparr>sp_calls = [ProcStart (proc_ref obj ?pid)], sp_pid = ?pid, sp_process = newProcess (e_address e) opt, sp_inbox = ib,
       sp_engine = e\<lparr>e_Registry := \<lparr>rg_lookup = gm_set (ID ?pid) (proc_ref obj ?pid) (rg_lookup (e_Registry e))\<rparr>\<rparr>\<rparr>)"
    by auto
  then have "sp_engine sp = e\<lparr>e_Registry := \<lparr>rg_lookup = gm_set (ID ?pid) (proc_ref obj ?pid) (rg_lookup (e_Registry e))\<rparr>,
      e_eventStream := Some ?pid\<rparr>"
    using assms(1) e by (auto simp: NewEngine_def)
  then show ?thesis using ok
    by (auto simp: eng_ok_def es_ok_def rg_ok_def rg_get_def NewPID_def proc_ref_def split: if_splits)
qed

subsection \<open>Properties\<close>

text \<open>C20: A new engine has its event stream registered, and no sequence of additions and removals of other
  processes changes that: at every later moment sending, with or without priority, returns with the one call of the
  routing specification. The remote, if there is one, must leave the registry well formed and without the
  event stream's ID.\<close>

theorem engine_always_routes:
  assumes "NewEngine n remote obj rnd es = Some (Inr (Inr sp))" "0 < m"
    and "remote_ok remote (''eventstream/'' @ Itoa (int rnd))"
    and "Leave (''eventstream/'' @ Itoa (int rnd)) \<notin> set ops"
  shows "send m (fold eng_step ops (sp_engine sp)) pid msg sender =
      Some (route False (fold eng_step ops (sp_engine sp)) pid msg sender) \<and>
    sendPriority m (fold eng_step ops (sp_engine sp)) pid msg sender =
      Some (route True (fold eng_step ops (sp_engine sp)) pid msg sender)"
proof -
  obtain k where m: "m = Suc k" using assms(2) by (cases m) auto
  have "eng_ok (fold eng_step ops (sp_engine sp))"
    using NewEngine_ok [OF assms(1,3)] eng_steps_ok [of "sp_engine sp" ops] assms(4) by (auto simp: NewPID_def)
  then have "es_ok (fold eng_step ops (sp_engine sp))" by (simp add: eng_ok_def)
  then show ?thesis by (simp add: m send_ok sendPriority_ok del: send.simps)
qed

theorem engine_always_routes_witness:
  "\<exists>sp. NewEngine 1 None 0 5 (\<lambda>_. Inr ()) = Some (Inr (Inr (sp :: (nat, unit, nat) spawned))) \<and>
     send 1 (fold eng_step [Enter demo_proc, Leave ''foo/2'', Enter demo_proc] (sp_engine sp)) None (User (3::nat)) None = Some []"
proof -
  have "(case NewEngine 1 None 0 5 (\<lambda>_. Inr ()) of Some (Inr (Inr (sp :: (nat, unit, nat) spawned))) \<Rightarrow> True | _ \<Rightarrow> False)"
    by code_simp
  then obtain sp :: "(nat, unit, nat) spawned" where sp: "NewEngine 1 None 0 5 (\<lambda>_. Inr ()) = Some (Inr (Inr sp))"
    by (auto split: option.splits sum.splits)
  have "Leave (''eventstream/'' @ Itoa (int 5)) \<notin> set [Enter demo_proc, Leave ''foo/2'', Enter demo_proc]"
    by simp
  from engine_always_routes [OF sp _ remote_ok_None this, of 1 None "User (3::nat)" None] sp show ?thesis
    by (auto simp: route_def simp del: send.simps)
qed

text \<open>Spawning under a free name enters the new process under kind and ID, starts it, returns its PID and leaves every
  other name alone. Spawning under a name that is taken changes nothing but broadcasts a duplicate-ID event; the PID
  it returns is that of the process that was there before.\<close>

theorem spawn_registers:
  fixes p :: "nat \<Rightarrow> 'u any + 'r" and opts :: "('u, 'r, 'e) OptFunc list"
  assumes opt: "opt = spawn_opts p kind opts (Itoa (int rnd))" "0 \<le> o_InboxSize opt"
    and pid: "pid = NewPID (e_address e) (o_Kind opt @ pidSeparator @ o_ID opt)" and "es_ok e" "0 < n"
  shows "\<exists>sp. Spawn n e obj rnd p kind opts = Some (Inr sp) \<and> sp_pid sp = pid \<and>
    (case rg_getByID (e_Registry e) (ID pid) of
       None \<Rightarrow> sp_calls sp = [ProcStart (proc_ref obj pid)] \<and>
         rg_getByID (e_Registry (sp_engine sp)) = (rg_getByID (e_Registry e))(ID pid \<mapsto> proc_ref obj pid)
     | Some q \<Rightarrow> sp_calls sp = to_stream e (ActorDuplicateIdEvent (Some pid)) \<and> sp_engine sp = e \<and>
         rg_get (e_Registry (sp_engine sp)) (Some (sp_pid sp)) = Some q)"
proof (cases "rg_getByID (e_Registry e) (ID pid)")
  case None
  then show ?thesis using Spawn_new [OF opt(2) _ opt(1) pid, of n obj] pid
    by (auto simp: NewPID_def rg_getByID_def fun_eq_iff)
next
  case (Some q)
  obtain k where n: "n = Suc k" using assms(5) by (cases n) auto
  obtain ib :: "'u Envelope Inbox" where "NewInbox zero_Envelope (o_InboxSize (p_opts (newProcess (e_address e) opt))) = Inr ib"
    using NewInbox_ok [OF opt(2), of zero_Envelope] by auto
  from spawn_process_old [OF this, of e k obj] Some assms show ?thesis
    by (auto simp: Spawn_def Let_def n rg_get_Some)
qed

theorem spawn_registers_witness:
  "\<exists>sp :: (nat, unit, nat) spawned. Spawn 1 demo_engine 8 1 (\<lambda>_. Inr ()) ''foo'' [WithID ''2''] = Some (Inr sp) \<and>
     sp_engine sp = demo_engine"
proof -
  let ?o = "spawn_opts (\<lambda>_. Inr ()) ''foo'' [WithID ''2''] (Itoa (int 1)) :: (nat, unit, nat) Opts"
  have "0 \<le> o_InboxSize ?o" "es_ok demo_engine"
    "rg_getByID (e_Registry demo_engine) (ID (NewPID (e_address demo_engine) (o_Kind ?o @ pidSeparator @ o_ID ?o))) = Some demo_proc"
    by (code_simp, code_simp, code_simp)
  with spawn_registers [OF refl this(1) refl this(2), of 1 8] show ?thesis by auto
qed


text \<open>A spawned child knows its parent and the parent knows the child, under an ID that extends the parent's; the other
  children are kept. If the child's ID was taken, the parent still lists it: its child is then whatever process
  holds the ID, and stopping the parent poisons that process.\<close>

theorem spawn_child_tree:
  fixes p :: "nat \<Rightarrow> 'u any + 'r" and opts :: "('u, 'r, 'e) OptFunc list"
  assumes opt: "opt = spawn_opts p (ID (c_pid c) @ pidSeparator @ name) opts (Itoa (int rnd))" "0 \<le> o_InboxSize opt"
    and pid: "pid = NewPID (e_address e) (o_Kind opt @ pidSeparator @ o_ID opt)" and "es_ok e" "0 < n"
  shows "\<exists>sp c'. SpawnChild n e obj rnd p name opts c = Some (Inr (sp, c')) \<and> sp_pid sp = pid \<and>
    Parent (p_context (sp_process sp)) = Some (c_pid c) \<and>
    c_Child c' = (c_Child c)(ID pid \<mapsto> pid) \<and>
    (\<forall>q. rg_getByID (e_Registry e) (ID pid) = Some q \<longrightarrow> rg_get (e_Registry (sp_engine sp)) (c_Child c' (ID pid)) = Some q)"
proof -
  obtain k where n: "n = Suc k" using assms(5) by (cases n) auto
  define proc where "proc = (newProcess (e_address e) opt)\<lparr>p_context :=
    (p_context (newProcess (e_address e) opt))\<lparr>c_parentCtx := Some (c_pid c)\<rparr>\<rparr>"
  have pr: "p_opts proc = opt" "p_pid proc = pid" "Parent (p_context proc) = Some (c_pid c)"
    by (simp_all add: proc_def pid Parent_def)
  obtain ib :: "'u Envelope Inbox" where ib: "NewInbox zero_Envelope (o_InboxSize (p_opts proc)) = Inr ib"
    using NewInbox_ok [OF opt(2), of zero_Envelope] pr(1) by auto
  have "\<exists>sp. spawn_process n e obj proc = Some (Inr sp) \<and> sp_pid sp = pid \<and> sp_process sp = proc \<and>
      (rg_getByID (e_Registry e) (ID pid) \<noteq> None \<longrightarrow> sp_engine sp = e)"
    using spawn_process_new [OF ib, of e n obj] spawn_process_old [OF ib, of e k obj] assms(4) pr n
    by (cases "rg_getByID (e_Registry e) (ID pid)") auto
  then show ?thesis using pr
    by (auto simp: SpawnChild_def c_PID_def Let_def proc_def [symmetric] opt(1) [symmetric] c_Child_def sm_Get_def sm_Set_def
        fun_eq_iff rg_get_Some)
qed

theorem spawn_child_tree_witness:
  "\<exists>(sp :: (nat, unit, nat) spawned) c'.
     SpawnChild 1 demo_engine 8 1 (\<lambda>_. Inr ()) ''bar'' [] (newContext 0 (pr_PID demo_proc) :: (nat, unit) Context) =
       Some (Inr (sp, c')) \<and> sp_pid sp = NewPID ''local'' ''foo/2/bar/1'' \<and>
     c_Child c' ''foo/2/bar/1'' = Some (NewPID ''local'' ''foo/2/bar/1'')"
proof -
  let ?c = "newContext 0 (pr_PID demo_proc) :: (nat, unit) Context"
  let ?o = "spawn_opts (\<lambda>_. Inr ()) (ID (c_pid ?c) @ pidSeparator @ ''bar'') [] (Itoa (int 1)) :: (nat, unit, nat) Opts"
  have "0 \<le> o_InboxSize ?o" "es_ok demo_engine"
    "NewPID (e_address demo_engine) (o_Kind ?o @ pidSeparator @ o_ID ?o) = NewPID ''local'' ''foo/2/bar/1''"
    by (code_simp, code_simp, code_simp)
  with spawn_child_tree [OF refl this(1) this(3) [symmetric] this(2), of 1 8] show ?thesis
    by (auto simp: NewPID_def)
qed

end
