(* ===== verification/Action.thy ===== *)
theory Action
  imports Context
begin

text \<open>
  Actions of an actor: the calls it makes on the engine's processes and on the remote, in program order, and a panic
  or a value. \<open>None\<close> is a broadcast that never returns.
\<close>

type_synonym ('u, 'a) action = "('u call list \<times> 'a go) option"

definition act_ret :: "'a \<Rightarrow> ('u, 'a) action" where
  "act_ret x = Some ([], Inr x)"

definition act_go :: "'a go \<Rightarrow> ('u, 'a) action" where
  "act_go x = Some ([], x)"

definition act_do :: "'u call list option \<Rightarrow> 'a \<Rightarrow> ('u, 'a) action" where
  "act_do cs x = map_option (\<lambda>cs. (cs, Inr x)) cs"

definition act_bind :: "('u, 'a) action \<Rightarrow> ('a \<Rightarrow> ('u, 'b) action) \<Rightarrow> ('u, 'b) action" where
  "act_bind m f =
     (case m of
        None \<Rightarrow> None
      | Some (cs, Inl p) \<Rightarrow> Some (cs, Inl p)
      | Some (cs, Inr x) \<Rightarrow> map_option (\<lambda>(cs', r). (cs @ cs', r)) (f x))"

fun act_each :: "('b \<Rightarrow> 's \<Rightarrow> ('u, 's) action) \<Rightarrow> 'b list \<Rightarrow> 's \<Rightarrow> ('u, 's) action" where
  "act_each f [] s = act_ret s"
| "act_each f (x # xs) s = act_bind (f x s) (act_each f xs)"

lemma act_bind_simps [simp]:
  "act_bind (act_ret x) f = f x" "act_bind None f = None" "act_bind (Some (cs, Inl p)) f = Some (cs, Inl p)"
  "act_bind (Some (cs, Inr x)) f = map_option (\<lambda>(cs', r). (cs @ cs', r)) (f x)"
  "act_bind (act_do (Some cs) x) f = map_option (\<lambda>(cs', r). (cs @ cs', r)) (f x)"
  "act_bind (act_go (Inr x)) f = f x" "act_bind (act_go (Inl p)) f = Some ([], Inl p)"
  by (cases "f x"; simp add: act_bind_def act_ret_def act_do_def act_go_def)+

lemma act_do_Some [simp]: "act_do (Some cs) x = Some (cs, Inr x)"
  by (simp add: act_do_def)

lemma Respond_ok: "es_ok e \<Longrightarrow> \<exists>cs. Respond (Suc n) e c msg = Some cs"
  by (simp add: Respond_def eng_Send_def send_ok del: send.simps)

lemma Poison_ok: "es_ok e \<Longrightarrow> \<exists>cs. Poison (Suc n) e e cancel pid = Some cs"
  by (simp add: Poison_def sendPoisonPill_def Let_def SendLocal_ok BroadcastEvent_ok del: SendLocal.simps BroadcastEvent.simps)

subsection \<open>Children\<close>

text \<open>Spawning a child with the default options but its own ID \<open>i\<close>: it is registered under the parent's ID, the name and \<open>i\<close>.\<close>

lemma SpawnChild_gen:
  fixes p :: "nat \<Rightarrow> 'u any + 'r" and c :: "('v, 's) Context" and opts :: "('u, 'r, 'e) OptFunc list"
  assumes "es_ok e" "pid = NewPID (e_address e) (ID (c_pid c) @ pidSeparator @ name @ pidSeparator @ i)"
    "\<And>kind. spawn_opts p kind opts (Itoa (int rnd)) = (DefaultOpts p)\<lparr>o_Kind := kind, o_ID := i\<rparr>"
  shows "\<exists>sp. SpawnChild (Suc n) e obj rnd p name opts c =
      Some (Inr (sp, c\<lparr>c_children := sm_Set (c_children c) (ID pid) pid\<rparr>)) \<and>
    sp_pid sp = pid \<and> sp_engine sp = eng_step (Enter (proc_ref obj pid)) e \<and>
    sp_calls sp = (if rg_getByID (e_Registry e) (ID pid) = None then [ProcStart (proc_ref obj pid)] else to_stream e (ActorDuplicateIdEvent (Some pid)))"
proof -
  let ?opt = "spawn_opts p (ID (c_PID c) @ pidSeparator @ name) opts (Itoa (int rnd))"
  define proc where "proc = (newProcess (e_address e) ?opt)
    \<lparr>p_context := (p_context (newProcess (e_address e) ?opt))\<lparr>c_parentCtx := Some (c_pid c)\<rparr>\<rparr>"
  have pid: "p_pid proc = pid" by (simp add: proc_def assms(2,3) c_PID_def)
  have "0 \<le> o_InboxSize (p_opts proc)" by (simp add: proc_def assms(3) DefaultOpts_def defaultInboxSize_def)
  then obtain ib where ib: "NewInbox (zero_Envelope :: 'u Envelope) (o_InboxSize (p_opts proc)) = Inr ib"
    using NewInbox_ok [of "o_InboxSize (p_opts proc)" "zero_Envelope :: 'u Envelope"] by auto
  have ch: "SpawnChild (Suc n) e obj rnd p name opts c = map_option (\<lambda>r. go_bind r (\<lambda>sp.
      Inr (sp, c\<lparr>c_children := sm_Set (c_children c) (ID (sp_pid sp)) (sp_pid sp)\<rparr>))) (spawn_process (Suc n) e obj proc)"
    by (simp add: SpawnChild_def Let_def proc_def)
  show ?thesis
  proof (cases "rg_getByID (e_Registry e) (ID pid)")
    case None
    then show ?thesis using spawn_process_new [OF ib, of e "Suc n" obj] pid
      by (auto simp: ch rg_add_def rg_getByID_def Let_def proc_ref_def)
  next
    case (Some q)
    then have "spawn_process (Suc n) e obj proc = Some (Inr
      \<lparr>sp_calls = to_stream e (ActorDuplicateIdEvent (Some pid)), sp_pid = pid, sp_process = proc, sp_inbox = ib, sp_engine = e\<rparr>)"
      using spawn_process_old [OF ib _ assms(1)] pid by simp
    moreover have "eng_step (Enter (proc_ref obj pid)) e = e" using Some by (simp add: rg_add_def rg_getByID_def proc_ref_def)
    ultimately show ?thesis using Some by (auto simp: ch simp del: eng_step.simps)
  qed
qed

text \<open>With no options \<open>i\<close> is the number drawn.\<close>

lemmas SpawnChild_ok = SpawnChild_gen [OF _ _ spawn_opts_default]

lemmas SpawnChild_id = SpawnChild_gen [OF _ _ spawn_opts_id]

end
