(* ===== verification/Members.thy ===== *)
theory Members
  imports Action KeyedSet
begin

text \<open>
  The data of the cluster package: members and their set (\<^verbatim>\<open>src/cluster/member_set.go\<close>,
  \<^verbatim>\<open>src/cluster/util.go\<close>), kinds (\<^verbatim>\<open>src/cluster/kind.go\<close>), activation configurations
  (\<^verbatim>\<open>src/cluster/activation.go\<close>), and the messages and events that the agents, the providers and
  the cluster exchange. A member set is a Go map; the operations that range over it take
  the iteration order as an argument.
\<close>

subsection \<open>Members\<close>

record Member =
  m_ID :: string
  m_Host :: string
  m_Region :: string
  m_Kinds :: "string list"

record CID =
  cid_PID :: "PID option"
  cid_ID :: string
  cid_Kind :: string
  cid_Region :: string

definition memberToProviderPID :: "Member \<Rightarrow> PID" where
  "memberToProviderPID m = NewPID (m_Host m) (''provider/'' @ m_ID m)"

definition NewCID :: "PID option \<Rightarrow> string \<Rightarrow> string \<Rightarrow> string \<Rightarrow> CID" where
  "NewCID pid kind i region = \<lparr>cid_PID = pid, cid_ID = i, cid_Kind = kind, cid_Region = region\<rparr>"

definition cid_Equals :: "CID \<Rightarrow> CID \<Rightarrow> bool" where
  "cid_Equals cid other \<longleftrightarrow> cid_ID cid = cid_ID other \<and> cid_Kind cid = cid_Kind other"

definition m_PID :: "Member \<Rightarrow> PID" where
  "m_PID m = NewPID (m_Host m) (''cluster/'' @ m_ID m)"

definition m_Equals :: "Member \<Rightarrow> Member \<Rightarrow> bool" where
  "m_Equals m other \<longleftrightarrow> m_Host m = m_Host other \<and> m_ID m = m_ID other"

fun has_kind_loop :: "string \<Rightarrow> string list \<Rightarrow> bool" where
  "has_kind_loop kind [] = False"
| "has_kind_loop kind (k # ks) = (if k = kind then True else has_kind_loop kind ks)"

definition HasKind :: "Member \<Rightarrow> string \<Rightarrow> bool" where
  "HasKind m kind = has_kind_loop kind (m_Kinds m)"

lemma HasKind_iff [simp]: "HasKind m kind \<longleftrightarrow> kind \<in> set (m_Kinds m)"
proof -
  have "has_kind_loop kind ks \<longleftrightarrow> kind \<in> set ks" for ks by (induction ks) auto
  then show ?thesis by (simp add: HasKind_def)
qed

subsection \<open>The set of members\<close>

record MemberSet =
  ms_members :: "(string, Member) gomap"

definition NewMemberSet :: "Member list \<Rightarrow> MemberSet" where
  "NewMemberSet members = \<lparr>ms_members = foldl (\<lambda>m member. gm_set (m_ID member) member m) [] members\<rparr>"

definition ms_Len :: "MemberSet \<Rightarrow> nat" where
  "ms_Len s = length (ms_members s)"

definition ms_GetByHost :: "MemberSet \<Rightarrow> string list \<Rightarrow> string \<Rightarrow> Member option" where
  "ms_GetByHost s ks host =
     foldl (\<lambda>theMember (_, member). if m_Host member = host then Some member else theMember) None
       (gm_range (ms_members s) ks)"

definition ms_Add :: "MemberSet \<Rightarrow> Member \<Rightarrow> MemberSet" where
  "ms_Add s member = s\<lparr>ms_members := gm_set (m_ID member) member (ms_members s)\<rparr>"

definition ms_Contains :: "MemberSet \<Rightarrow> Member \<Rightarrow> bool" where
  "ms_Contains s member = gm_has (ms_members s) (m_ID member)"

definition ms_Remove :: "MemberSet \<Rightarrow> Member \<Rightarrow> MemberSet" where
  "ms_Remove s member = s\<lparr>ms_members := gm_del (m_ID member) (ms_members s)\<rparr>"

definition ms_RemoveByHost :: "MemberSet \<Rightarrow> string list \<Rightarrow> string \<Rightarrow> MemberSet" where
  "ms_RemoveByHost s ks host =
     (case ms_GetByHost s ks host of None \<Rightarrow> s | Some member \<Rightarrow> ms_Remove s member)"

definition ms_Slice :: "MemberSet \<Rightarrow> string list \<Rightarrow> Member list" where
  "ms_Slice s ks = map snd (gm_range (ms_members s) ks)"

text \<open>\<^verbatim>\<open>ForEach\<close>: the callback changes a state and says whether to go on.\<close>

fun each_member :: "(Member \<Rightarrow> 's \<Rightarrow> bool \<times> 's) \<Rightarrow> Member list \<Rightarrow> 's \<Rightarrow> 's" where
  "each_member f [] st = st"
| "each_member f (m # ms) st = (case f m st of (go_on, st') \<Rightarrow> if go_on then each_member f ms st' else st')"

definition ms_ForEach :: "MemberSet \<Rightarrow> string list \<Rightarrow> (Member \<Rightarrow> 's \<Rightarrow> bool \<times> 's) \<Rightarrow> 's \<Rightarrow> 's" where
  "ms_ForEach s ks f st = each_member f (map snd (gm_range (ms_members s) ks)) st"

definition ms_Except :: "MemberSet \<Rightarrow> string list \<Rightarrow> Member list \<Rightarrow> Member list" where
  "ms_Except s ks members =
     (let m = foldl (\<lambda>m member. gm_set (m_ID member) member m) [] members in
      foldl (\<lambda>except (_, member). if \<not> gm_has m (m_ID member) then except @ [member] else except) []
        (gm_range (ms_members s) ks))"

definition ms_FilterByKind :: "MemberSet \<Rightarrow> string list \<Rightarrow> string \<Rightarrow> Member list" where
  "ms_FilterByKind s ks kind =
     foldl (\<lambda>members (_, member). if HasKind member kind then members @ [member] else members) []
       (gm_range (ms_members s) ks)"

text \<open>Every member is filed under its ID.\<close>

definition ms_ok :: "MemberSet \<Rightarrow> bool" where
  "ms_ok s \<longleftrightarrow> gm_ok (ms_members s) \<and> (\<forall>i m. gm_get (ms_members s) i = Some m \<longrightarrow> m_ID m = i)"

definition ms_set :: "MemberSet \<Rightarrow> Member set" where
  "ms_set s = {m. gm_get (ms_members s) (m_ID m) = Some m}"

lemma ms_okD: "ms_ok s \<Longrightarrow> gm_get (ms_members s) i = Some m \<Longrightarrow> m_ID m = i"
  by (simp add: ms_ok_def)

lemma ms_ok_simps [simp]:
  "ms_ok s \<Longrightarrow> ms_ok (ms_Add s m)" "ms_ok s \<Longrightarrow> ms_ok (ms_Remove s m)"
  by (simp_all add: ms_ok_def ms_Add_def ms_Remove_def)

lemma NewMemberSet_ok [simp]: "ms_ok (NewMemberSet members)"
proof -
  have "ms_ok s \<Longrightarrow> ms_ok (foldl ms_Add s members)" for s
    by (induction members arbitrary: s) simp_all
  moreover have "ms_members (foldl ms_Add s members) = foldl (\<lambda>m member. gm_set (m_ID member) member m) (ms_members s) members" for s
    by (induction members arbitrary: s) (simp_all add: ms_Add_def)
  then have "foldl ms_Add \<lparr>ms_members = []\<rparr> members = NewMemberSet members"
    by (simp add: NewMemberSet_def)
  moreover have "ms_ok \<lparr>ms_members = []\<rparr>" by (simp add: ms_ok_def)
  ultimately show ?thesis by metis
qed

lemma keys_file_members:
  "gm_keys (foldl (\<lambda>m member. gm_set (m_ID member) member m) m members) = gm_keys m \<union> m_ID ` set members"
  by (induction members arbitrary: m) auto

interpretation members: keyed_set ms_ok m_ID "\<lambda>s. gm_keys (ms_members s)" ms_Add ms_Remove ms_Contains ms_Len
  by unfold_locales
    (auto simp: ms_Contains_def ms_Len_def ms_Add_def ms_Remove_def gm_length_card ms_ok_def split: if_splits)

lemma keys_NewMemberSet [simp]: "gm_keys (ms_members (NewMemberSet members)) = m_ID ` set members"
  by (simp add: NewMemberSet_def keys_file_members)

lemma foldl_filter:
  "foldl (\<lambda>acc (k, x). if P x then acc @ [x] else acc) acc xs = acc @ filter P (map snd xs)"
  by (induction xs arbitrary: acc) auto

lemma ms_Except_eq:
  "ms_Except s ks members = filter (\<lambda>m. m_ID m \<notin> m_ID ` set members) (ms_Slice s ks)"
  by (simp add: ms_Except_def ms_Slice_def keys_file_members foldl_filter)

lemma ms_FilterByKind_eq: "ms_FilterByKind s ks kind = filter (\<lambda>m. kind \<in> set (m_Kinds m)) (ms_Slice s ks)"
  by (simp add: ms_FilterByKind_def ms_Slice_def foldl_filter)

lemma set_ms_Slice:
  assumes "ms_ok s" "gm_order (ms_members s) ks"
  shows "set (ms_Slice s ks) = ms_set s"
proof (rule set_eqI)
  fix m
  have "m \<in> set (ms_Slice s ks) \<longleftrightarrow> (\<exists>i. i \<in> gm_keys (ms_members s) \<and> gm_get (ms_members s) i = Some m)"
    using assms(2) by (simp add: ms_Slice_def gm_order_def snd_gm_range)
  also have "\<dots> \<longleftrightarrow> m \<in> ms_set s"
    using ms_okD [OF assms(1), of _ m] gm_get_Some_in_keys [of "ms_members s" _ m] by (auto simp: ms_set_def)
  finally show "m \<in> set (ms_Slice s ks) \<longleftrightarrow> m \<in> ms_set s" .
qed

lemma distinct_ms_Slice:
  assumes "ms_ok s" "gm_order (ms_members s) ks"
  shows "distinct (map m_ID (ms_Slice s ks))"
proof -
  have "map m_ID (ms_Slice s ks) = map fst (gm_range (ms_members s) ks)"
    using assms(1) by (auto simp: ms_Slice_def ms_ok_def)
  then show ?thesis using assms(2) map_fst_gm_range [of ks "ms_members s"] by (simp add: gm_order_def)
qed

lemma ms_keys:
  assumes "ms_ok s"
  shows "gm_keys (ms_members s) = m_ID ` ms_set s"
proof
  show "gm_keys (ms_members s) \<subseteq> m_ID ` ms_set s"
  proof
    fix i assume "i \<in> gm_keys (ms_members s)"
    then obtain m where "gm_get (ms_members s) i = Some m" using gm_get_None_iff [of "ms_members s" i] by auto
    then show "i \<in> m_ID ` ms_set s" using ms_okD [OF assms, of i m] by (intro image_eqI [of _ _ m]) (simp_all add: ms_set_def)
  qed
  show "m_ID ` ms_set s \<subseteq> gm_keys (ms_members s)" by (auto simp: ms_set_def dest: gm_get_Some_in_keys)
qed

lemma ms_set_simps [simp]:
  "ms_set (NewMemberSet []) = {}"
  "ms_ok s \<Longrightarrow> ms_set (ms_Add s m) = insert m {x \<in> ms_set s. m_ID x \<noteq> m_ID m}"
  "ms_ok s \<Longrightarrow> ms_set (ms_Remove s m) = {x \<in> ms_set s. m_ID x \<noteq> m_ID m}"
  by (auto simp: ms_set_def ms_ok_def NewMemberSet_def ms_Add_def ms_Remove_def split: if_splits)

text \<open>\<^verbatim>\<open>GetByHost\<close> finds a member of the host if there is one.\<close>

lemma ms_GetByHost_law:
  assumes "ms_ok s" "gm_order (ms_members s) ks"
  shows "case ms_GetByHost s ks host of
      None \<Rightarrow> \<forall>m \<in> ms_set s. m_Host m \<noteq> host | Some m \<Rightarrow> m \<in> ms_set s \<and> m_Host m = host"
proof -
  have "case foldl (\<lambda>acc (_, m). if m_Host m = host then Some m else acc) acc xs of
      None \<Rightarrow> acc = None \<and> (\<forall>m \<in> snd ` set xs. m_Host m \<noteq> host)
    | Some m \<Rightarrow> acc = Some m \<or> (m \<in> snd ` set xs \<and> m_Host m = host)" for acc :: "Member option" and xs :: "(string \<times> Member) list"
  proof (induction xs arbitrary: acc)
    case (Cons x xs)
    show ?case using Cons.IH [of "if m_Host (snd x) = host then Some (snd x) else acc"]
      by (cases x) (auto split: option.splits if_splits)
  qed (auto split: option.splits)
  from this [of None "gm_range (ms_members s) ks"] show ?thesis
    using set_ms_Slice [OF assms] by (auto simp: ms_GetByHost_def ms_Slice_def split: option.splits)
qed

subsection \<open>Activations\<close>

record ActivationDetails =
  ad_Region :: string
  ad_Members :: "Member list"
  ad_Kind :: string

text \<open>The member selector of a configuration: nil, the default, or a function of the program.\<close>

datatype SelectMemberFunc =
    NilSelect
  | RandomSelect
  | SelectBy "ActivationDetails \<Rightarrow> Member option"

record ActivationConfig =
  ac_id :: string
  ac_region :: string
  ac_selectMember :: SelectMemberFunc

text \<open>\<open>rnd\<close> is the number \<^verbatim>\<open>rand.Intn\<close> returns.\<close>

definition NewActivationConfig :: "nat \<Rightarrow> ActivationConfig" where
  "NewActivationConfig rnd = \<lparr>ac_id = Itoa (int rnd), ac_region = ''default'', ac_selectMember = RandomSelect\<rparr>"

definition WithSelectMemberFunc :: "SelectMemberFunc \<Rightarrow> ActivationConfig \<Rightarrow> ActivationConfig" where
  "WithSelectMemberFunc fun config = config\<lparr>ac_selectMember := fun\<rparr>"

definition ac_WithID :: "string \<Rightarrow> ActivationConfig \<Rightarrow> ActivationConfig" where
  "ac_WithID i config = config\<lparr>ac_id := i\<rparr>"

definition ac_WithRegion :: "string \<Rightarrow> ActivationConfig \<Rightarrow> ActivationConfig" where
  "ac_WithRegion region config = config\<lparr>ac_region := region\<rparr>"

text \<open>\<^verbatim>\<open>rand.Intn\<close> returns a number below its argument, here some number modulo the argument; it panics on an
  empty list.\<close>

definition SelectRandomMember :: "nat \<Rightarrow> ActivationDetails \<Rightarrow> Member go" where
  "SelectRandomMember rnd details =
     (if length (ad_Members details) = 0 then Inl RandArgument
      else go_index (ad_Members details) (int (rnd mod length (ad_Members details))))"

text \<open>Calling the selector a configuration ends up with.\<close>

definition call_select :: "nat \<Rightarrow> SelectMemberFunc \<Rightarrow> ActivationDetails \<Rightarrow> Member option go" where
  "call_select rnd sel details =
     (case sel of
        NilSelect \<Rightarrow> Inl NilDeref
      | RandomSelect \<Rightarrow> go_bind (SelectRandomMember rnd details) (\<lambda>m. Inr (Some m))
      | SelectBy f \<Rightarrow> Inr (f details))"

lemma SelectRandomMember_in:
  "ad_Members details \<noteq> [] \<Longrightarrow> \<exists>m \<in> set (ad_Members details). SelectRandomMember rnd details = Inr m"
  by (auto simp: SelectRandomMember_def go_index_def)

subsection \<open>Messages\<close>

text \<open>The protobuf messages, the requests and notices of the package, its events, and the answers to requests. A nil
  \<^verbatim>\<open>*PID\<close> or \<^verbatim>\<open>*Member\<close> is \<open>None\<close>; the members of a list are never nil.\<close>

datatype cmsg =
    Members "Member list"
  | ActorTopology "PID option list"            \<comment> \<open>the PIDs of the \<^verbatim>\<open>ActorInfo\<close> records\<close>
  | Activation "PID option"
  | Deactivation "PID option"
  | ActivationRequest string string            \<comment> \<open>Kind, ID\<close>
  | ActivationResponse "PID option" bool       \<comment> \<open>PID, Success\<close>
  | Handshake "Member option"
  | Ping "PID option"
  | activate string ActivationConfig
  | deactivate "PID option"
  | getMembers
  | getKinds
  | getActive string string                    \<comment> \<open>id, kind\<close>
  | memberPing
  | memberLeave string
  | MemberJoinEvent Member
  | MemberLeaveEvent Member
  | ActivationEvent "PID option"
  | DeactivationEvent "PID option"
  | AnsPID "PID option"
  | AnsPIDs "PID option list"
  | AnsMembers "Member list"
  | AnsKinds "string list"
  | OtherMsg nat

subsection \<open>The cluster's own data\<close>

record 'r kind =
  k_name :: string
  k_producer :: "nat \<Rightarrow> cmsg any + 'r"

definition newKind :: "string \<Rightarrow> (nat \<Rightarrow> cmsg any + 'r) \<Rightarrow> 'r kind" where
  "newKind name p = \<lparr>k_name = name, k_producer = p\<rparr>"

text \<open>The engine and the provider a configuration may carry are arguments of the operations that use them.\<close>

record ClusterConfig =
  cc_listenAddr :: string
  cc_id :: string
  cc_region :: string
  cc_requestTimeout :: int

record 'r Cluster =
  cl_config :: ClusterConfig
  cl_agentPID :: "PID option"
  cl_providerPID :: "PID option"
  cl_isStarted :: bool
  cl_kinds :: "'r kind list"

text \<open>An action of the package.\<close>

type_synonym 'a act = "(cmsg, 'a) action"

subsection \<open>Taking member lists\<close>

text \<open>What a provider may rely on of the agent it sends member lists to: taking a list never fails and
  replaces the set of known IDs. \<open>x\<close> is the surroundings in which a list is taken.\<close>

locale member_sink =
  fixes ok :: "'a \<Rightarrow> bool" and ids :: "'a \<Rightarrow> string set" and able :: "'x \<Rightarrow> bool" and take_list :: "'x \<Rightarrow> Member list \<Rightarrow> 'a \<Rightarrow> 'a act"
  assumes take_list_ok: "ok a \<Longrightarrow> able x \<Longrightarrow> \<exists>cs a'. take_list x ms a = Some (cs, Inr a') \<and> ok a' \<and> ids a' = m_ID ` set ms"
begin

lemma take_lists_ok:
  assumes "ok a" "list_all (\<lambda>(x, _). able x) xs"
  shows "\<exists>cs a'. act_each (\<lambda>(x, ms). take_list x ms) xs a = Some (cs, Inr a') \<and> ok a' \<and>
    ids a' = (if xs = [] then ids a else m_ID ` set (snd (last xs)))"
  using assms
proof (induction xs arbitrary: a)
  case (Cons y xs)
  obtain x ms where y: "y = (x, ms)" by (cases y)
  then have "able x" using Cons.prems(2) by simp
  then obtain cs a1 where a1: "take_list x ms a = Some (cs, Inr a1)" "ok a1" "ids a1 = m_ID ` set ms"
    using take_list_ok [OF Cons.prems(1)] by blast
  from Cons.IH [OF a1(2)] Cons.prems(2) y obtain cs' a' where "act_each (\<lambda>(x, ms). take_list x ms) xs a1 = Some (cs', Inr a')" "ok a'"
    "ids a' = (if xs = [] then ids a1 else m_ID ` set (snd (last xs)))"
    by auto
  then show ?case using a1(1,3) y by simp
qed (simp add: act_ret_def)

end

end
