(* ===== verification/Agent.thy ===== *)
theory Agent
  imports Members
begin

text \<open>
  The cluster agent (\<^verbatim>\<open>src/cluster/agent.go\<close>): the actor on every node that knows the members of the
  cluster, the kinds that can be activated and where every activated actor runs. Each
  handler is an action on the agent and the engine. What the agent cannot decide is in the
  environment of a message: the orders in which its maps are ranged over (one per loop, named
  by a tag), random numbers, and the answer to the request it may send.
\<close>

record 'r Agent =
  ag_members :: MemberSet
  ag_kinds :: "(string, bool) gomap"
  ag_localKinds :: "(string, 'r kind) gomap"
  ag_activated :: "(string, PID) gomap"

text \<open>The two maps that \<^verbatim>\<open>NewAgent\<close> fills once; the producer gives both to every agent it makes, so that an agent
  made after a restart finds the kinds its predecessor left in \<open>kinds\<close>.\<close>

definition agent_maps :: "'r kind list \<Rightarrow> (string, bool) gomap \<times> (string, 'r kind) gomap" where
  "agent_maps ks =
     foldl (\<lambda>(kinds, localKinds) k. (gm_set (k_name k) True kinds, gm_set (k_name k) k localKinds)) ([], []) ks"

definition NewAgent :: "'r Cluster \<Rightarrow> (string, bool) gomap \<Rightarrow> nat \<Rightarrow> cmsg any + 'r Agent" where
  "NewAgent c kinds = (\<lambda>_. Inr
     \<lparr>ag_members = NewMemberSet [], ag_kinds = kinds, ag_localKinds = snd (agent_maps (cl_kinds c)), ag_activated = []\<rparr>)"

record ag_env =
  av_members :: "string \<Rightarrow> (string, Member) gomap \<Rightarrow> string list"
  av_activated :: "string \<Rightarrow> (string, PID) gomap \<Rightarrow> string list"
  av_kinds :: "(string, bool) gomap \<Rightarrow> string list"
  av_rnd :: nat
  av_obj :: nat
  av_id :: nat
  av_cancel :: nat
  av_reply :: "cmsg any option"    \<comment> \<open>\<open>None\<close>: the request times out\<close>

subsection \<open>Small steps\<close>

definition addActivated :: "PID option \<Rightarrow> 'r Agent \<Rightarrow> 'r Agent go" where
  "addActivated pid a = go_bind (deref pid) (\<lambda>p.
     Inr (if \<not> gm_has (ag_activated a) (ID p) then a\<lparr>ag_activated := gm_set (ID p) p (ag_activated a)\<rparr> else a))"

definition removeActivated :: "PID option \<Rightarrow> 'r Agent \<Rightarrow> 'r Agent go" where
  "removeActivated pid a = go_bind (deref pid) (\<lambda>p. Inr (a\<lparr>ag_activated := gm_del (ID p) (ag_activated a)\<rparr>))"

definition hasKindLocal :: "'r Agent \<Rightarrow> string \<Rightarrow> bool" where
  "hasKindLocal a name = gm_has (ag_localKinds a) name"

definition add_kinds :: "string list \<Rightarrow> (string, bool) gomap \<Rightarrow> (string, bool) gomap" where
  "add_kinds ks kinds = foldl (\<lambda>kinds kind. if \<not> gm_has kinds kind then gm_set kind True kinds else kinds) kinds ks"

definition rebuildKinds :: "string list \<Rightarrow> 'r Agent \<Rightarrow> 'r Agent" where
  "rebuildKinds ks a =
     a\<lparr>ag_kinds := ms_ForEach (ag_members a) ks (\<lambda>m kinds. (True, add_kinds (m_Kinds m) kinds)) []\<rparr>"

definition bcast :: "ag_env \<Rightarrow> nat \<Rightarrow> Engine \<Rightarrow> 'r Agent \<Rightarrow> cmsg \<Rightarrow> cmsg call list option" where
  "bcast env n e a msg =
     ms_ForEach (ag_members a) (av_members env ''bcast'' (ms_members (ag_members a)))
       (\<lambda>member calls. (True, case calls of
          None \<Rightarrow> None
        | Some cs \<Rightarrow> map_option (\<lambda>cs'. cs @ cs') (eng_Send n e (Some (m_PID member)) (User msg)))) (Some [])"

subsection \<open>Members\<close>

definition memberJoin :: "ag_env \<Rightarrow> nat \<Rightarrow> Engine \<Rightarrow> Member \<Rightarrow> 'r Agent \<Rightarrow> 'r Agent act" where
  "memberJoin env n e member a =
     (let a = a\<lparr>ag_members := ms_Add (ag_members a) member\<rparr>;
          a = a\<lparr>ag_kinds := add_kinds (m_Kinds member) (ag_kinds a)\<rparr>;
          actorInfos = map (\<lambda>(_, pid). Some pid) (gm_range (ag_activated a) (av_activated env (m_ID member) (ag_activated a)))
      in act_bind (if length actorInfos > 0 then act_do (eng_Send n e (Some (m_PID member)) (User (ActorTopology actorInfos))) ()
                   else act_ret ())
         (\<lambda>_. act_do (BroadcastEvent n e (User (MemberJoinEvent member))) a))"

text \<open>The loop that forgets the actors of a host reads every entry when it reaches it.\<close>

definition forget_host :: "string \<Rightarrow> string list \<Rightarrow> (string, PID) gomap \<Rightarrow> (string, PID) gomap" where
  "forget_host host ids activated =
     foldl (\<lambda>act i. case gm_get act i of
         None \<Rightarrow> act | Some pid \<Rightarrow> if Address pid = host then gm_del (ID pid) act else act) activated ids"

definition ag_memberLeave :: "ag_env \<Rightarrow> nat \<Rightarrow> Engine \<Rightarrow> Member \<Rightarrow> 'r Agent \<Rightarrow> 'r Agent act" where
  "ag_memberLeave env n e member a =
     (let a = a\<lparr>ag_members := ms_Remove (ag_members a) member\<rparr>;
          a = rebuildKinds (av_members env (m_ID member) (ms_members (ag_members a))) a;
          a = a\<lparr>ag_activated := forget_host (m_Host member) (av_activated env (m_ID member) (ag_activated a)) (ag_activated a)\<rparr>
      in act_do (BroadcastEvent n e (User (MemberLeaveEvent member))) a)"

definition handleMembers :: "ag_env \<Rightarrow> nat \<Rightarrow> Engine \<Rightarrow> Member list \<Rightarrow> 'r Agent \<Rightarrow> 'r Agent act" where
  "handleMembers env n e members a =
     (let new = NewMemberSet members;
          old = ag_members a;
          joined = ms_Except new (av_members env ''joined'' (ms_members new))
                     (ms_Slice old (av_members env ''slice'' (ms_members old)));
          left = ms_Except old (av_members env ''left'' (ms_members old)) members
      in act_bind (act_each (memberJoin env n e) joined a) (act_each (ag_memberLeave env n e) left))"

subsection \<open>Activations\<close>

definition handleActorTopology :: "PID option list \<Rightarrow> 'r Agent \<Rightarrow> 'r Agent go" where
  "handleActorTopology pids a = foldl (\<lambda>acc pid. go_bind acc (addActivated pid)) (Inr a) pids"

definition handleDeactivation :: "ag_env \<Rightarrow> nat \<Rightarrow> Engine \<Rightarrow> PID option \<Rightarrow> 'r Agent \<Rightarrow> 'r Agent act" where
  "handleDeactivation env n e pid a =
     act_bind (act_go (removeActivated pid a)) (\<lambda>a.
     act_bind (act_do (Poison n e e (av_cancel env) pid) ()) (\<lambda>_.
     act_do (BroadcastEvent n e (User (DeactivationEvent pid))) a))"

definition handleActivation :: "nat \<Rightarrow> Engine \<Rightarrow> PID option \<Rightarrow> 'r Agent \<Rightarrow> 'r Agent act" where
  "handleActivation n e pid a =
     act_bind (act_go (addActivated pid a)) (\<lambda>a. act_do (BroadcastEvent n e (User (ActivationEvent pid))) a)"

text \<open>The answer is the PID and whether the activation succeeded.\<close>

definition handleActivationRequest ::
    "ag_env \<Rightarrow> nat \<Rightarrow> Engine \<Rightarrow> string \<Rightarrow> string \<Rightarrow> 'r Agent \<Rightarrow> ((PID option \<times> bool) \<times> Engine) act" where
  "handleActivationRequest env n e kind i a =
     (if \<not> hasKindLocal a kind then act_ret ((None, False), e)
      else case gm_get (ag_localKinds a) kind of
        None \<Rightarrow> act_go (Inl NilDeref)
      | Some k \<Rightarrow>
          (case (Spawn n e (av_obj env) (av_id env) (k_producer k) kind [WithID i] :: (cmsg, 'r, unit) spawned go option) of
             None \<Rightarrow> None
           | Some (Inl p) \<Rightarrow> Some ([], Inl p)
           | Some (Inr sp) \<Rightarrow> Some (sp_calls sp, Inr ((Some (sp_pid sp), True), sp_engine sp))))"

text \<open>Waiting for the result of a request: a reply is put into the response and taken out again, or the time runs
  out. Either way the response leaves the registry.\<close>

definition await_result :: "cmsg any option \<Rightarrow> Engine \<Rightarrow> cmsg Response \<Rightarrow> ((string + cmsg any) \<times> Engine) option" where
  "await_result reply e resp =
     (case reply of
        None \<Rightarrow> map_option (\<lambda>(r, _, e'). (r, e')) (rs_Result True e resp)
      | Some msg \<Rightarrow>
          (case rs_Send msg resp of
             None \<Rightarrow> None
           | Some resp' \<Rightarrow> map_option (\<lambda>(r, _, e'). (r, e')) (rs_Result False e resp')))"

text \<open>The PID of a successful answer to a remote activation request, \<open>None\<close> otherwise.\<close>

definition remote_activation ::
    "ag_env \<Rightarrow> nat \<Rightarrow> Engine \<Rightarrow> int \<Rightarrow> PID \<Rightarrow> string \<Rightarrow> string \<Rightarrow> (PID option option \<times> Engine) act" where
  "remote_activation env n e timeout activatorPID kind i =
     (case Request n e (av_obj env) (av_id env) (Some activatorPID) (User (ActivationRequest kind i)) timeout of
        None \<Rightarrow> None
      | Some (cs, resp, e') \<Rightarrow>
          map_option (\<lambda>(r, e''). (cs, Inr (case r of
                Inr (User (ActivationResponse pid success)) \<Rightarrow> if success then Some pid else None
              | _ \<Rightarrow> None, e'')))
            (await_result (av_reply env) e' resp))"

definition ag_activate ::
    "ag_env \<Rightarrow> nat \<Rightarrow> Engine \<Rightarrow> int \<Rightarrow> string \<Rightarrow> ActivationConfig \<Rightarrow> 'r Agent \<Rightarrow> (PID option \<times> Engine) act" where
  "ag_activate env n e timeout kind config a =
     (let i = kind @ ''/'' @ ac_id config;
          members = ms_FilterByKind (ag_members a) (av_members env ''activate'' (ms_members (ag_members a))) kind in
      if gm_has (ag_activated a) i then act_ret (None, e)
      else if length members = 0 then act_ret (None, e)
      else
        let sel = (case ac_selectMember config of NilSelect \<Rightarrow> RandomSelect | f \<Rightarrow> f) in
        act_bind (act_go (call_select (av_rnd env) sel \<lparr>ad_Region = ac_region config, ad_Members = members, ad_Kind = kind\<rparr>))
          (\<lambda>selected. case selected of
             None \<Rightarrow> act_ret (None, e)
           | Some memberPID \<Rightarrow>
               act_bind
                 (if m_Host memberPID = e_address e
                  then act_bind (handleActivationRequest env n e kind (ac_id config) a) (\<lambda>((pid, _), e'). act_ret (Some pid, e'))
                  else remote_activation env n e timeout (NewPID (m_Host memberPID) (''cluster/'' @ m_ID memberPID)) kind (ac_id config))
                 (\<lambda>(activationResp, e'). case activationResp of
                    None \<Rightarrow> act_ret (None, e')
                  | Some pid \<Rightarrow> act_bind (act_do (bcast env n e' a (Activation pid)) ()) (\<lambda>_. act_ret (pid, e')))))"

subsection \<open>Queries\<close>

text \<open>The first part of \<^verbatim>\<open>strings.Split(id, "/")\<close>, which always has one.\<close>

definition first_part :: "string \<Rightarrow> string" where
  "first_part i = takeWhile (\<lambda>c. c \<noteq> CHR ''/'') i"

definition handleGetActive ::
    "ag_env \<Rightarrow> nat \<Rightarrow> Engine \<Rightarrow> (cmsg, 'r Agent) Context \<Rightarrow> string \<Rightarrow> string \<Rightarrow> 'r Agent \<Rightarrow> unit act" where
  "handleGetActive env n e c i kind a =
     act_bind (if length i > 0 then act_do (Respond n e c (User (AnsPID (gm_get (ag_activated a) i)))) () else act_ret ())
     (\<lambda>_. if length kind > 0 then
            let pids = foldl (\<lambda>pids (k, pid). if kind = first_part k then pids @ [Some pid] else pids) []
                  (gm_range (ag_activated a) (av_activated env ''active'' (ag_activated a)))
            in act_do (Respond n e c (User (AnsPIDs pids))) ()
          else act_ret ())"

subsection \<open>The receiver\<close>

definition ag_Receive ::
    "ag_env \<Rightarrow> nat \<Rightarrow> Engine \<Rightarrow> int \<Rightarrow> (cmsg, 'r Agent) Context \<Rightarrow> 'r Agent \<Rightarrow> ('r Agent \<times> Engine) act" where
  "ag_Receive env n e timeout c a =
     (let keep = (\<lambda>m. act_bind m (\<lambda>a. act_ret (a, e)));
          answer = (\<lambda>msg. act_do (Respond n e c (User msg)) (a, e)) in
      case c_Message c of
        User msg \<Rightarrow>
          (case msg of
             ActorTopology pids \<Rightarrow> keep (act_go (handleActorTopology pids a))
           | Members members \<Rightarrow> keep (handleMembers env n e members a)
           | Activation pid \<Rightarrow> keep (handleActivation n e pid a)
           | activate kind config \<Rightarrow>
               act_bind (ag_activate env n e timeout kind config a)
                 (\<lambda>(pid, e'). act_do (Respond n e' c (User (AnsPID pid))) (a, e'))
           | deactivate pid \<Rightarrow> act_do (bcast env n e a (Deactivation pid)) (a, e)
           | Deactivation pid \<Rightarrow> keep (handleDeactivation env n e pid a)
           | ActivationRequest kind i \<Rightarrow>
               act_bind (handleActivationRequest env n e kind i a)
                 (\<lambda>((pid, success), e'). act_do (Respond n e' c (User (ActivationResponse pid success))) (a, e'))
           | getMembers \<Rightarrow> answer (AnsMembers (ms_Slice (ag_members a) (av_members env ''get'' (ms_members (ag_members a)))))
           | getKinds \<Rightarrow> answer (AnsKinds (map fst (gm_range (ag_kinds a) (av_kinds env (ag_kinds a)))))
           | getActive i kind \<Rightarrow> act_bind (handleGetActive env n e c i kind a) (\<lambda>_. act_ret (a, e))
           | _ \<Rightarrow> act_ret (a, e))
      | _ \<Rightarrow> act_ret (a, e))"

subsection \<open>Well-formed agents\<close>

definition env_ok :: "ag_env \<Rightarrow> bool" where
  "env_ok env \<longleftrightarrow> (\<forall>t m. gm_ok m \<longrightarrow> gm_order m (av_members env t m)) \<and>
     (\<forall>t m. gm_ok m \<longrightarrow> gm_order m (av_activated env t m)) \<and> (\<forall>m. gm_ok m \<longrightarrow> gm_order m (av_kinds env m))"

definition ids_ok :: "(string, PID) gomap \<Rightarrow> bool" where
  "ids_ok m \<longleftrightarrow> gm_ok m \<and> (\<forall>i p. gm_get m i = Some p \<longrightarrow> ID p = i)"

definition member_kinds :: "MemberSet \<Rightarrow> string set" where
  "member_kinds s = (\<Union>m \<in> ms_set s. set (m_Kinds m))"

text \<open>Members and activated actors are filed under their IDs; the known kinds are at least those of the members, and
  at most those and the local ones.\<close>

definition ag_ok :: "'r Agent \<Rightarrow> bool" where
  "ag_ok a \<longleftrightarrow> ms_ok (ag_members a) \<and> ids_ok (ag_activated a) \<and> gm_ok (ag_kinds a) \<and>
     member_kinds (ag_members a) \<subseteq> gm_keys (ag_kinds a) \<and>
     gm_keys (ag_kinds a) \<subseteq> gm_keys (ag_localKinds a) \<union> member_kinds (ag_members a)"

lemma ids_ok_simps [simp]:
  "ids_ok []" "ids_ok m \<Longrightarrow> ids_ok (gm_set (ID p) p m)" "ids_ok m \<Longrightarrow> ids_ok (gm_del i m)"
  by (auto simp: ids_ok_def split: if_splits)

lemma ids_okD: "ids_ok m \<Longrightarrow> gm_get m i = Some p \<Longrightarrow> ID p = i"
  by (simp add: ids_ok_def)

lemma add_kinds_law:
  "gm_ok kinds \<Longrightarrow> gm_ok (add_kinds ks kinds) \<and> gm_keys (add_kinds ks kinds) = gm_keys kinds \<union> set ks"
  unfolding add_kinds_def by (induction ks arbitrary: kinds) auto

lemma each_member_all: "each_member (\<lambda>m st. (True, f m st)) ms st = fold f ms st"
  by (induction ms arbitrary: st) auto

lemma rebuildKinds_law:
  assumes "ms_ok (ag_members a)" "gm_order (ms_members (ag_members a)) ks"
  shows "gm_ok (ag_kinds (rebuildKinds ks a)) \<and> gm_keys (ag_kinds (rebuildKinds ks a)) = member_kinds (ag_members a)"
proof -
  have "gm_ok kinds \<Longrightarrow> gm_ok (fold (\<lambda>m. add_kinds (m_Kinds m)) ms kinds) \<and>
      gm_keys (fold (\<lambda>m. add_kinds (m_Kinds m)) ms kinds) = gm_keys kinds \<union> (\<Union>m \<in> set ms. set (m_Kinds m))" for ms kinds
    by (induction ms arbitrary: kinds) (auto simp: add_kinds_law)
  from this [of "[]" "ms_Slice (ag_members a) ks"]
  have "gm_ok (fold (\<lambda>m. add_kinds (m_Kinds m)) (ms_Slice (ag_members a) ks) [])"
    "gm_keys (fold (\<lambda>m. add_kinds (m_Kinds m)) (ms_Slice (ag_members a) ks) []) = member_kinds (ag_members a)"
    using set_ms_Slice [OF assms] by (simp_all add: member_kinds_def)
  moreover have "ag_kinds (rebuildKinds ks a) = fold (\<lambda>m. add_kinds (m_Kinds m)) (ms_Slice (ag_members a) ks) []"
    by (simp add: rebuildKinds_def ms_ForEach_def each_member_all ms_Slice_def)
  ultimately show ?thesis by simp
qed

lemma forget_host_law:
  assumes "ids_ok m" "gm_order m ids"
  shows "ids_ok (forget_host host ids m) \<and>
    gm_get (forget_host host ids m) i =
      (case gm_get m i of None \<Rightarrow> None | Some p \<Rightarrow> if Address p = host then None else Some p)"
proof -
  have step: "ids_ok (forget_host host ids m) \<and> gm_get (forget_host host ids m) i =
      (case gm_get m i of None \<Rightarrow> None | Some p \<Rightarrow> if Address p = host \<and> i \<in> set ids then None else Some p)"
    if "ids_ok m" for m :: "(string, PID) gomap" and ids
    using that
  proof (induction ids arbitrary: m)
    case Nil
    then show ?case by (simp add: forget_host_def split: option.split)
  next
    case (Cons j ids)
    let ?m = "case gm_get m j of None \<Rightarrow> m | Some pid \<Rightarrow> if Address pid = host then gm_del (ID pid) m else m"
    have "ids_ok ?m" using Cons.prems by (simp split: option.split)
    moreover have "forget_host host (j # ids) m = forget_host host ids ?m" by (simp add: forget_host_def)
    ultimately show ?case using Cons.IH [of ?m] ids_okD [OF Cons.prems, of j]
      by (auto split: option.splits if_splits)
  qed
  have "i \<in> set ids" if "gm_get m i = Some p" for p
    using assms(2) gm_get_Some_in_keys [OF that] by (simp add: gm_order_def)
  then show ?thesis using step [OF assms(1), of ids] by (auto split: option.splits)
qed

lemma bcast_ok:
  assumes "es_ok e"
  shows "bcast env (Suc n) e a msg = Some (concat (map (\<lambda>m. route False e (Some (m_PID m)) (User msg) None)
    (ms_Slice (ag_members a) (av_members env ''bcast'' (ms_members (ag_members a))))))"
proof -
  have "fold (\<lambda>m calls. case calls of None \<Rightarrow> None
      | Some cs \<Rightarrow> map_option (\<lambda>cs'. cs @ cs') (eng_Send (Suc n) e (Some (m_PID m)) (User msg))) ms (Some cs) =
    Some (cs @ concat (map (\<lambda>m. route False e (Some (m_PID m)) (User msg) None) ms))" for ms cs
    by (induction ms arbitrary: cs) (simp_all add: eng_Send_def send_ok [OF assms] del: send.simps)
  from this [of _ "[]"] show ?thesis
    by (simp add: bcast_def ms_ForEach_def ms_Slice_def each_member_all)
qed

subsection \<open>Following the members\<close>

lemma act_each_ok:
  assumes "\<And>x s. x \<in> set xs \<Longrightarrow> P s \<Longrightarrow> f x s = Some (c x, Inr (g x s)) \<and> P (g x s)" "P s"
  shows "act_each f xs s = Some (concat (map c xs), Inr (fold g xs s)) \<and> P (fold g xs s)"
  using assms
proof (induction xs arbitrary: s)
  case (Cons x xs)
  then have "f x s = Some (c x, Inr (g x s))" "P (g x s)" by simp_all
  then show ?case using Cons.IH [of "g x s"] Cons.prems(1) by simp
qed (simp add: act_ret_def)

text \<open>What the agent announces when a member joins or leaves, and what it then knows.\<close>

definition topology :: "ag_env \<Rightarrow> string \<Rightarrow> (string, PID) gomap \<Rightarrow> PID option list" where
  "topology env t act = map (\<lambda>(_, pid). Some pid) (gm_range act (av_activated env t act))"

definition join_calls :: "ag_env \<Rightarrow> Engine \<Rightarrow> (string, PID) gomap \<Rightarrow> Member \<Rightarrow> cmsg call list" where
  "join_calls env e act m =
     (if topology env (m_ID m) act = [] then []
      else route False e (Some (m_PID m)) (User (ActorTopology (topology env (m_ID m) act))) None) @
     to_stream e (User (MemberJoinEvent m))"

definition leave_calls :: "Engine \<Rightarrow> Member \<Rightarrow> cmsg call list" where
  "leave_calls e m = to_stream e (User (MemberLeaveEvent m))"

definition after_join :: "Member \<Rightarrow> 'r Agent \<Rightarrow> 'r Agent" where
  "after_join m a = a\<lparr>ag_members := ms_Add (ag_members a) m, ag_kinds := add_kinds (m_Kinds m) (ag_kinds a)\<rparr>"

definition after_leave :: "ag_env \<Rightarrow> Member \<Rightarrow> 'r Agent \<Rightarrow> 'r Agent" where
  "after_leave env m a =
     (let a = rebuildKinds (av_members env (m_ID m) (ms_members (ms_Remove (ag_members a) m))) (a\<lparr>ag_members := ms_Remove (ag_members a) m\<rparr>)
      in a\<lparr>ag_activated := forget_host (m_Host m) (av_activated env (m_ID m) (ag_activated a)) (ag_activated a)\<rparr>)"

lemma after_simps [simp]:
  "ag_members (after_join m a) = ms_Add (ag_members a) m" "ag_activated (after_join m a) = ag_activated a"
  "ag_localKinds (after_join m a) = ag_localKinds a"
  "ag_members (after_leave env m a) = ms_Remove (ag_members a) m" "ag_localKinds (after_leave env m a) = ag_localKinds a"
  "ag_activated (after_leave env m a) = forget_host (m_Host m) (av_activated env (m_ID m) (ag_activated a)) (ag_activated a)"
  by (simp_all add: after_join_def after_leave_def rebuildKinds_def Let_def)

lemma memberJoin_ok:
  assumes "es_ok e"
  shows "memberJoin env (Suc n) e m a = Some (join_calls env e (ag_activated a) m, Inr (after_join m a))"
  by (simp add: memberJoin_def join_calls_def topology_def after_join_def Let_def eng_Send_def send_ok [OF assms]
      BroadcastEvent_ok [OF assms] act_ret_def del: send.simps BroadcastEvent.simps)

lemma memberLeave_ok:
  assumes "es_ok e"
  shows "ag_memberLeave env (Suc n) e m a = Some (leave_calls e m, Inr (after_leave env m a))"
  by (simp add: ag_memberLeave_def leave_calls_def after_leave_def Let_def rebuildKinds_def
      BroadcastEvent_ok [OF assms] del: BroadcastEvent.simps)

lemma ag_ok_join:
  assumes "ag_ok a" "m_ID m \<notin> gm_keys (ms_members (ag_members a))"
  shows "ag_ok (after_join m a)"
proof -
  have "m_ID x \<noteq> m_ID m" if "x \<in> ms_set (ag_members a)" for x
    using assms ms_keys [of "ag_members a"] imageI [OF that, of m_ID] by (auto simp: ag_ok_def)
  then have "member_kinds (ms_Add (ag_members a) m) = set (m_Kinds m) \<union> member_kinds (ag_members a)"
    using assms(1) by (auto simp: ag_ok_def member_kinds_def)
  then show ?thesis using assms(1) by (auto simp: ag_ok_def after_join_def add_kinds_law)
qed

lemma ag_ok_leave:
  assumes "ag_ok a" "env_ok env"
  shows "ag_ok (after_leave env m a)"
proof -
  let ?a = "a\<lparr>ag_members := ms_Remove (ag_members a) m\<rparr>"
  have ms: "ms_ok (ag_members ?a)" using assms(1) by (simp add: ag_ok_def)
  then have "gm_order (ms_members (ag_members ?a)) (av_members env (m_ID m) (ms_members (ag_members ?a)))"
    using assms(2) by (simp add: env_ok_def ms_ok_def)
  note k = rebuildKinds_law [OF ms this]
  have act: "ids_ok (ag_activated a)" using assms(1) by (simp add: ag_ok_def)
  then have "gm_order (ag_activated a) (av_activated env (m_ID m) (ag_activated a))"
    using assms(2) by (simp add: env_ok_def ids_ok_def)
  then have "ids_ok (ag_activated (after_leave env m a))" using forget_host_law [OF act] by simp
  moreover have "ag_kinds (after_leave env m a) = ag_kinds (rebuildKinds (av_members env (m_ID m) (ms_members (ag_members ?a))) ?a)"
    by (simp add: after_leave_def Let_def)
  ultimately show ?thesis using ms k by (simp add: ag_ok_def)
qed

lemma ks_spec_joins: "ks_spec key (map KAdd xs @ map KRemove ys) K = (K \<union> key ` set xs) - key ` set ys"
proof -
  have "ks_spec key (map KRemove ys) K = K - key ` set ys" for K by (induction ys arbitrary: K) auto
  then show ?thesis by (induction xs arbitrary: K) auto
qed

lemma joins_ok:
  assumes "ag_ok a" "distinct (map m_ID xs)" "m_ID ` set xs \<inter> gm_keys (ms_members (ag_members a)) = {}"
  shows "ag_ok (fold after_join xs a) \<and> ag_activated (fold after_join xs a) = ag_activated a \<and>
    ag_members (fold after_join xs a) = ks_run ms_Add ms_Remove (map KAdd xs) (ag_members a)"
  using assms
proof (induction xs arbitrary: a)
  case (Cons x xs)
  have ok: "ag_ok (after_join x a)" using ag_ok_join Cons.prems by auto
  have "m_ID ` set xs \<inter> gm_keys (ms_members (ag_members (after_join x a))) = {}"
    using Cons.prems by (auto simp: ms_Add_def)
  then show ?case using Cons.IH [OF ok] Cons.prems(2) by simp
qed simp

lemma leaves_ok:
  assumes "ag_ok a" "env_ok env"
  shows "ag_ok (fold (after_leave env) xs a) \<and>
    ag_members (fold (after_leave env) xs a) = ks_run ms_Add ms_Remove (map KRemove xs) (ag_members a) \<and>
    (\<forall>i. gm_get (ag_activated (fold (after_leave env) xs a)) i =
       (case gm_get (ag_activated a) i of None \<Rightarrow> None | Some p \<Rightarrow> if Address p \<in> m_Host ` set xs then None else Some p))"
  using assms(1)
proof (induction xs arbitrary: a)
  case (Cons x xs)
  have ok: "ag_ok (after_leave env x a)" using ag_ok_leave [OF Cons.prems assms(2)] .
  have act: "ids_ok (ag_activated a)" using Cons.prems by (simp add: ag_ok_def)
  then have "gm_order (ag_activated a) (av_activated env (m_ID x) (ag_activated a))"
    using assms(2) by (simp add: env_ok_def ids_ok_def)
  note f = forget_host_law [OF act this, of "m_Host x"]
  show ?case using Cons.IH [OF ok] f by (auto split: option.splits)
qed (simp split: option.split)

lemma ks_run_append: "ks_run add remove (xs @ ys) s = ks_run add remove ys (ks_run add remove xs s)"
  by (induction add remove xs s rule: ks_run.induct) simp_all

text \<open>The members that are new to the agent, and those that are gone.\<close>

definition joined_of :: "ag_env \<Rightarrow> Member list \<Rightarrow> 'r Agent \<Rightarrow> Member list" where
  "joined_of env members a =
     filter (\<lambda>m. m_ID m \<notin> gm_keys (ms_members (ag_members a)))
       (ms_Slice (NewMemberSet members) (av_members env ''joined'' (ms_members (NewMemberSet members))))"

definition left_of :: "ag_env \<Rightarrow> Member list \<Rightarrow> 'r Agent \<Rightarrow> Member list" where
  "left_of env members a =
     filter (\<lambda>m. m_ID m \<notin> m_ID ` set members) (ms_Slice (ag_members a) (av_members env ''left'' (ms_members (ag_members a))))"

lemma handleMembers_ok:
  assumes "es_ok e" "env_ok env" "ag_ok a"
  shows "handleMembers env (Suc n) e members a =
    Some (concat (map (join_calls env e (ag_activated a)) (joined_of env members a)) @ concat (map (leave_calls e) (left_of env members a)),
      Inr (fold (after_leave env) (left_of env members a) (fold after_join (joined_of env members a) a)))"
proof -
  let ?j = "joined_of env members a" and ?l = "left_of env members a"
  have ms: "ms_ok (ag_members a)" using assms(3) by (simp add: ag_ok_def)
  then have "set (ms_Slice (ag_members a) (av_members env t (ms_members (ag_members a)))) = ms_set (ag_members a)" for t
    using set_ms_Slice assms(2) by (simp add: env_ok_def ms_ok_def)
  then have j: "ms_Except (NewMemberSet members) (av_members env ''joined'' (ms_members (NewMemberSet members)))
      (ms_Slice (ag_members a) (av_members env ''slice'' (ms_members (ag_members a)))) = ?j"
    by (simp add: ms_Except_eq joined_of_def ms_keys [OF ms])
  have l: "ms_Except (ag_members a) (av_members env ''left'' (ms_members (ag_members a))) members = ?l"
    by (simp add: ms_Except_eq left_of_def)
  have "act_each (memberJoin env (Suc n) e) ?j a =
      Some (concat (map (join_calls env e (ag_activated a)) ?j), Inr (fold after_join ?j a))"
    using act_each_ok [of ?j "\<lambda>s. ag_activated s = ag_activated a" "memberJoin env (Suc n) e" "join_calls env e (ag_activated a)"
        after_join a] by (simp add: memberJoin_ok [OF assms(1)])
  moreover have "act_each (ag_memberLeave env (Suc n) e) ?l s = Some (concat (map (leave_calls e) ?l), Inr (fold (after_leave env) ?l s))"
    for s :: "'a Agent"
    using act_each_ok [of ?l "\<lambda>_. True" "ag_memberLeave env (Suc n) e" "leave_calls e" "after_leave env" s]
    by (simp add: memberLeave_ok [OF assms(1)])
  ultimately show ?thesis by (simp add: handleMembers_def Let_def j l)
qed

lemma joined_of_law:
  assumes "env_ok env" "ag_ok a"
  shows "distinct (map m_ID (joined_of env members a))"
    "set (joined_of env members a) = {m \<in> ms_set (NewMemberSet members). m_ID m \<notin> gm_keys (ms_members (ag_members a))}"
    "m_ID ` set (joined_of env members a) = m_ID ` set members - gm_keys (ms_members (ag_members a))"
proof -
  let ?new = "NewMemberSet members"
  have o: "gm_order (ms_members ?new) (av_members env ''joined'' (ms_members ?new))"
    using assms(1) NewMemberSet_ok [of members] by (simp add: env_ok_def ms_ok_def)
  show "distinct (map m_ID (joined_of env members a))"
    using distinct_ms_Slice [OF NewMemberSet_ok o] by (simp add: joined_of_def distinct_map_filter)
  show s: "set (joined_of env members a) = {m \<in> ms_set ?new. m_ID m \<notin> gm_keys (ms_members (ag_members a))}"
    using set_ms_Slice [OF NewMemberSet_ok o] by (auto simp: joined_of_def)
  have "m_ID ` {m \<in> ms_set ?new. m_ID m \<notin> K} = m_ID ` ms_set ?new - K" for K by auto
  moreover have "m_ID ` ms_set ?new = m_ID ` set members" using ms_keys [of ?new] by simp
  ultimately show "m_ID ` set (joined_of env members a) = m_ID ` set members - gm_keys (ms_members (ag_members a))"
    by (simp add: s)
qed

lemma left_of_law:
  assumes "env_ok env" "ag_ok a"
  shows "distinct (map m_ID (left_of env members a))"
    "set (left_of env members a) = {m \<in> ms_set (ag_members a). m_ID m \<notin> m_ID ` set members}"
proof -
  have ms: "ms_ok (ag_members a)" using assms(2) by (simp add: ag_ok_def)
  have o: "gm_order (ms_members (ag_members a)) (av_members env ''left'' (ms_members (ag_members a)))"
    using assms(1) ms by (simp add: env_ok_def ms_ok_def)
  show "distinct (map m_ID (left_of env members a))"
    using distinct_ms_Slice [OF ms o] by (simp add: left_of_def distinct_map_filter)
  show "set (left_of env members a) = {m \<in> ms_set (ag_members a). m_ID m \<notin> m_ID ` set members}"
    using set_ms_Slice [OF ms o] by (auto simp: left_of_def)
qed

lemma handleMembers_keeps:
  assumes "env_ok env" "ag_ok a"
  shows "ag_ok (fold (after_leave env) (left_of env members a) (fold after_join (joined_of env members a) a)) \<and>
    gm_keys (ms_members (ag_members (fold (after_leave env) (left_of env members a) (fold after_join (joined_of env members a) a)))) =
      m_ID ` set members"
proof -
  let ?j = "joined_of env members a" and ?l = "left_of env members a"
  note J = joined_of_law [OF assms, of members] and L = left_of_law [OF assms, of members]
  have ms: "ms_ok (ag_members a)" using assms(2) by (simp add: ag_ok_def)
  have j: "ag_ok (fold after_join ?j a)"
    "ag_members (fold after_join ?j a) = ks_run ms_Add ms_Remove (map KAdd ?j) (ag_members a)"
    using joins_ok [OF assms(2) J(1)] J(3) by auto
  have l: "ag_ok (fold (after_leave env) ?l (fold after_join ?j a))"
    "ag_members (fold (after_leave env) ?l (fold after_join ?j a)) = ks_run ms_Add ms_Remove (map KAdd ?j @ map KRemove ?l) (ag_members a)"
    using leaves_ok [OF j(1) assms(1), of ?l] j(2) by (simp_all add: ks_run_append)
  have "m_ID ` set ?l = gm_keys (ms_members (ag_members a)) - m_ID ` set members"
    unfolding L(2) ms_keys [OF ms] by (auto simp: image_iff)
  then have "ks_spec m_ID (map KAdd ?j @ map KRemove ?l) (gm_keys (ms_members (ag_members a))) = m_ID ` set members"
    using J(3) by (auto simp: ks_spec_joins)
  then show ?thesis using l members.run_keys [OF ms, of "map KAdd ?j @ map KRemove ?l"] by simp
qed

interpretation agent_sink: member_sink ag_ok "\<lambda>a. gm_keys (ms_members (ag_members a))" "\<lambda>(env, e). env_ok env \<and> es_ok e"
  "\<lambda>(env, e) ms. handleMembers env (Suc n) e ms" for n
  by unfold_locales (auto simp: handleMembers_ok handleMembers_keeps)

subsection \<open>The directory of activated actors\<close>

definition act_enter :: "(string, PID) gomap \<Rightarrow> PID \<Rightarrow> bool \<times> (string, PID) gomap" where
  "act_enter m p = (if gm_has m (ID p) then (False, m) else (True, gm_set (ID p) p m))"

interpretation activated: directory ids_ok ID gm_get act_enter "\<lambda>m i. gm_del i m"
  by unfold_locales (auto simp: act_enter_def ids_okD fun_eq_iff gm_get_None_iff)

lemma addActivated_enter:
  "addActivated (Some p) a = Inr (a\<lparr>ag_activated := snd (act_enter (ag_activated a) p)\<rparr>)"
  by (auto simp: addActivated_def act_enter_def)

lemma act_enter_ok: "ids_ok m \<Longrightarrow> ids_ok (snd (act_enter m p))"
  by (simp add: act_enter_def)

lemma topology_enters:
  "handleActorTopology (map Some ps) a = Inr (a\<lparr>ag_activated := fold (\<lambda>p m. snd (act_enter m p)) ps (ag_activated a)\<rparr>)"
proof -
  have "foldl (\<lambda>acc pid. go_bind acc (addActivated pid)) (Inr a) (map Some ps) =
      Inr (a\<lparr>ag_activated := fold (\<lambda>p m. snd (act_enter m p)) ps (ag_activated a)\<rparr>)" for a :: "'a Agent"
    by (induction ps arbitrary: a) (simp_all add: addActivated_enter)
  then show ?thesis by (simp add: handleActorTopology_def)
qed

lemma enters_ok: "ids_ok m \<Longrightarrow> ids_ok (fold (\<lambda>p m. snd (act_enter m p)) ps m)"
  by (induction ps arbitrary: m) (simp_all add: act_enter_ok)

text \<open>The entries after a list of PIDs was entered: old ones stay, new IDs go to the first PID that has them.\<close>

lemma enters_get:
  "gm_get (fold (\<lambda>p m. snd (act_enter m p)) ps m) i =
     (case gm_get m i of Some p \<Rightarrow> Some p | None \<Rightarrow> List.find (\<lambda>p. ID p = i) ps)"
proof (induction ps arbitrary: m)
  case (Cons p ps)
  then show ?case by (cases "gm_get m i") (auto simp: act_enter_def gm_get_None_iff split: option.splits dest: gm_get_Some_in_keys)
qed (simp split: option.split)

lemma ag_ok_activated: "ag_ok a \<Longrightarrow> ids_ok m \<Longrightarrow> ag_ok (a\<lparr>ag_activated := m\<rparr>)"
  by (simp add: ag_ok_def)

subsection \<open>No message breaks an agent\<close>

text \<open>The engine keeps its event stream, whose ID is not one a response could have.\<close>

definition eng_fit :: "Engine \<Rightarrow> bool" where
  "eng_fit e \<longleftrightarrow> eng_ok e \<and> (case e_eventStream e of None \<Rightarrow> True | Some es \<Rightarrow> take 9 (ID es) \<noteq> ''response/'')"

lemma eng_fit_es: "eng_fit e \<Longrightarrow> es_ok e"
  by (simp add: eng_fit_def eng_ok_def)

lemma eng_fit_enter: "eng_fit e \<Longrightarrow> eng_fit (eng_step (Enter p) e)"
  using eng_step_ok [of e "Enter p"] by (simp add: eng_fit_def del: eng_step.simps)

lemma eng_fit_response:
  assumes "eng_fit e"
  shows "eng_fit (eng_step (Leave (''response'' @ pidSeparator @ i)) e)"
proof -
  have "ID es \<noteq> ''response'' @ pidSeparator @ i" if "e_eventStream e = Some es" for es
    using assms that by (auto simp: eng_fit_def pidSeparator_def)
  then have "eng_ok (eng_step (Leave (''response'' @ pidSeparator @ i)) e) \<and>
      e_eventStream (eng_step (Leave (''response'' @ pidSeparator @ i)) e) = e_eventStream e"
    using assms by (intro eng_step_ok) (auto simp: eng_fit_def)
  then show ?thesis using assms by (simp add: eng_fit_def del: eng_step.simps)
qed

lemma await_ok:
  assumes "rs_result resp = []"
  shows "await_result reply e resp = Some (case reply of None \<Rightarrow> Inl ''context deadline exceeded'' | Some m \<Rightarrow> Inr m,
    eng_step (Leave (ID (rs_pid resp))) e)"
  using assms by (auto simp: await_result_def rs_Result_def rs_Send_def split: option.split)

lemma remote_activation_ok:
  assumes "eng_fit e"
  shows "\<exists>cs e'. remote_activation env (Suc n) e timeout pid kind i =
      Some (cs, Inr (case av_reply env of
          Some (User (ActivationResponse p success)) \<Rightarrow> if success then Some p else None | _ \<Rightarrow> None, e')) \<and>
    eng_fit e' \<and> e_address e' = e_address e"
proof -
  obtain cs resp proc where r: "Request (Suc n) e (av_obj env) (av_id env) (Some pid) (User (ActivationRequest kind i)) timeout =
      Some (cs, resp, eng_step (Enter proc) e)" "rs_result resp = []" "ID (rs_pid resp) = ''response'' @ pidSeparator @ Itoa (int (av_id env))"
    using Request_engine [of e n "av_obj env" "av_id env" "Some pid" "User (ActivationRequest kind i)" timeout] assms
    by (auto simp: eng_fit_def simp del: eng_step.simps)
  have "eng_fit (eng_step (Leave (ID (rs_pid resp))) (eng_step (Enter proc) e))"
    unfolding r(3) by (rule eng_fit_response [OF eng_fit_enter [OF assms]])
  then show ?thesis
    by (auto simp: remote_activation_def r(1) await_ok [OF r(2)] split: option.splits)
qed

lemma local_activation_ok:
  assumes "eng_fit e"
  shows "\<exists>cs e'. handleActivationRequest env (Suc n) e kind i a =
      Some (cs, Inr ((if hasKindLocal a kind then Some (NewPID (e_address e)
          (kind @ pidSeparator @ (if i = [] then Itoa (int (av_id env)) else i))) else None, hasKindLocal a kind), e')) \<and>
    eng_fit e' \<and> e_address e' = e_address e \<and>
    (hasKindLocal a kind \<longrightarrow> e' = eng_step (Enter (proc_ref (av_obj env) (NewPID (e_address e)
          (kind @ pidSeparator @ (if i = [] then Itoa (int (av_id env)) else i))))) e)"
proof (cases "gm_get (ag_localKinds a) kind")
  case None
  then have "\<not> hasKindLocal a kind" by (simp add: hasKindLocal_def gm_get_None_iff)
  then show ?thesis using assms by (auto simp: handleActivationRequest_def act_ret_def)
next
  case (Some k)
  let ?opt = "spawn_opts (k_producer k) kind [WithID i] (Itoa (int (av_id env))) :: (cmsg, 'a, unit) Opts"
  have "hasKindLocal a kind" using Some by (auto simp: hasKindLocal_def dest: gm_get_Some_in_keys)
  moreover have o: "0 \<le> o_InboxSize ?opt" "o_Kind ?opt = kind" "o_ID ?opt = (if i = [] then Itoa (int (av_id env)) else i)"
    by (auto simp: spawn_opts_def DefaultOpts_def WithID_def defaultInboxSize_def Let_def)
  moreover obtain sp :: "(cmsg, 'a, unit) spawned" where
    "Spawn (Suc n) e (av_obj env) (av_id env) (k_producer k) kind [WithID i] = Some (Inr sp)"
    "sp_pid sp = NewPID (e_address e) (o_Kind ?opt @ pidSeparator @ o_ID ?opt)"
    "sp_engine sp = eng_step (Enter (proc_ref (av_obj env) (sp_pid sp))) e"
    using Spawn_engine [OF eng_fit_es [OF assms] o(1) refl, of n "av_obj env"] by blast
  moreover then have "eng_fit (sp_engine sp)" "e_address (sp_engine sp) = e_address e" using eng_fit_enter [OF assms] by simp_all
  ultimately show ?thesis using Some by (auto simp: handleActivationRequest_def simp del: eng_step.simps)
qed

lemma select_ok:
  assumes "ad_Members details \<noteq> []" "sel \<noteq> NilSelect"
  shows "\<exists>m. call_select rnd sel details = Inr m"
  using SelectRandomMember_in [OF assms(1), of rnd] assms(2)
  by (cases sel) (auto simp: call_select_def)

lemma ag_activate_ok:
  assumes "eng_fit e"
  shows "\<exists>cs pid e'. ag_activate env (Suc n) e timeout kind config a = Some (cs, Inr (pid, e')) \<and> eng_fit e'"
proof -
  let ?ms = "ms_FilterByKind (ag_members a) (av_members env ''activate'' (ms_members (ag_members a))) kind"
  let ?sel = "case ac_selectMember config of NilSelect \<Rightarrow> RandomSelect | f \<Rightarrow> f"
  let ?d = "\<lparr>ad_Region = ac_region config, ad_Members = ?ms, ad_Kind = kind\<rparr>"
  show ?thesis
  proof (cases "gm_has (ag_activated a) (kind @ ''/'' @ ac_id config) \<or> ?ms = []")
    case True
    then show ?thesis using assms by (auto simp: ag_activate_def act_ret_def)
  next
    case False
    have "?sel \<noteq> NilSelect" by (simp split: SelectMemberFunc.split)
    moreover have "ad_Members ?d \<noteq> []" using False by simp
    ultimately obtain sel where sel: "call_select (av_rnd env) ?sel ?d = Inr sel"
      using select_ok by blast
    show ?thesis
    proof (cases sel)
      case None
      then show ?thesis using False sel assms by (simp add: ag_activate_def act_ret_def)
    next
      case (Some m)
      let ?pid = "NewPID (m_Host m) (''cluster/'' @ m_ID m)"
      let ?ask = "if m_Host m = e_address e
          then act_bind (handleActivationRequest env (Suc n) e kind (ac_id config) a) (\<lambda>((pid, _), e'). act_ret (Some pid, e'))
          else remote_activation env (Suc n) e timeout ?pid kind (ac_id config)"
      have "\<exists>cs r e'. ?ask = Some (cs, Inr (r, e')) \<and> eng_fit e'"
      proof (cases "m_Host m = e_address e")
        case True
        then show ?thesis using local_activation_ok [OF assms, of env n kind "ac_id config" a] by (auto simp: act_ret_def)
      next
        case False
        then show ?thesis using remote_activation_ok [OF assms, of env n timeout ?pid kind "ac_id config"] by auto
      qed
      then obtain cs r e' where r: "?ask = Some (cs, Inr (r, e'))" "eng_fit e'" by blast
      have "\<exists>cs' pid. (case r of None \<Rightarrow> act_ret (None, e')
          | Some pid \<Rightarrow> act_bind (act_do (bcast env (Suc n) e' a (Activation pid)) ()) (\<lambda>_. act_ret (pid, e'))) = Some (cs', Inr (pid, e'))"
        by (cases r) (simp_all add: act_ret_def bcast_ok [OF eng_fit_es [OF r(2)]])
      then show ?thesis using False sel Some r by (auto simp: ag_activate_def)
    qed
  qed
qed

text \<open>Messages that carry a PID where the agent needs one.\<close>

fun msg_ok :: "cmsg any \<Rightarrow> bool" where
  "msg_ok (User (Activation pid)) \<longleftrightarrow> pid \<noteq> None"
| "msg_ok (User (Deactivation pid)) \<longleftrightarrow> pid \<noteq> None"
| "msg_ok (User (ActorTopology pids)) \<longleftrightarrow> None \<notin> set pids"
| "msg_ok _ \<longleftrightarrow> True"

lemma all_Some: "None \<notin> set xs \<Longrightarrow> \<exists>ys. xs = map Some ys"
  by (induction xs) (auto, metis list.simps(9) not_Some_eq)

lemma handle_pid_ok:
  assumes "eng_fit e" "ag_ok a"
  shows "\<exists>cs a'. handleActivation (Suc n) e (Some p) a = Some (cs, Inr a') \<and> ag_ok a'"
    "\<exists>cs a'. handleDeactivation env (Suc n) e (Some p) a = Some (cs, Inr a') \<and> ag_ok a'"
proof -
  note es = eng_fit_es [OF assms(1)]
  have ids: "ids_ok (ag_activated a)" using assms(2) by (simp add: ag_ok_def)
  show "\<exists>cs a'. handleActivation (Suc n) e (Some p) a = Some (cs, Inr a') \<and> ag_ok a'"
    using ag_ok_activated [OF assms(2) act_enter_ok [OF ids, of p]]
    by (simp add: handleActivation_def addActivated_enter BroadcastEvent_ok [OF es] del: BroadcastEvent.simps)
  obtain cs :: "cmsg call list" where "Poison (Suc n) e e (av_cancel env) (Some p) = Some cs" using Poison_ok [OF es] by blast
  then show "\<exists>cs a'. handleDeactivation env (Suc n) e (Some p) a = Some (cs, Inr a') \<and> ag_ok a'"
    using ag_ok_activated [OF assms(2), of "gm_del (ID p) (ag_activated a)"] ids
    by (simp add: handleDeactivation_def removeActivated_def BroadcastEvent_ok [OF es] del: BroadcastEvent.simps)
qed

lemma topology_ok:
  assumes "ag_ok a" "None \<notin> set pids"
  shows "\<exists>a'. handleActorTopology pids a = Inr a' \<and> ag_ok a'"
proof -
  obtain ps where "pids = map Some ps" using all_Some [OF assms(2)] by blast
  moreover have "ids_ok (ag_activated a)" using assms(1) by (simp add: ag_ok_def)
  ultimately show ?thesis using topology_enters [of ps a] ag_ok_activated [OF assms(1) enters_ok, of "ag_activated a" ps] by simp
qed

lemma get_active_ok:
  assumes "es_ok e"
  shows "\<exists>cs. handleGetActive env (Suc n) e c i kind a = Some (cs, Inr ())"
proof -
  have "\<exists>cs. act_do (Respond (Suc n) e c m) () = Some (cs, Inr ())" for m using Respond_ok [OF assms, of n c m] by auto
  then obtain f where "\<And>m. act_do (Respond (Suc n) e c m) () = Some (f m, Inr ())" by metis
  then show ?thesis by (simp add: handleGetActive_def Let_def act_ret_def)
qed

lemma ag_Receive_ok:
  assumes "eng_fit e" "ag_ok a" "env_ok env" "msg_ok (c_Message c)"
  shows "\<exists>cs a' e'. ag_Receive env (Suc n) e timeout c a = Some (cs, Inr (a', e')) \<and> ag_ok a' \<and> eng_fit e'"
proof (cases "c_Message c")
  case (User msg)
  note es = eng_fit_es [OF assms(1)]
  have resp: "\<exists>cs. Respond (Suc n) e' c m = Some cs" if "eng_fit e'" for e' and m :: "cmsg any"
    using Respond_ok [OF eng_fit_es [OF that]] by blast
  show ?thesis
  proof (cases msg)
    case (Members ms)
    then show ?thesis using User handleMembers_ok [OF es assms(3,2), of n ms] handleMembers_keeps [OF assms(3,2), of ms] assms(1)
      by (auto simp: ag_Receive_def act_ret_def)
  next
    case (ActorTopology pids)
    then show ?thesis using User topology_ok [OF assms(2), of pids] assms(1,4) by (auto simp: ag_Receive_def act_ret_def)
  next
    case (Activation pid)
    then obtain p where "pid = Some p" using User assms(4) by auto
    then show ?thesis using User Activation handle_pid_ok(1) [OF assms(1,2), of n p] assms(1)
      by (auto simp: ag_Receive_def act_ret_def)
  next
    case (Deactivation pid)
    then obtain p where "pid = Some p" using User assms(4) by auto
    then show ?thesis using User Deactivation handle_pid_ok(2) [OF assms(1,2), of env n p] assms(1)
      by (auto simp: ag_Receive_def act_ret_def)
  next
    case (activate kind config)
    obtain cs pid e' where "ag_activate env (Suc n) e timeout kind config a = Some (cs, Inr (pid, e'))" "eng_fit e'"
      using ag_activate_ok [OF assms(1)] by blast
    moreover then obtain cs' where "Respond (Suc n) e' c (User (AnsPID pid)) = Some cs'" using resp by blast
    ultimately show ?thesis using User activate assms(2) by (auto simp: ag_Receive_def)
  next
    case (ActivationRequest kind i)
    obtain cs pid ok e' where "handleActivationRequest env (Suc n) e kind i a = Some (cs, Inr ((pid, ok), e'))" "eng_fit e'"
      using local_activation_ok [OF assms(1), of env n kind i a] by blast
    moreover then obtain cs' where "Respond (Suc n) e' c (User (ActivationResponse pid ok)) = Some cs'" using resp by blast
    ultimately show ?thesis using User ActivationRequest assms(2) by (auto simp: ag_Receive_def)
  next
    case (getActive i kind)
    then show ?thesis using User get_active_ok [OF es, of env n c i kind a] assms(1,2)
      by (auto simp: ag_Receive_def act_ret_def)
  next
    case getMembers
    obtain cs where "Respond (Suc n) e c (User (AnsMembers (ms_Slice (ag_members a) (av_members env ''get'' (ms_members (ag_members a)))))) = Some cs"
      using resp [OF assms(1)] by blast
    then show ?thesis using User getMembers assms(1,2) by (auto simp: ag_Receive_def)
  next
    case getKinds
    obtain cs where "Respond (Suc n) e c (User (AnsKinds (map fst (gm_range (ag_kinds a) (av_kinds env (ag_kinds a)))))) = Some cs"
      using resp [OF assms(1)] by blast
    then show ?thesis using User getKinds assms(1,2) by (auto simp: ag_Receive_def)
  qed (use User assms(1,2) in \<open>auto simp: ag_Receive_def act_ret_def bcast_ok [OF es]\<close>)
qed (use assms(1,2) in \<open>auto simp: ag_Receive_def act_ret_def\<close>)

subsection \<open>Histories\<close>

text \<open>A history of messages, each with its environment and its context; a panic ends it.\<close>

fun ag_run ::
    "nat \<Rightarrow> int \<Rightarrow> (ag_env \<times> (cmsg, 'r Agent) Context) list \<Rightarrow> 'r Agent \<times> Engine \<Rightarrow> ('r Agent \<times> Engine) act" where
  "ag_run n timeout [] s = act_ret s"
| "ag_run n timeout ((env, c) # msgs) (a, e) = act_bind (ag_Receive env n e timeout c a) (ag_run n timeout msgs)"

fun step_ok :: "ag_env \<times> (cmsg, 'r Agent) Context \<Rightarrow> bool" where
  "step_ok (env, c) \<longleftrightarrow> env_ok env \<and> msg_ok (c_Message c)"

lemma ag_run_ok:
  assumes "eng_fit e" "ag_ok a" "list_all step_ok msgs"
  shows "\<exists>cs a' e'. ag_run (Suc n) timeout msgs (a, e) = Some (cs, Inr (a', e')) \<and> ag_ok a' \<and> eng_fit e'"
  using assms
proof (induction msgs arbitrary: a e)
  case (Cons m msgs)
  obtain env c where m: "m = (env, c)" by force
  obtain cs a' e' where s: "ag_Receive env (Suc n) e timeout c a = Some (cs, Inr (a', e'))" "ag_ok a'" "eng_fit e'"
    using ag_Receive_ok [OF Cons.prems(1,2), of env c n timeout] Cons.prems(3) m by auto
  then show ?case using Cons.IH [of e' a'] Cons.prems(3) m by auto
qed (simp add: act_ret_def)

lemma agent_maps_law:
  "gm_ok (fst (agent_maps ks)) \<and> gm_keys (fst (agent_maps ks)) = gm_keys (snd (agent_maps ks))"
proof -
  have "gm_ok kinds \<Longrightarrow> gm_keys kinds = gm_keys loc \<Longrightarrow>
      gm_ok (fst (foldl (\<lambda>(kinds, loc) k. (gm_set (k_name k) True kinds, gm_set (k_name k) k loc)) (kinds, loc) ks)) \<and>
      gm_keys (fst (foldl (\<lambda>(kinds, loc) k. (gm_set (k_name k) True kinds, gm_set (k_name k) k loc)) (kinds, loc) ks)) =
      gm_keys (snd (foldl (\<lambda>(kinds, loc) k. (gm_set (k_name k) True kinds, gm_set (k_name k) k loc)) (kinds, loc) ks))"
    for kinds and loc :: "(string, 'a kind) gomap"
    by (induction ks arbitrary: kinds loc) simp_all
  from this [of "[]" "[]"] show ?thesis by (simp add: agent_maps_def)
qed

lemma NewAgent_ok: "NewAgent c (fst (agent_maps (cl_kinds c))) t = Inr a \<Longrightarrow> ag_ok a"
  using agent_maps_law [of "cl_kinds c"] by (auto simp: NewAgent_def ag_ok_def member_kinds_def)

end
