(* ===== verification/Agent_Properties.thy ===== *)
theory Agent_Properties
  imports Agent
begin

text \<open>
  What the cluster agent promises (\<^verbatim>\<open>src/cluster/agent.go\<close>): it stays well-formed under every
  message, follows the member list it is sent, hands its directory of activated actors to
  newcomers, activates actors under unique names as far as it knows, and answers queries; and
  where it does not keep what its comments say.
\<close>

subsection \<open>A small cluster for the witnesses\<close>

definition member_a :: Member where
  "member_a = \<lparr>m_ID = ''A'', m_Host = ''a:1'', m_Region = ''default'', m_Kinds = [''player'']\<rparr>"

definition member_b :: Member where
  "member_b = \<lparr>m_ID = ''B'', m_Host = ''b:2'', m_Region = ''default'', m_Kinds = [''player'', ''room'']\<rparr>"

definition node_engine :: Engine where
  "node_engine = \<lparr>e_Registry = \<lparr>rg_lookup =
       [(''eventstream/1'', \<lparr>pr_kind = KProcess, pr_obj = 0, pr_PID = NewPID ''a:1'' ''eventstream/1''\<rparr>),
        (''cluster/A'', \<lparr>pr_kind = KProcess, pr_obj = 1, pr_PID = NewPID ''a:1'' ''cluster/A''\<rparr>)]\<rparr>,
     e_address = ''a:1'', e_remote = True, e_eventStream = Some (NewPID ''a:1'' ''eventstream/1'')\<rparr>"

definition node_cluster :: "unit Cluster" where
  "node_cluster = \<lparr>cl_config = \<lparr>cc_listenAddr = ''a:1'', cc_id = ''A'', cc_region = ''default'', cc_requestTimeout = 1000000000\<rparr>,
     cl_agentPID = Some (NewPID ''a:1'' ''cluster/A''), cl_providerPID = None, cl_isStarted = True,
     cl_kinds = [newKind ''player'' (\<lambda>_. Inr ())]\<rparr>"

definition node_agent :: "unit Agent" where
  "node_agent = \<lparr>ag_members = NewMemberSet [member_a, member_b], ag_kinds = [(''player'', True), (''room'', True)],
     ag_localKinds = [(''player'', newKind ''player'' (\<lambda>_. Inr ()))], ag_activated = [(''room/1'', NewPID ''b:2'' ''room/1'')]\<rparr>"

definition node_env :: "nat \<Rightarrow> cmsg any option \<Rightarrow> ag_env" where
  "node_env rnd reply = \<lparr>av_members = (\<lambda>_. map fst), av_activated = (\<lambda>_. map fst), av_kinds = map fst, av_rnd = rnd,
     av_obj = 9, av_id = 7, av_cancel = 0, av_reply = reply\<rparr>"

definition agent_ctx :: "cmsg any \<Rightarrow> (cmsg, unit Agent) Context" where
  "agent_ctx msg = (newContext 0 (NewPID ''a:1'' ''cluster/A''))\<lparr>c_message := msg, c_sender := Some (NewPID ''a:1'' ''client'')\<rparr>"

lemma node_env_ok: "env_ok (node_env rnd reply)"
  by (simp add: env_ok_def node_env_def gm_order_ex)

lemma node_engine_fit: "eng_fit node_engine"
  by (simp add: eng_fit_def eng_ok_def es_ok_def rg_ok_def node_engine_def NewPID_def rg_get_def gm_ok_def gm_get_def)

lemma node_members: "ms_set (NewMemberSet [member_a, member_b]) = {member_a, member_b}"
  by (auto simp: ms_set_def NewMemberSet_def member_a_def member_b_def split: if_splits)

lemma node_agent_ok: "ag_ok node_agent"
  using node_members
  by (auto simp: ag_ok_def node_agent_def ids_ok_def gm_ok_def gm_get_def gm_keys_def member_kinds_def NewPID_def
        member_a_def member_b_def split: if_splits)

lemma agent_ctx_message [simp]: "c_Message (agent_ctx msg) = msg"
  by (simp add: c_Message_def agent_ctx_def)

subsection \<open>Members and their directory\<close>



text \<open>C4: Taking a member list by joining the new members and dropping the missing ones is the same as replacing the
  set of member IDs. Each new member is announced once, with the directory sent to it if that is not empty; each
  missing one is announced once and takes exactly the actors of its host out of the directory.\<close>

theorem agent_follows_members:
  assumes "es_ok e" "env_ok env" "ag_ok a"
  shows "\<exists>joined left a'.
    handleMembers env (Suc n) e ms a =
      Some (concat (map (join_calls env e (ag_activated a)) joined) @ concat (map (leave_calls e) left), Inr a') \<and>
    ag_ok a' \<and> gm_keys (ms_members (ag_members a')) = m_ID ` set ms \<and>
    distinct (map m_ID joined) \<and> m_ID ` set joined = m_ID ` set ms - gm_keys (ms_members (ag_members a)) \<and>
    distinct (map m_ID left) \<and> set left = {m \<in> ms_set (ag_members a). m_ID m \<notin> m_ID ` set ms} \<and>
    (\<forall>i. gm_get (ag_activated a') i = (case gm_get (ag_activated a) i of
        None \<Rightarrow> None | Some p \<Rightarrow> if Address p \<in> m_Host ` set left then None else Some p))"
proof -
  let ?j = "joined_of env ms a" and ?l = "left_of env ms a"
  have "ag_ok (fold after_join ?j a)" "ag_activated (fold after_join ?j a) = ag_activated a"
    using joins_ok [OF assms(3) joined_of_law(1) [OF assms(2,3)], of ms] joined_of_law(3) [OF assms(2,3), of ms] by auto
  then show ?thesis
    using handleMembers_ok [OF assms, of n ms] handleMembers_keeps [OF assms(2,3), of ms]
      joined_of_law [OF assms(2,3), of ms] left_of_law [OF assms(2,3), of ms] leaves_ok [OF _ assms(2), of "fold after_join ?j a" ?l]
    by (intro exI [of _ ?j] exI [of _ ?l] exI [of _ "fold (after_leave env) ?l (fold after_join ?j a)"]) simp
qed

theorem agent_follows_members_witness:
  "\<exists>joined left a'.
    handleMembers (node_env 0 None) 1 node_engine [member_a] node_agent =
      Some (concat (map (join_calls (node_env 0 None) node_engine (ag_activated node_agent)) joined) @
        concat (map (leave_calls node_engine) left), Inr a') \<and>
    ag_ok a' \<and> gm_keys (ms_members (ag_members a')) = {''A''} \<and> gm_get (ag_activated a') ''room/1'' = None"
proof -
  have m: "ms_set (ag_members node_agent) = {member_a, member_b}" using node_members by (simp add: node_agent_def)
  have g: "gm_get (ag_activated node_agent) ''room/1'' = Some (NewPID ''b:2'' ''room/1'')" by code_simp
  from agent_follows_members [OF eng_fit_es [OF node_engine_fit] node_env_ok node_agent_ok, of 0 None 0 "[member_a]"]
  obtain joined left a' where h: "handleMembers (node_env 0 None) 1 node_engine [member_a] node_agent =
      Some (concat (map (join_calls (node_env 0 None) node_engine (ag_activated node_agent)) joined) @
        concat (map (leave_calls node_engine) left), Inr a')"
    and k: "ag_ok a'" "gm_keys (ms_members (ag_members a')) = m_ID ` set [member_a]"
      "set left = {m \<in> ms_set (ag_members node_agent). m_ID m \<notin> m_ID ` set [member_a]}"
      "gm_get (ag_activated a') ''room/1'' = (case gm_get (ag_activated node_agent) ''room/1'' of
        None \<Rightarrow> None | Some p \<Rightarrow> if Address p \<in> m_Host ` set left then None else Some p)"
    by auto
  have "member_b \<in> set left" using k(3) by (simp add: m member_a_def member_b_def)
  then have "Address (NewPID ''b:2'' ''room/1'') \<in> m_Host ` set left"
    by (intro image_eqI [of _ _ member_b]) (simp_all add: member_b_def NewPID_def)
  then have "gm_get (ag_activated a') ''room/1'' = None" using k(4) by (simp add: g)
  then show ?thesis using h k(1,2) by (auto simp: member_a_def)
qed

lemma find_by_id:
  assumes "ids_ok m" "gm_order m ks"
  shows "List.find (\<lambda>p. ID p = i) (map snd (gm_range m ks)) = gm_get m i"
proof (cases "gm_get m i")
  case None
  have "ID p \<noteq> i" if "p \<in> snd ` set (gm_range m ks)" for p
    using that None ids_okD [OF assms(1)] by (auto simp: snd_gm_range)
  then have "\<not> (\<exists>p. p \<in> set (map snd (gm_range m ks)) \<and> ID p = i)" by auto
  then have "List.find (\<lambda>p. ID p = i) (map snd (gm_range m ks)) = None" unfolding find_None_iff .
  then show ?thesis by (simp add: None)
next
  case (Some q)
  have "q \<in> snd ` set (gm_range m ks)"
    using assms(2) Some gm_get_Some_in_keys [OF Some] by (auto simp: snd_gm_range gm_order_def)
  then have "List.find (\<lambda>p. ID p = i) (map snd (gm_range m ks)) \<noteq> None"
    using ids_okD [OF assms(1) Some] by (auto simp: find_None_iff)
  then obtain p where p: "List.find (\<lambda>p. ID p = i) (map snd (gm_range m ks)) = Some p" by auto
  then have "p \<in> set (map snd (gm_range m ks))" "ID p = i" unfolding find_Some_iff by (auto simp: set_conv_nth)
  then have "gm_get m i = Some p" using ids_okD [OF assms(1), of _ p] by (auto simp: snd_gm_range simp del: in_gm_range)
  then show ?thesis using p by simp
qed

text \<open>C22: The agent of a member that joins ends up with everything that was active here: after it has taken the
  directory that the join sends it, its entries are its own, and for every other name ours.\<close>

theorem join_transfers_directory:
  assumes "es_ok e" "env_ok env" "ids_ok (ag_activated a)" "ag_activated a \<noteq> []"
  shows "\<exists>pids. memberJoin env (Suc n) e m a =
      Some (route False e (Some (m_PID m)) (User (ActorTopology pids)) None @ to_stream e (User (MemberJoinEvent m)), Inr (after_join m a)) \<and>
    (\<forall>b. \<exists>b'. handleActorTopology pids b = Inr b' \<and> gm_get (ag_activated b') = gm_get (ag_activated a) ++ gm_get (ag_activated b))"
proof -
  let ?act = "ag_activated a" and ?ks = "av_activated env (m_ID m) (ag_activated a)"
  define ps where "ps = map snd (gm_range ?act ?ks)"
  have o: "gm_order ?act ?ks" using assms(2,3) by (simp add: env_ok_def ids_ok_def)
  have t: "topology env (m_ID m) ?act = map Some ps" by (simp add: topology_def ps_def case_prod_beta)
  have "length ps = length ?act" using length_gm_range [OF o] assms(3) by (simp add: ids_ok_def ps_def)
  then have "ps \<noteq> []" using assms(4) by auto
  then have "memberJoin env (Suc n) e m a = Some (route False e (Some (m_PID m)) (User (ActorTopology (map Some ps))) None @
      to_stream e (User (MemberJoinEvent m)), Inr (after_join m a))"
    by (simp add: memberJoin_ok [OF assms(1)] join_calls_def t)
  moreover have "gm_get (fold (\<lambda>p m. snd (act_enter m p)) ps act) = gm_get ?act ++ gm_get act" for act
    by (auto simp: fun_eq_iff enters_get ps_def find_by_id [OF assms(3) o] map_add_def split: option.split)
  ultimately show ?thesis
    by (intro exI [of _ "map Some ps"] conjI allI) (auto simp: topology_enters)
qed

theorem join_transfers_directory_witness:
  "\<exists>pids. memberJoin (node_env 0 None) 1 node_engine member_b node_agent =
      Some (route False node_engine (Some (m_PID member_b)) (User (ActorTopology pids)) None @
        to_stream node_engine (User (MemberJoinEvent member_b)), Inr (after_join member_b node_agent)) \<and>
    (\<exists>b'. handleActorTopology pids (node_agent\<lparr>ag_activated := []\<rparr>) = Inr b' \<and>
       gm_get (ag_activated b') = gm_get (ag_activated node_agent) ++ gm_get [])"
proof -
  have "ids_ok (ag_activated node_agent)" "ag_activated node_agent \<noteq> []"
    using node_agent_ok by (simp_all add: ag_ok_def node_agent_def)
  from join_transfers_directory [OF eng_fit_es [OF node_engine_fit] node_env_ok [of 0 None] this, of 0 member_b]
  obtain pids where p: "memberJoin (node_env 0 None) 1 node_engine member_b node_agent =
      Some (route False node_engine (Some (m_PID member_b)) (User (ActorTopology pids)) None @
        to_stream node_engine (User (MemberJoinEvent member_b)), Inr (after_join member_b node_agent))"
    and b: "\<And>b :: unit Agent. \<exists>b'. handleActorTopology pids b = Inr b' \<and> gm_get (ag_activated b') = gm_get (ag_activated node_agent) ++ gm_get (ag_activated b)"
    by auto
  show ?thesis using p b [of "node_agent\<lparr>ag_activated := []\<rparr>"] by auto
qed

subsection \<open>Queries\<close>

lemma first_part_iff:
  assumes "CHR ''/'' \<notin> set kind"
  shows "first_part i = kind \<longleftrightarrow> i = kind \<or> (\<exists>j. i = kind @ ''/'' @ j)"
proof
  assume "first_part i = kind"
  then have f: "kind @ dropWhile (\<lambda>c. c \<noteq> CHR ''/'') i = i"
    unfolding first_part_def using takeWhile_dropWhile_id [of "\<lambda>c. c \<noteq> CHR ''/''" i] by simp
  show "i = kind \<or> (\<exists>j. i = kind @ ''/'' @ j)"
  proof (cases "dropWhile (\<lambda>c. c \<noteq> CHR ''/'') i")
    case Nil
    show ?thesis using f unfolding Nil by simp
  next
    case (Cons c j)
    then have "c = CHR ''/''" by (simp add: dropWhile_eq_Cons_conv)
    then show ?thesis using f Cons by (intro disjI2 exI [of _ j]) simp
  qed
next
  assume "i = kind \<or> (\<exists>j. i = kind @ ''/'' @ j)"
  moreover have "first_part kind = kind"
    unfolding first_part_def takeWhile_eq_all_conv using assms by blast
  moreover have "first_part (kind @ CHR ''/'' # j) = kind" for j
  proof -
    have "\<And>x. x \<in> set kind \<Longrightarrow> x \<noteq> CHR ''/''" using assms by blast
    then show ?thesis by (simp add: first_part_def takeWhile_append2)
  qed
  ultimately show "first_part i = kind" by (elim disjE exE) simp_all
qed

text \<open>C23: A query by ID is answered with the directory's entry, nil if there is none; a query by a kind without a slash
  is answered with exactly the actors of that kind, each once.\<close>

theorem get_active_exact:
  assumes "es_ok e" "env_ok env" "ag_ok a" "c_sender c = Some q" "i \<noteq> []" "kind \<noteq> []" "CHR ''/'' \<notin> set kind"
  shows "handleGetActive env (Suc n) e c i [] a =
      Some (route False e (Some q) (User (AnsPID (gm_get (ag_activated a) i))) None, Inr ()) \<and>
    (\<exists>pids. handleGetActive env (Suc n) e c [] kind a =
        Some (route False e (Some q) (User (AnsPIDs (map Some pids))) None, Inr ()) \<and>
      distinct (map ID pids) \<and>
      set pids = {p. gm_get (ag_activated a) (ID p) = Some p \<and> (ID p = kind \<or> (\<exists>j. ID p = kind @ ''/'' @ j))})"
proof -
  let ?act = "ag_activated a" and ?ks = "av_activated env ''active'' (ag_activated a)"
  have ids: "ids_ok ?act" using assms(3) by (simp add: ag_ok_def)
  then have o: "gm_order ?act ?ks" using assms(2) by (simp add: env_ok_def ids_ok_def)
  define pids where "pids = map snd (filter (\<lambda>(k, p). kind = first_part k) (gm_range ?act ?ks))"
  have f: "foldl (\<lambda>pids (k, pid). if kind = first_part k then pids @ [Some pid] else pids) acc xs =
      acc @ map Some (map snd (filter (\<lambda>(k, p). kind = first_part k) xs))" for acc and xs :: "(string \<times> PID) list"
    by (induction xs arbitrary: acc) auto
  have r: "Respond (Suc n) e c msg = Some (route False e (Some q) msg None)" for msg :: "cmsg any"
    using assms(4) by (simp add: Respond_def eng_Send_def send_ok [OF assms(1)] del: send.simps)
  have "map ID (map snd (gm_range ?act ?ks)) = map fst (gm_range ?act ?ks)"
    using ids_okD [OF ids] by auto
  moreover have "distinct (map fst (gm_range ?act ?ks))"
    using o map_fst_gm_range [of ?ks ?act] by (simp add: gm_order_def)
  ultimately have "distinct (map (ID \<circ> snd) (gm_range ?act ?ks))" by (metis map_map)
  then have "distinct (map ID pids)" unfolding pids_def map_map by (rule distinct_map_filter)
  moreover have "p \<in> set pids \<longleftrightarrow> gm_get ?act (ID p) = Some p \<and> first_part (ID p) = kind" for p
  proof -
    have "p \<in> set pids \<longleftrightarrow> (\<exists>k. (k, p) \<in> set (gm_range ?act ?ks) \<and> kind = first_part k)"
      by (auto simp: pids_def image_iff simp del: in_gm_range)
    also have "\<dots> \<longleftrightarrow> (\<exists>k. gm_get ?act k = Some p \<and> kind = first_part k)"
      using o gm_get_Some_in_keys [of ?act _ p] by (auto simp: gm_order_def)
    also have "\<dots> \<longleftrightarrow> gm_get ?act (ID p) = Some p \<and> first_part (ID p) = kind"
      using ids_okD [OF ids, of _ p] by auto
    finally show ?thesis .
  qed
  then have "set pids = {p. gm_get ?act (ID p) = Some p \<and> (ID p = kind \<or> (\<exists>j. ID p = kind @ ''/'' @ j))}"
    by (auto simp: first_part_iff [OF assms(7)])
  ultimately show ?thesis using assms(5,6)
    by (intro conjI exI [of _ pids]) (simp_all add: handleGetActive_def r f pids_def [symmetric] act_ret_def Let_def)
qed

theorem get_active_exact_witness:
  "handleGetActive (node_env 0 None) 1 node_engine (agent_ctx NilAny) ''room/1'' [] node_agent =
      Some (route False node_engine (Some (NewPID ''a:1'' ''client'')) (User (AnsPID (gm_get (ag_activated node_agent) ''room/1''))) None, Inr ()) \<and>
    (\<exists>pids. handleGetActive (node_env 0 None) 1 node_engine (agent_ctx NilAny) [] ''room'' node_agent =
        Some (route False node_engine (Some (NewPID ''a:1'' ''client'')) (User (AnsPIDs (map Some pids))) None, Inr ()) \<and>
      distinct (map ID pids) \<and>
      set pids = {p. gm_get (ag_activated node_agent) (ID p) = Some p \<and> (ID p = ''room'' \<or> (\<exists>j. ID p = ''room'' @ ''/'' @ j))})"
proof -
  have "c_sender (agent_ctx NilAny) = Some (NewPID ''a:1'' ''client'')" by (simp add: agent_ctx_def)
  from get_active_exact [OF eng_fit_es [OF node_engine_fit] node_env_ok [of 0 None] node_agent_ok this, of "''room/1''" "''room''" 0]
  show ?thesis by simp
qed

text \<open>The first part of an ID is not its kind if the kind has a slash: an actor of kind \<^verbatim>\<open>a/b\<close> is found under \<^verbatim>\<open>a\<close>.\<close>

lemma slash_in_kind: "first_part (''a/b'' @ ''/'' @ ''1'') = ''a''"
  by (simp add: first_part_def)

subsection \<open>Activations\<close>

text \<open>C24: Activating a kind on this node under a name that is free in the directory registers the actor as
  \<^verbatim>\<open>kind/id\<close> (unless something local runs under that ID), returns its PID and tells every member; the agent of a member for which the name is free too then
  has it in its directory.\<close>

theorem activate_local:
  assumes "eng_fit e" "env_ok env" "ag_ok a" "ac_id config \<noteq> []" "hasKindLocal a kind"
    and "pid = NewPID (e_address e) (kind @ ''/'' @ ac_id config)" "ID pid \<notin> gm_keys (ag_activated a)"
    and "m \<in> ms_set (ag_members a)" "kind \<in> set (m_Kinds m)" "m_Host m = e_address e"
    and "ac_selectMember config \<noteq> NilSelect"
    and "call_select (av_rnd env) (ac_selectMember config) \<lparr>ad_Region = ac_region config,
      ad_Members = ms_FilterByKind (ag_members a) (av_members env ''activate'' (ms_members (ag_members a))) kind, ad_Kind = kind\<rparr> = Inr (Some m)"
  shows "\<exists>cs e' ms. ag_activate env (Suc n) e timeout kind config a =
      Some (cs @ concat (map (\<lambda>x. route False e' (Some (m_PID x)) (User (Activation (Some pid))) None) ms), Inr (Some pid, e')) \<and>
    rg_getByID (e_Registry e') (ID pid) = Some (case rg_getByID (e_Registry e) (ID pid) of None \<Rightarrow> proc_ref (av_obj env) pid | Some q \<Rightarrow> q) \<and>
    set ms = ms_set (ag_members a) \<and> distinct (map m_ID ms) \<and>
    (\<forall>(b :: 'r Agent) eb. es_ok eb \<longrightarrow> ID pid \<notin> gm_keys (ag_activated b) \<longrightarrow>
       (\<exists>cs' b'. handleActivation (Suc n) eb (Some pid) b = Some (cs', Inr b') \<and> gm_get (ag_activated b') (ID pid) = Some pid))"
proof -
  let ?order = "\<lambda>t. av_members env t (ms_members (ag_members a))"
  have ms: "ms_ok (ag_members a)" using assms(3) by (simp add: ag_ok_def)
  then have o: "gm_order (ms_members (ag_members a)) (?order t)" for t using assms(2) by (simp add: env_ok_def ms_ok_def)
  have "m \<in> set (ms_FilterByKind (ag_members a) (?order ''activate'') kind)"
    using assms(8,9) set_ms_Slice [OF ms o] by (simp add: ms_FilterByKind_eq)
  then have ne: "ms_FilterByKind (ag_members a) (?order ''activate'') kind \<noteq> []" by auto
  have sel: "(case ac_selectMember config of NilSelect \<Rightarrow> RandomSelect | f \<Rightarrow> f) = ac_selectMember config"
    using assms(11) by (cases "ac_selectMember config") simp_all
  obtain cs e' where la: "handleActivationRequest env (Suc n) e kind (ac_id config) a = Some (cs, Inr ((Some pid, True), e'))" "eng_fit e'"
      and e': "e' = eng_step (Enter (proc_ref (av_obj env) pid)) e"
    using local_activation_ok [OF assms(1), of env n kind "ac_id config" a] assms(4-6) by (auto simp: pidSeparator_def simp del: eng_step.simps)
  have rg: "rg_getByID (e_Registry e') (ID pid) = Some (case rg_getByID (e_Registry e) (ID pid) of None \<Rightarrow> proc_ref (av_obj env) pid | Some q \<Rightarrow> q)"
    by (simp add: e' rg_add_def rg_getByID_def proc_ref_def split: option.split)
  have "\<exists>cs' b'. handleActivation (Suc n) eb (Some pid) b = Some (cs', Inr b') \<and> gm_get (ag_activated b') (ID pid) = Some pid"
    if "es_ok eb" "ID pid \<notin> gm_keys (ag_activated b)" for b :: "'r Agent" and eb
    using that(2) by (simp add: handleActivation_def addActivated_def BroadcastEvent_ok [OF that(1)] del: BroadcastEvent.simps)
  moreover have "ag_activate env (Suc n) e timeout kind config a =
      Some (cs @ concat (map (\<lambda>x. route False e' (Some (m_PID x)) (User (Activation (Some pid))) None)
        (ms_Slice (ag_members a) (?order ''bcast''))), Inr (Some pid, e'))"
    using assms(6,7,10,12) ne sel la
    by (simp add: ag_activate_def Let_def NewPID_def act_ret_def bcast_ok [OF eng_fit_es [OF la(2)]])
  ultimately show ?thesis using rg set_ms_Slice [OF ms o, of "''bcast''"] distinct_ms_Slice [OF ms o, of "''bcast''"] by blast
qed

theorem activate_local_witness:
  "\<exists>cs e' ms. ag_activate (node_env 0 None) 1 node_engine 1000000000 ''player'' (ac_WithID ''7'' (NewActivationConfig 5)) node_agent =
      Some (cs @ concat (map (\<lambda>x. route False e' (Some (m_PID x)) (User (Activation (Some (NewPID ''a:1'' ''player/7'')))) None) ms),
        Inr (Some (NewPID ''a:1'' ''player/7''), e')) \<and>
    set ms = {member_a, member_b}"
proof -
  have "call_select (av_rnd (node_env 0 None)) (ac_selectMember (ac_WithID ''7'' (NewActivationConfig 5)))
      \<lparr>ad_Region = ac_region (ac_WithID ''7'' (NewActivationConfig 5)), ad_Members = ms_FilterByKind (ag_members node_agent)
        (av_members (node_env 0 None) ''activate'' (ms_members (ag_members node_agent))) ''player'', ad_Kind = ''player''\<rparr> = Inr (Some member_a)"
    by code_simp
  moreover have "ac_id (ac_WithID ''7'' (NewActivationConfig 5)) = ''7''" "hasKindLocal node_agent ''player''"
    "ac_selectMember (ac_WithID ''7'' (NewActivationConfig 5)) \<noteq> NilSelect"
    "ID (NewPID ''a:1'' ''player/7'') \<notin> gm_keys (ag_activated node_agent)"
    by (simp_all add: ac_WithID_def NewActivationConfig_def hasKindLocal_def node_agent_def gm_keys_def NewPID_def)
  moreover have m: "ms_set (ag_members node_agent) = {member_a, member_b}" using node_members by (simp add: node_agent_def)
  ultimately show ?thesis
    using activate_local [OF node_engine_fit node_env_ok node_agent_ok, of "ac_WithID ''7'' (NewActivationConfig 5)" "''player''"
        "NewPID ''a:1'' ''player/7''" member_a 0 None 0 1000000000, where 'r = unit]
    by (auto simp: member_a_def node_engine_def)
qed

text \<open>C38: If the selected member has this node's address but the kind is not registered here, the failure is not noticed: a
  nil PID is sent to every member as an activation, and that makes the agent that takes it panic.\<close>

theorem nil_activation_spreads:
  assumes "eng_fit e" "\<not> hasKindLocal a kind" "kind @ ''/'' @ ac_id config \<notin> gm_keys (ag_activated a)"
    and "ms_FilterByKind (ag_members a) (av_members env ''activate'' (ms_members (ag_members a))) kind \<noteq> []"
    and "ac_selectMember config = SelectBy f" "\<And>d. f d = Some m" "m_Host m = e_address e"
  shows "ag_activate env (Suc n) e timeout kind config a =
      Some (concat (map (\<lambda>x. route False e (Some (m_PID x)) (User (Activation None)) None)
          (ms_Slice (ag_members a) (av_members env ''bcast'' (ms_members (ag_members a))))), Inr (None, e)) \<and>
    (\<forall>(b :: 'r Agent) eb. handleActivation (Suc n) eb None b = Some ([], Inl NilDeref))"
  using assms
  by (simp add: ag_activate_def Let_def call_select_def handleActivationRequest_def act_ret_def
      bcast_ok [OF eng_fit_es [OF assms(1)]] handleActivation_def addActivated_def)

theorem nil_activation_spreads_witness:
  "ag_activate (node_env 0 None) 1 node_engine 1000000000 ''room'' (WithSelectMemberFunc (SelectBy (\<lambda>_. Some member_a)) (NewActivationConfig 5)) node_agent =
      Some (concat (map (\<lambda>x. route False node_engine (Some (m_PID x)) (User (Activation None)) None)
          (ms_Slice (ag_members node_agent) (av_members (node_env 0 None) ''bcast'' (ms_members (ag_members node_agent))))), Inr (None, node_engine)) \<and>
    (\<forall>(b :: unit Agent) eb. handleActivation 1 eb None b = Some ([], Inl NilDeref))"
proof -
  have "ms_FilterByKind (ag_members node_agent) (av_members (node_env 0 None) ''activate'' (ms_members (ag_members node_agent))) ''room'' \<noteq> []"
    "\<not> hasKindLocal node_agent ''room''"
    "''room'' @ ''/'' @ ac_id (WithSelectMemberFunc (SelectBy (\<lambda>_. Some member_a)) (NewActivationConfig 5)) \<notin> gm_keys (ag_activated node_agent)"
    by (code_simp, code_simp, code_simp)
  then show ?thesis
    using nil_activation_spreads [OF node_engine_fit, of node_agent "''room''"
        "WithSelectMemberFunc (SelectBy (\<lambda>_. Some member_a)) (NewActivationConfig 5)" "node_env 0 None" "\<lambda>_. Some member_a" member_a 0 1000000000,
        where 'r = unit]
    by (simp add: WithSelectMemberFunc_def member_a_def node_engine_def)
qed


text \<open>A deactivation poisons whatever runs on this node under the ID of the PID, also if the PID's address is
  another node's.\<close>

theorem deactivation_ignores_address:
  assumes "es_ok e" "rg_getByID (e_Registry e) (ID p) = Some proc" "Address p \<noteq> e_address e"
  shows "handleDeactivation env (Suc n) e (Some p) a =
    Some (ProcSend proc (Some p) (PoisonPill (Some (av_cancel env)) True) None # to_stream e (User (DeactivationEvent (Some p))),
      Inr (a\<lparr>ag_activated := gm_del (ID p) (ag_activated a)\<rparr>))"
  using assms
  by (simp add: handleDeactivation_def removeActivated_def Poison_def sendPoisonPill_def Let_def SendLocal_ok route_local_def rg_get_Some
      BroadcastEvent_ok del: BroadcastEvent.simps SendLocal.simps)

theorem deactivation_ignores_address_witness:
  "handleDeactivation (node_env 0 None) 1 node_engine (Some (NewPID ''b:2'' ''cluster/A'')) node_agent =
    Some (ProcSend \<lparr>pr_kind = KProcess, pr_obj = 1, pr_PID = NewPID ''a:1'' ''cluster/A''\<rparr> (Some (NewPID ''b:2'' ''cluster/A''))
        (PoisonPill (Some (av_cancel (node_env 0 None))) True) None #
        to_stream node_engine (User (DeactivationEvent (Some (NewPID ''b:2'' ''cluster/A'')))),
      Inr (node_agent\<lparr>ag_activated := gm_del (ID (NewPID ''b:2'' ''cluster/A'')) (ag_activated node_agent)\<rparr>))"
  by (intro deactivation_ignores_address [where n = 0, simplified One_nat_def [symmetric]] eng_fit_es [OF node_engine_fit])
    (simp_all add: node_engine_def NewPID_def rg_getByID_def gm_get_def)

end
