(* ===== verification/Serialize.thy ===== *)
theory Serialize
  imports Message
begin

text \<open>
  Turning messages into bytes and back (\<^verbatim>\<open>src/remote/serialize.go\<close>, \<^verbatim>\<open>src/remote/protoreg.go\<close>). The
  protobuf library is a parameter: a record of the functions the code calls. A message that is
  forwarded to another engine travels through the local one inside a \<^verbatim>\<open>streamDeliver\<close>
  (\<^verbatim>\<open>src/remote/stream_router.go\<close>), which is a message too.
\<close>

datatype 'u rmsg =
    Plain 'u
  | streamDeliver (sd_sender: "PID option") (sd_target: "PID option") (sd_msg: "'u rmsg any") (sd_priority: bool)

type_synonym 'u msg = "'u rmsg any"

text \<open>\<^verbatim>\<open>is_proto\<close> tells whether the assertion \<^verbatim>\<open>msg.(proto.Message)\<close> succeeds, \<open>pl_New\<close> is
  \<^verbatim>\<open>FindMessageByName\<close> followed by \<^verbatim>\<open>New().Interface()\<close>; \<open>Inl\<close> is an error.\<close>

record 'u protolib =
  is_proto :: "'u msg \<Rightarrow> bool"
  pl_Marshal :: "'u msg \<Rightarrow> string + byte list"
  pl_MessageName :: "'u msg \<Rightarrow> string"
  pl_New :: "string \<Rightarrow> string + 'u msg"
  pl_Unmarshal :: "byte list \<Rightarrow> 'u msg \<Rightarrow> 'u msg \<times> string option"

text \<open>Results: a panic, or an error or a value.\<close>

definition proto_Serialize :: "'u protolib \<Rightarrow> 'u msg \<Rightarrow> (string + byte list) go" where
  "proto_Serialize pl m = (if is_proto pl m then Inr (pl_Marshal pl m) else Inl TypeAssertion)"

definition proto_TypeName :: "'u protolib \<Rightarrow> 'u msg \<Rightarrow> string go" where
  "proto_TypeName pl m = (if is_proto pl m then Inr (pl_MessageName pl m) else Inl TypeAssertion)"

definition proto_Deserialize :: "'u protolib \<Rightarrow> byte list \<Rightarrow> string \<Rightarrow> string + 'u msg" where
  "proto_Deserialize pl data tname =
     (case pl_New pl tname of
        Inl err \<Rightarrow> Inl err
      | Inr pm \<Rightarrow> (case pl_Unmarshal pl data pm of (_, Some err) \<Rightarrow> Inl err | (pm', None) \<Rightarrow> Inr pm'))"

text \<open>What the protobuf documentation promises of a message whose type is linked in: its bytes, read into
  a new message of its type, give the message back.\<close>

definition proto_ok :: "'u protolib \<Rightarrow> 'u msg \<Rightarrow> bool" where
  "proto_ok pl m = (is_proto pl m \<and>
     (case pl_Marshal pl m of
        Inl _ \<Rightarrow> False
      | Inr b \<Rightarrow> (case pl_New pl (pl_MessageName pl m) of
          Inl _ \<Rightarrow> False | Inr z \<Rightarrow> pl_Unmarshal pl b z = (m, None))))"

lemma proto_roundtrip:
  assumes "proto_ok pl m"
  obtains b where "proto_Serialize pl m = Inr (Inr b)" "proto_TypeName pl m = Inr (pl_MessageName pl m)"
    "proto_Deserialize pl b (pl_MessageName pl m) = Inr m"
  using assms by (auto simp: proto_ok_def proto_Serialize_def proto_TypeName_def proto_Deserialize_def split: sum.splits)

subsection \<open>Registered types\<close>

text \<open>The serializer for types with generated \<^verbatim>\<open>MarshalVT\<close> and \<^verbatim>\<open>UnmarshalVT\<close> keeps one instance per
  type name. The instances are objects: the registry maps names to locations of a store, and unmarshalling
  changes the object in place (\<open>merge\<close> is \<^verbatim>\<open>UnmarshalVT\<close> of the generated code).\<close>

record 'o vtregistry =
  vt_types :: "(string, nat) gomap"
  vt_store :: "nat \<Rightarrow> 'o"

definition RegisterType :: "('o \<Rightarrow> string) \<Rightarrow> nat \<Rightarrow> 'o vtregistry \<Rightarrow> 'o vtregistry" where
  "RegisterType messageName loc r = r\<lparr>vt_types := gm_set (messageName (vt_store r loc)) loc (vt_types r)\<rparr>"

definition registryGetType :: "'o vtregistry \<Rightarrow> string \<Rightarrow> string + nat" where
  "registryGetType r t =
     (case gm_get (vt_types r) t of
        Some loc \<Rightarrow> Inr loc
      | None \<Rightarrow> Inl (''given type ('' @ t @ '') is not registered. Did you forget to register your type with remote.RegisterType(&instance{})?''))"

definition vt_Serialize :: "('o \<Rightarrow> (string + byte list) option) \<Rightarrow> 'o \<Rightarrow> (string + byte list) go" where
  "vt_Serialize marshalVT m = (case marshalVT m of None \<Rightarrow> Inl TypeAssertion | Some r \<Rightarrow> Inr r)"

definition vt_TypeName :: "('o \<Rightarrow> string option) \<Rightarrow> 'o \<Rightarrow> string go" where
  "vt_TypeName messageName m = (case messageName m of None \<Rightarrow> Inl TypeAssertion | Some n \<Rightarrow> Inr n)"

definition vt_Deserialize ::
    "(byte list \<Rightarrow> 'o \<Rightarrow> 'o \<times> string option) \<Rightarrow> byte list \<Rightarrow> string \<Rightarrow> 'o vtregistry \<Rightarrow> (string + nat) \<times> 'o vtregistry" where
  "vt_Deserialize merge data mtype r =
     (case registryGetType r mtype of
        Inl err \<Rightarrow> (Inl err, r)
      | Inr v \<Rightarrow>
          (case merge data (vt_store r v) of
             (obj, err) \<Rightarrow> (case err of None \<Rightarrow> Inr v | Some er \<Rightarrow> Inl er, r\<lparr>vt_store := (vt_store r)(v := obj)\<rparr>)))"

text \<open>The serializer for registered types hands out the registered instance itself: deserializing two messages of one
  type returns the same object twice, and the second call overwrites what the first one returned.\<close>

theorem vt_instances_shared:
  assumes "gm_get (vt_types r) t = Some loc" "merge d1 (vt_store r loc) = (o1, None)" "merge d2 o1 = (o2, None)"
  shows "\<exists>r1 r2. vt_Deserialize merge d1 t r = (Inr loc, r1) \<and> vt_store r1 loc = o1 \<and>
    vt_Deserialize merge d2 t r1 = (Inr loc, r2) \<and> vt_store r2 loc = o2"
  using assms by (simp add: vt_Deserialize_def registryGetType_def)

end
