(* ===== verification/Wire.thy ===== *)
theory Wire
  imports Serialize Engine
begin

text \<open>
  What travels between engines: the stream writer packs a batch of messages into one envelope
  (\<^verbatim>\<open>Invoke\<close> and the look-up tables of \<^verbatim>\<open>src/remote/stream_writer.go\<close>), the stream reader unpacks
  it (\<^verbatim>\<open>src/remote/stream_reader.go\<close>). The structs are those of \<^verbatim>\<open>src/remote/remote.proto\<close>.
\<close>

record RMessage =
  rm_Data :: "byte list"
  rm_TargetIndex :: "32 word"
  rm_SenderIndex :: "32 word"
  rm_TypeNameIndex :: "32 word"
  rm_Priority :: bool

record REnvelope =
  re_TypeNames :: "string list"
  re_Targets :: "PID list"
  re_Senders :: "PID list"
  re_Messages :: "RMessage option list"    \<comment> \<open>\<open>None\<close> is a nil pointer\<close>

definition streamWriterBatchSize :: int where
  "streamWriterBatchSize = 1024"

subsection \<open>Look-up tables\<close>

definition lookupPIDs ::
    "(string \<Rightarrow> 64 word) \<Rightarrow> (64 word, 32 word) gomap \<Rightarrow> PID option \<Rightarrow> PID list \<Rightarrow>
     32 word \<times> (64 word, 32 word) gomap \<times> PID list" where
  "lookupPIDs xxh3 m pid pids =
     (case pid of
        None \<Rightarrow> (0, m, pids)
      | Some p \<Rightarrow>
          let mx = word_of_nat (length m); k = lookup_key xxh3 p in
          (case gm_get m k of
             Some i \<Rightarrow> (i, m, pids)
           | None \<Rightarrow> (mx, gm_set k mx m, pids @ [p])))"

definition lookupTypeName ::
    "(string, 32 word) gomap \<Rightarrow> string \<Rightarrow> string list \<Rightarrow> 32 word \<times> (string, 32 word) gomap \<times> string list" where
  "lookupTypeName m name types =
     (let mx = word_of_nat (length m) in
      case gm_get m name of
        Some i \<Rightarrow> (i, m, types)
      | None \<Rightarrow> (mx, gm_set name mx m, types @ [name]))"

text \<open>Both functions intern a value: they find or append the value with a key, and return its index. What
  the writer needs of them is proved once.\<close>

locale interner =
  fixes key :: "'v \<Rightarrow> 'k"
    and intern :: "('k, 32 word) gomap \<Rightarrow> 'v \<Rightarrow> 'v list \<Rightarrow> 32 word \<times> ('k, 32 word) gomap \<times> 'v list"
  assumes intern_old: "gm_get m (key v) = Some i \<Longrightarrow> intern m v vs = (i, m, vs)"
    and intern_new: "gm_get m (key v) = None \<Longrightarrow>
      intern m v vs = (word_of_nat (length m), gm_set (key v) (word_of_nat (length m)) m, vs @ [v])"
begin

definition table :: "('k, 32 word) gomap \<Rightarrow> 'v list \<Rightarrow> bool" where
  "table m vs \<longleftrightarrow> gm_ok m \<and> length m = length vs \<and>
     (\<forall>k i. gm_get m k = Some i \<longrightarrow> unat i < length vs \<and> key (vs ! unat i) = k)"

lemma table_empty: "table [] []"
  by (simp add: table_def)

lemma length_gm_set_new: "gm_ok m \<Longrightarrow> gm_get m k = None \<Longrightarrow> length (gm_set k x m) = Suc (length m)"
  by (simp add: gm_length_card gm_get_None_iff)

lemma intern_table:
  assumes "table m vs" "length vs < 2 ^ 31" "intern m v vs = (i, m', vs')"
  shows "table m' vs' \<and> (\<exists>ws. vs' = vs @ ws \<and> length ws \<le> 1 \<and> set ws \<subseteq> {v}) \<and> unat i < length vs' \<and> key (vs' ! unat i) = key v"
proof (cases "gm_get m (key v)")
  case None
  then have e: "i = word_of_nat (length vs)" "m' = gm_set (key v) (word_of_nat (length vs)) m" "vs' = vs @ [v]"
    using assms(1,3) intern_new [OF None] by (auto simp: table_def)
  have u: "unat (word_of_nat (length vs) :: 32 word) = length vs"
    using assms(2) by (simp add: unat_of_nat take_bit_nat_eq_self)
  have "table m' vs'" unfolding table_def
    using assms(1) None u by (auto simp: e table_def length_gm_set_new nth_append less_Suc_eq split: if_splits)
  then show ?thesis using e u by auto
next
  case (Some j)
  then show ?thesis using assms(1,3) intern_old [OF Some] by (auto simp: table_def)
qed

end

interpretation pids: interner "lookup_key xxh3" "\<lambda>m p vs. lookupPIDs xxh3 m (Some p) vs"
  by unfold_locales (simp_all add: lookupPIDs_def Let_def)

interpretation names: interner "\<lambda>s. s" lookupTypeName
  by unfold_locales (simp_all add: lookupTypeName_def Let_def)

subsection \<open>The writer's batch\<close>

text \<open>The state of the loop of \<^verbatim>\<open>Invoke\<close>. The messages are filled by index in the code; here they are
  appended, one per iteration, \<open>None\<close> where the code leaves nil.\<close>

record tables =
  t_typeLookup :: "(string, 32 word) gomap"
  t_typeNames :: "string list"
  t_senderLookup :: "(64 word, 32 word) gomap"
  t_senders :: "PID list"
  t_targetLookup :: "(64 word, 32 word) gomap"
  t_targets :: "PID list"
  t_messages :: "RMessage option list"

definition no_tables :: tables where
  "no_tables = \<lparr>t_typeLookup = [], t_typeNames = [], t_senderLookup = [], t_senders = [],
     t_targetLookup = [], t_targets = [], t_messages = []\<rparr>"

definition pack_msg :: "(string \<Rightarrow> 64 word) \<Rightarrow> 'u protolib \<Rightarrow> 'u rmsg Envelope \<Rightarrow> tables \<Rightarrow> tables go" where
  "pack_msg xxh3 pl env t =
     (case Msg env of
        User (streamDeliver sender target msg prio) \<Rightarrow>
          go_bind (proto_TypeName pl msg) (\<lambda>tname.
            (case lookupTypeName (t_typeLookup t) tname (t_typeNames t) of (typeID, tyl, tns) \<Rightarrow>
             case lookupPIDs xxh3 (t_senderLookup t) sender (t_senders t) of (senderID, sl, ss) \<Rightarrow>
             case lookupPIDs xxh3 (t_targetLookup t) target (t_targets t) of (targetID, tal, ts) \<Rightarrow>
               go_bind (proto_Serialize pl msg) (\<lambda>r.
                 Inr (t\<lparr>t_typeLookup := tyl, t_typeNames := tns, t_senderLookup := sl, t_senders := ss,
                   t_targetLookup := tal, t_targets := ts,
                   t_messages := t_messages t @
                     [case r of Inl err \<Rightarrow> None
                      | Inr b \<Rightarrow> Some \<lparr>rm_Data = b, rm_TargetIndex = targetID, rm_SenderIndex = senderID,
                                  rm_TypeNameIndex = typeID, rm_Priority = prio\<rparr>]\<rparr>))))
      | _ \<Rightarrow> Inl TypeAssertion)"

fun pack_all :: "(string \<Rightarrow> 64 word) \<Rightarrow> 'u protolib \<Rightarrow> 'u rmsg Envelope list \<Rightarrow> tables \<Rightarrow> tables go" where
  "pack_all xxh3 pl [] t = Inr t"
| "pack_all xxh3 pl (env # envs) t = go_bind (pack_msg xxh3 pl env t) (pack_all xxh3 pl envs)"

definition pack :: "(string \<Rightarrow> 64 word) \<Rightarrow> 'u protolib \<Rightarrow> 'u rmsg Envelope list \<Rightarrow> REnvelope go" where
  "pack xxh3 pl msgs = go_bind (pack_all xxh3 pl msgs no_tables) (\<lambda>t.
     Inr \<lparr>re_TypeNames = t_typeNames t, re_Targets = t_targets t, re_Senders = t_senders t,
       re_Messages = t_messages t\<rparr>)"

text \<open>Sending the envelope: the stream's answer decides whether the connection is closed (end of file), an error is
  logged, or nothing; unless it is closed, the deadline is refreshed. A nil stream panics.\<close>

datatype send_result = SendOk | SendEOF | SendError

datatype sw_effect = StreamSend REnvelope | ConnClose | SetDeadline | LogError

definition sw_Invoke ::
    "(string \<Rightarrow> 64 word) \<Rightarrow> 'u protolib \<Rightarrow> bool \<Rightarrow> send_result \<Rightarrow> 'u rmsg Envelope list \<Rightarrow> sw_effect list go" where
  "sw_Invoke xxh3 pl has_stream sent msgs = go_bind (pack xxh3 pl msgs) (\<lambda>env.
     if \<not> has_stream then Inl NilDeref
     else Inr (case sent of
       SendEOF \<Rightarrow> [StreamSend env, ConnClose]
     | SendError \<Rightarrow> [StreamSend env, LogError, SetDeadline]
     | SendOk \<Rightarrow> [StreamSend env, SetDeadline]))"

subsection \<open>The reader\<close>

text \<open>A nil message is encoded as an empty one, so the other side finds a message with no data whose indexes
  are all zero; everything else arrives as it was sent.\<close>

definition zero_RMessage :: RMessage where
  "zero_RMessage = \<lparr>rm_Data = [], rm_TargetIndex = 0, rm_SenderIndex = 0, rm_TypeNameIndex = 0, rm_Priority = False\<rparr>"

definition received_messages :: "REnvelope \<Rightarrow> RMessage list" where
  "received_messages env = map (\<lambda>m. case m of None \<Rightarrow> zero_RMessage | Some m \<Rightarrow> m) (re_Messages env)"

datatype read_result = ReadOn | ReadError string | ReadPanic go_panic | ReadStuck

text \<open>One message: the type name, the payload, the target and the sender, then the local engine. \<open>ReadStuck\<close>: the
  engine's broadcast never returns.\<close>

definition read_msg :: "nat \<Rightarrow> Engine \<Rightarrow> 'u protolib \<Rightarrow> REnvelope \<Rightarrow> RMessage \<Rightarrow> 'u rmsg call list \<times> read_result" where
  "read_msg n e pl env msg =
     (case go_index (re_TypeNames env) (sint (rm_TypeNameIndex msg)) of
        Inl p \<Rightarrow> ([], ReadPanic p)
      | Inr tname \<Rightarrow>
          (case proto_Deserialize pl (rm_Data msg) tname of
             Inl err \<Rightarrow> ([], ReadError err)
           | Inr payload \<Rightarrow>
               (case go_index (re_Targets env) (sint (rm_TargetIndex msg)) of
                  Inl p \<Rightarrow> ([], ReadPanic p)
                | Inr target \<Rightarrow>
                    (case (if length (re_Senders env) > 0
                           then map_sum id Some (go_index (re_Senders env) (sint (rm_SenderIndex msg)))
                           else Inr None) of
                       Inl p \<Rightarrow> ([], ReadPanic p)
                     | Inr sender \<Rightarrow>
                         (case (if rm_Priority msg then SendPriorityLocal else SendLocal) n e (Some target) payload sender of
                            None \<Rightarrow> ([], ReadStuck)
                          | Some cs \<Rightarrow> (cs, ReadOn))))))"

fun read_msgs :: "nat \<Rightarrow> Engine \<Rightarrow> 'u protolib \<Rightarrow> REnvelope \<Rightarrow> RMessage list \<Rightarrow> 'u rmsg call list \<times> read_result" where
  "read_msgs n e pl env [] = ([], ReadOn)"
| "read_msgs n e pl env (msg # msgs) =
     (case read_msg n e pl env msg of
        (cs, ReadOn) \<Rightarrow> (case read_msgs n e pl env msgs of (cs', r) \<Rightarrow> (cs @ cs', r))
      | r \<Rightarrow> r)"

text \<open>The receive loop over what the stream yields: envelopes, then an error; a cancelled context ends it without
  one.\<close>

datatype recv_end = RecvCanceled | RecvError string

fun sr_Receive :: "nat \<Rightarrow> Engine \<Rightarrow> 'u protolib \<Rightarrow> REnvelope list \<Rightarrow> recv_end \<Rightarrow> 'u rmsg call list \<times> read_result" where
  "sr_Receive n e pl [] fin = ([], case fin of RecvCanceled \<Rightarrow> ReadOn | RecvError err \<Rightarrow> ReadError err)"
| "sr_Receive n e pl (env # envs) fin =
     (case read_msgs n e pl env (received_messages env) of
        (cs, ReadOn) \<Rightarrow> (case sr_Receive n e pl envs fin of (cs', r) \<Rightarrow> (cs @ cs', r))
      | r \<Rightarrow> r)"


subsection \<open>A batch crosses the wire\<close>

text \<open>A delivery: sender, target, message and priority, and the envelope the writer gets it in.\<close>

type_synonym 'u delivery = "PID option \<times> PID \<times> 'u msg \<times> bool"

fun deliver_env :: "'u delivery \<Rightarrow> 'u rmsg Envelope" where
  "deliver_env (sender, target, msg, prio) = \<lparr>Msg = User (streamDeliver sender (Some target) msg prio), Sender = None\<rparr>"

lemma go_index_word:
  assumes "unat (i :: 32 word) < length xs" "length xs < 2 ^ 31"
  shows "go_index xs (sint i) = Inr (xs ! unat i)"
proof -
  have u: "uint i = int (unat i)" by simp
  have "unat i < 2 ^ 31" using assms by (rule less_trans)
  then have "uint i < 2 ^ 31" unfolding u by (metis of_nat_less_iff of_nat_numeral of_nat_power)
  moreover have "- (2 ^ 31) \<le> uint i" by (rule order_trans [of _ 0]) simp_all
  ultimately have "sint i = int (unat i)" unfolding u [symmetric] sint_uint
    by (intro signed_take_bit_int_eq_self) simp_all
  moreover have "go_index xs (int (unat i)) = Inr (xs ! nat (int (unat i)))"
    by (rule go_index_ok, rule of_nat_0_le_iff, rule of_nat_less_iff [THEN iffD2, OF assms(1)])
  ultimately show ?thesis by (simp only: nat_int)
qed

definition tabs_ok :: "(string \<Rightarrow> 64 word) \<Rightarrow> PID set \<Rightarrow> PID set \<Rightarrow> tables \<Rightarrow> bool" where
  "tabs_ok xxh3 SS TS t \<longleftrightarrow>
     names.table (t_typeLookup t) (t_typeNames t) \<and>
     pids.table xxh3 (t_senderLookup t) (t_senders t) \<and> set (t_senders t) \<subseteq> SS \<and>
     pids.table xxh3 (t_targetLookup t) (t_targets t) \<and> set (t_targets t) \<subseteq> TS \<and>
     length (t_typeNames t) \<le> length (t_messages t) \<and> length (t_senders t) \<le> length (t_messages t) \<and>
     length (t_targets t) \<le> length (t_messages t)"

text \<open>The tables only grow.\<close>

definition grows :: "tables \<Rightarrow> tables \<Rightarrow> bool" where
  "grows t t' \<longleftrightarrow> (\<exists>a b c. t_typeNames t' = t_typeNames t @ a \<and> t_senders t' = t_senders t @ b \<and>
     t_targets t' = t_targets t @ c)"

lemma grows_refl [simp]: "grows t t"
  by (simp add: grows_def)

lemma grows_trans: "grows t u \<Longrightarrow> grows u v \<Longrightarrow> grows t v"
  by (auto simp: grows_def)

text \<open>The packed message \<open>r\<close> stands for the delivery, given the tables.\<close>

fun packed :: "'u protolib \<Rightarrow> tables \<Rightarrow> 'u delivery \<Rightarrow> RMessage \<Rightarrow> bool" where
  "packed pl t (sender, target, msg, prio) r \<longleftrightarrow>
     proto_Serialize pl msg = Inr (Inr (rm_Data r)) \<and> rm_Priority r = prio \<and>
     unat (rm_TypeNameIndex r) < length (t_typeNames t) \<and>
     t_typeNames t ! unat (rm_TypeNameIndex r) = pl_MessageName pl msg \<and>
     unat (rm_TargetIndex r) < length (t_targets t) \<and> t_targets t ! unat (rm_TargetIndex r) = target \<and>
     (case sender of None \<Rightarrow> rm_SenderIndex r = 0
      | Some p \<Rightarrow> unat (rm_SenderIndex r) < length (t_senders t) \<and> t_senders t ! unat (rm_SenderIndex r) = p)"

lemma packed_grows: "packed pl t d r \<Longrightarrow> grows t t' \<Longrightarrow> packed pl t' d r"
  by (cases d) (auto simp: grows_def nth_append split: option.splits)

lemma lookupPIDs_optional:
  assumes "pids.table xxh3 m vs" "length vs < 2 ^ 31" "lookupPIDs xxh3 m p vs = (i, m', vs')"
    and "inj_on (lookup_key xxh3) S" "set vs \<subseteq> S" "set_option p \<subseteq> S"
  shows "pids.table xxh3 m' vs' \<and> (\<exists>ws. vs' = vs @ ws \<and> length ws \<le> 1) \<and> set vs' \<subseteq> S \<and>
    (case p of None \<Rightarrow> i = 0 \<and> vs' = vs | Some q \<Rightarrow> unat i < length vs' \<and> vs' ! unat i = q)"
proof (cases p)
  case None
  then show ?thesis using assms by (auto simp: lookupPIDs_def)
next
  case (Some q)
  from pids.intern_table [OF assms(1,2) assms(3) [unfolded Some]] obtain ws where
    r: "pids.table xxh3 m' vs'" "vs' = vs @ ws" "length ws \<le> 1" "set ws \<subseteq> {q}" "unat i < length vs'"
      "lookup_key xxh3 (vs' ! unat i) = lookup_key xxh3 q" by blast
  then have s: "set vs' \<subseteq> S" using assms(5,6) Some by auto
  then have "vs' ! unat i \<in> S" using r(5) by (meson nth_mem subsetD)
  then have "vs' ! unat i = q" using assms(4,6) r(6) Some by (auto simp: inj_on_def)
  then show ?thesis using r s Some by auto
qed


lemma pack_msg_ok:
  assumes "tabs_ok xxh3 SS TS t" "length (t_messages t) < 2 ^ 31" "proto_ok pl msg"
    and "inj_on (lookup_key xxh3) SS" "inj_on (lookup_key xxh3) TS" "set_option sender \<subseteq> SS" "target \<in> TS"
  shows "\<exists>t' r. pack_msg xxh3 pl (deliver_env (sender, target, msg, prio)) t = Inr t' \<and> tabs_ok xxh3 SS TS t' \<and>
    grows t t' \<and> t_messages t' = t_messages t @ [Some r] \<and> packed pl t' (sender, target, msg, prio) r \<and>
    (sender = None \<longrightarrow> t_senders t' = t_senders t)"
proof -
  obtain b where b: "proto_Serialize pl msg = Inr (Inr b)" "proto_TypeName pl msg = Inr (pl_MessageName pl msg)"
    by (rule proto_roundtrip [OF assms(3)])
  obtain i tyl tns where ty: "lookupTypeName (t_typeLookup t) (pl_MessageName pl msg) (t_typeNames t) = (i, tyl, tns)"
    using prod_cases3 by blast
  obtain j sl ss where se: "lookupPIDs xxh3 (t_senderLookup t) sender (t_senders t) = (j, sl, ss)" using prod_cases3 by blast
  obtain k tal ts where ta: "lookupPIDs xxh3 (t_targetLookup t) (Some target) (t_targets t) = (k, tal, ts)" using prod_cases3 by blast
  have l: "length (t_typeNames t) < 2 ^ 31" "length (t_senders t) < 2 ^ 31" "length (t_targets t) < 2 ^ 31"
    using assms(1,2) by (auto simp: tabs_ok_def)
  have inv: "names.table (t_typeLookup t) (t_typeNames t)" "pids.table xxh3 (t_senderLookup t) (t_senders t)"
    "set (t_senders t) \<subseteq> SS" "pids.table xxh3 (t_targetLookup t) (t_targets t)" "set (t_targets t) \<subseteq> TS"
    using assms(1) by (simp_all add: tabs_ok_def)
  have 1: "names.table tyl tns" "\<exists>ws. tns = t_typeNames t @ ws \<and> length ws \<le> 1" "unat i < length tns"
    "tns ! unat i = pl_MessageName pl msg" using names.intern_table [OF inv(1) l(1) ty] by auto
  note 2 = lookupPIDs_optional [OF inv(2) l(2) se assms(4) inv(3) assms(6)]
  note 3 = lookupPIDs_optional [OF inv(4) l(3) ta assms(5) inv(5)]
  define r where "r = \<lparr>rm_Data = b, rm_TargetIndex = k, rm_SenderIndex = j, rm_TypeNameIndex = i, rm_Priority = prio\<rparr>"
  define t' where "t' = t\<lparr>t_typeLookup := tyl, t_typeNames := tns, t_senderLookup := sl, t_senders := ss,
    t_targetLookup := tal, t_targets := ts, t_messages := t_messages t @ [Some r]\<rparr>"
  have "pack_msg xxh3 pl (deliver_env (sender, target, msg, prio)) t = Inr t'"
    using b ty se ta by (simp add: pack_msg_def t'_def r_def)
  moreover have "tabs_ok xxh3 SS TS t'" "grows t t'" using 1 2 3 assms(1,7)
    by (auto simp: tabs_ok_def t'_def grows_def)
  moreover have "packed pl t' (sender, target, msg, prio) r" "sender = None \<longrightarrow> t_senders t' = t_senders t"
    using 1 2 3 assms(7) b(1) by (auto simp: t'_def r_def split: option.splits)
  ultimately show ?thesis by (intro exI [of _ t'] exI [of _ r]) (simp add: t'_def)
qed

definition fits :: "'u protolib \<Rightarrow> PID set \<Rightarrow> PID set \<Rightarrow> 'u delivery \<Rightarrow> bool" where
  "fits pl SS TS d = (case d of (s, tg, m, p) \<Rightarrow> proto_ok pl m \<and> set_option s \<subseteq> SS \<and> tg \<in> TS)"

lemma pack_all_ok:
  assumes "tabs_ok xxh3 SS TS t" "length (t_messages t) + length ds \<le> 2 ^ 31"
    and "inj_on (lookup_key xxh3) SS" "inj_on (lookup_key xxh3) TS"
    and "list_all (fits pl SS TS) ds"
  shows "\<exists>t' rs. pack_all xxh3 pl (map deliver_env ds) t = Inr t' \<and> tabs_ok xxh3 SS TS t' \<and> grows t t' \<and>
    t_messages t' = t_messages t @ map Some rs \<and> list_all2 (packed pl t') ds rs \<and>
    ((\<forall>d\<in>set ds. fst d = None) \<longrightarrow> t_senders t' = t_senders t)"
  using assms(1,2,5)
proof (induction ds arbitrary: t)
  case (Cons d ds)
  obtain sender target msg prio where d: "d = (sender, target, msg, prio)" by (cases d)
  have h: "proto_ok pl msg" "set_option sender \<subseteq> SS" "target \<in> TS"
    using Cons.prems(3) d by (simp_all add: fits_def)
  from pack_msg_ok [OF Cons.prems(1) _ h(1) assms(3,4) h(2,3), of prio] Cons.prems(2) obtain t1 r where
    1: "pack_msg xxh3 pl (deliver_env d) t = Inr t1" "tabs_ok xxh3 SS TS t1" "grows t t1"
      "t_messages t1 = t_messages t @ [Some r]" "packed pl t1 d r" "sender = None \<longrightarrow> t_senders t1 = t_senders t"
    unfolding d by auto
  from Cons.IH [OF 1(2)] 1(4) Cons.prems(2,3) obtain t' rs where
    2: "pack_all xxh3 pl (map deliver_env ds) t1 = Inr t'" "tabs_ok xxh3 SS TS t'" "grows t1 t'"
      "t_messages t' = t_messages t1 @ map Some rs" "list_all2 (packed pl t') ds rs"
      "(\<forall>d\<in>set ds. fst d = None) \<longrightarrow> t_senders t' = t_senders t1"
    by auto
  show ?case
    using 1 2 packed_grows [OF 1(5) 2(3)] grows_trans [OF 1(3) 2(3)] d
    by (intro exI [of _ t'] exI [of _ "r # rs"]) auto
qed (auto intro: exI [of _ "[]"])

lemma read_packed:
  assumes "es_ok e" "packed pl t (sender, target, msg, prio) r" "proto_ok pl msg"
    and "length (t_typeNames t) < 2 ^ 31" "length (t_targets t) < 2 ^ 31" "length (t_senders t) < 2 ^ 31"
    and "sender = None \<Longrightarrow> t_senders t = []"
    and "re_TypeNames env = t_typeNames t" "re_Targets env = t_targets t" "re_Senders env = t_senders t"
  shows "read_msg (Suc n) e pl env r = (route_local prio e (Some target) msg sender, ReadOn)"
proof -
  obtain b where b: "proto_Serialize pl msg = Inr (Inr b)" "proto_Deserialize pl b (pl_MessageName pl msg) = Inr msg"
    by (rule proto_roundtrip [OF assms(3)])
  then have "proto_Deserialize pl (rm_Data r) (pl_MessageName pl msg) = Inr msg" using assms(2) by auto
  moreover have "go_index (re_TypeNames env) (sint (rm_TypeNameIndex r)) = Inr (pl_MessageName pl msg)"
    "go_index (re_Targets env) (sint (rm_TargetIndex r)) = Inr target"
    using assms(2,4,5,8,9) by (auto simp: go_index_word)
  moreover have "(if length (re_Senders env) > 0
      then map_sum id Some (go_index (re_Senders env) (sint (rm_SenderIndex r))) else Inr None) = Inr sender"
    using assms(2,6,7,10) by (auto simp: go_index_word split: option.splits)
  moreover have "rm_Priority r = prio" using assms(2) by simp
  ultimately show ?thesis by (cases prio) (simp_all add: read_msg_def SendLocal_ok [OF assms(1)] del: SendLocal.simps)
qed

lemma read_all_packed:
  assumes "list_all2 P ds rs" "\<And>d r. d \<in> set ds \<Longrightarrow> P d r \<Longrightarrow> read_msg n e pl env r = (f d, ReadOn)"
  shows "read_msgs n e pl env rs = (concat (map f ds), ReadOn)"
  using assms
proof (induction rule: list_all2_induct)
  case (Cons d ds r rs)
  have "read_msg n e pl env r = (f d, ReadOn)" "read_msgs n e pl env rs = (concat (map f ds), ReadOn)"
    using Cons.prems [of d r] Cons.hyps(1) Cons.IH [OF Cons.prems] by simp_all
  then show ?case by simp
qed simp

subsection \<open>Properties\<close>


text \<open>A protobuf library for numbers below 200, a hash, and two deliveries, for the witnesses.\<close>

definition demo_pl :: "nat protolib" where
  "demo_pl = \<lparr>is_proto = (\<lambda>m. case m of User (Plain k) \<Rightarrow> True | _ \<Rightarrow> False),
     pl_Marshal = (\<lambda>m. case m of User (Plain k) \<Rightarrow> if k < 200 then Inr [word_of_nat k] else Inl ''too big'' | _ \<Rightarrow> Inl []),
     pl_MessageName = (\<lambda>m. ''num''),
     pl_New = (\<lambda>t. if t = ''num'' then Inr (User (Plain 0)) else Inl ''not found''),
     pl_Unmarshal = (\<lambda>b m. case b of [x] \<Rightarrow> (User (Plain (unat x)), None) | _ \<Rightarrow> (m, None))\<rparr>"

definition demo_hash :: "string \<Rightarrow> 64 word" where
  "demo_hash s = word_of_nat (length s)"

definition demo_deliveries :: "nat delivery list" where
  "demo_deliveries =
     [(Some (NewPID ''a'' ''x''), NewPID ''local'' ''foo/2'', User (Plain 5), False),
      (Some (NewPID ''a'' ''yy''), NewPID ''local'' ''eventstream/1'', User (Plain 6), True)]"


text \<open>A message without a sender that shares a batch with one that has a sender arrives with that sender: both have the
  sender index 0.\<close>

theorem nil_sender_misattributed:
  "(case pack demo_hash demo_pl (map deliver_env
       [(Some (NewPID ''a'' ''x''), NewPID ''local'' ''foo/2'', User (Plain 5), False),
        (None, NewPID ''local'' ''foo/2'', User (Plain 6), False)]) of
      Inl _ \<Rightarrow> None
    | Inr env \<Rightarrow> Some (sr_Receive 1 demo_engine demo_pl [env] RecvCanceled)) =
   Some ([ProcSend demo_proc (Some (NewPID ''local'' ''foo/2'')) (User (Plain 5)) (Some (NewPID ''a'' ''x'')),
          ProcSend demo_proc (Some (NewPID ''local'' ''foo/2'')) (User (Plain 6)) (Some (NewPID ''a'' ''x''))], ReadOn)"
  by code_simp

text \<open>A message that cannot be serialized is not dropped: an empty message of the batch's first type is delivered
  to the batch's first target in its place.\<close>

theorem failed_message_delivered_empty:
  "(case pack demo_hash demo_pl (map deliver_env
       [(None, NewPID ''local'' ''foo/2'', User (Plain 5), False),
        (None, NewPID ''local'' ''eventstream/1'', User (Plain 999), False)]) of
      Inl _ \<Rightarrow> None
    | Inr env \<Rightarrow> Some (sr_Receive 1 demo_engine demo_pl [env] RecvCanceled)) =
   Some ([ProcSend demo_proc (Some (NewPID ''local'' ''foo/2'')) (User (Plain 5)) None,
          ProcSend demo_proc (Some (NewPID ''local'' ''foo/2'')) (User (Plain 0)) None], ReadOn)"
  by code_simp

end
