(* ===== verification/EventStream.thy ===== *)
theory EventStream
  imports Context
begin

text \<open>
  The event stream (\<^verbatim>\<open>src/actor/event_stream.go\<close>): the actor that forwards every event to its
  subscribers. Its subscribers are the keys of a map from pointers, so two pointers to equal PIDs
  are two subscribers.
\<close>

type_synonym subs = "(pidptr option, bool) gomap"

definition newEventStream :: "nat \<Rightarrow> 'u any + subs" where
  "newEventStream = (\<lambda>_. Inr [])"

fun es_forward :: "nat \<Rightarrow> Engine \<Rightarrow> ('u, subs) Context \<Rightarrow> pidptr option list \<Rightarrow> 'u call list option" where
  "es_forward n e c [] = Some []"
| "es_forward n e c (sub # rest) =
     (case Forward n e c (map_option ptr_pid sub) of
        None \<Rightarrow> None
      | Some cs \<Rightarrow> map_option (\<lambda>cs'. cs @ cs') (es_forward n e c rest))"

text \<open>\<open>ks\<close> is the order in which the map is iterated. The result is what was logged, the calls made
  and the new map.\<close>

definition es_Receive ::
    "nat \<Rightarrow> ('u \<Rightarrow> 'u log_line option) \<Rightarrow> Engine \<Rightarrow> pidptr option list \<Rightarrow> ('u, subs) Context \<Rightarrow> subs \<Rightarrow>
     ('u log_line list \<times> 'u call list \<times> subs) option" where
  "es_Receive n user_log e ks c subs =
     (case c_Message c of
        EventSub pid \<Rightarrow> Some ([], [], gm_set pid True subs)
      | EventUnsub pid \<Rightarrow> Some ([], [], gm_del pid subs)
      | msg \<Rightarrow>
          map_option (\<lambda>cs. (case Log user_log msg of None \<Rightarrow> [] | Some l \<Rightarrow> [l], cs, subs))
            (es_forward n e c (map fst (gm_range subs ks))))"

subsection \<open>The subscribers\<close>

fun es_spec :: "'u any \<Rightarrow> pidptr option set \<Rightarrow> pidptr option set" where
  "es_spec (EventSub pid) S = insert pid S"
| "es_spec (EventUnsub pid) S = S - {pid}"
| "es_spec _ S = S"

fun is_event :: "'u any \<Rightarrow> bool" where
  "is_event (EventSub pid) = False"
| "is_event (EventUnsub pid) = False"
| "is_event _ = True"

text \<open>A run of the actor over a list of messages, each with the iteration order it meets.\<close>

fun es_run ::
    "nat \<Rightarrow> ('u \<Rightarrow> 'u log_line option) \<Rightarrow> Engine \<Rightarrow> ('u, subs) Context \<Rightarrow> ('u any \<times> pidptr option list) list \<Rightarrow> subs \<Rightarrow>
     ('u call list \<times> subs) option" where
  "es_run n user_log e c [] subs = Some ([], subs)"
| "es_run n user_log e c ((m, ks) # ms) subs =
     (case es_Receive n user_log e ks (c\<lparr>c_message := m\<rparr>) subs of
        None \<Rightarrow> None
      | Some (ls, cs, subs') \<Rightarrow> map_option (\<lambda>(cs', subs''). (cs @ cs', subs'')) (es_run n user_log e c ms subs'))"

lemma es_forward_ok:
  assumes "es_ok e"
  shows "es_forward (Suc n) e c subs =
    Some (concat (map (\<lambda>s. route False e (map_option ptr_pid s) (c_message c) (Some (c_pid c))) subs))"
  by (induction subs) (simp_all add: Forward_def SendWithSender_def send_ok [OF assms] del: send.simps)

lemma es_Receive_event:
  assumes "es_ok e" "is_event (c_message c)"
  shows "es_Receive (Suc n) user_log e ks c subs = Some
    (case Log user_log (c_message c) of None \<Rightarrow> [] | Some l \<Rightarrow> [l],
     concat (map (\<lambda>s. route False e (map_option ptr_pid s) (c_message c) (Some (c_pid c))) (map fst (gm_range subs ks))), subs)"
  using assms(2) es_forward_ok [OF assms(1), of n c "map fst (gm_range subs ks)"]
  by (cases "c_message c") (simp_all add: es_Receive_def c_Message_def)

lemma es_Receive_subs:
  assumes "es_ok e" "gm_ok subs"
  shows "\<exists>ls cs subs'. es_Receive (Suc n) user_log e ks c subs = Some (ls, cs, subs') \<and> gm_ok subs' \<and>
    gm_keys subs' = es_spec (c_message c) (gm_keys subs)"
proof (cases "is_event (c_message c)")
  case True
  then have "es_spec (c_message c) (gm_keys subs) = gm_keys subs" by (cases "c_message c") simp_all
  then show ?thesis using es_Receive_event [OF assms(1) True, of n user_log ks subs] assms(2) by simp
next
  case False
  then show ?thesis using assms(2) by (cases "c_message c") (auto simp: es_Receive_def c_Message_def)
qed

lemma es_run_subs:
  assumes "es_ok e" "gm_ok subs"
  shows "\<exists>cs subs'. es_run (Suc n) user_log e c ms subs = Some (cs, subs') \<and> gm_ok subs' \<and>
    gm_keys subs' = fold es_spec (map fst ms) (gm_keys subs)"
  using assms(2)
proof (induction ms arbitrary: subs)
  case (Cons mk ms)
  obtain m ks where mk: "mk = (m, ks)" by fastforce
  from es_Receive_subs [OF assms(1) Cons.prems, of n user_log ks "c\<lparr>c_message := m\<rparr>"] obtain ls cs subs1 where
    r: "es_Receive (Suc n) user_log e ks (c\<lparr>c_message := m\<rparr>) subs = Some (ls, cs, subs1)" "gm_ok subs1"
    "gm_keys subs1 = es_spec m (gm_keys subs)" by auto
  from Cons.IH [OF r(2)] r mk show ?case by (auto simp del: gm_range_simps)
qed simp

subsection \<open>Properties\<close>

definition demo_ctx :: "(nat, subs) Context" where
  "demo_ctx = newContext 0 (pr_PID demo_es)"

definition demo_sub :: "nat \<Rightarrow> pidptr" where
  "demo_sub loc = PidPtr loc (pr_PID demo_proc)"

text \<open>C9: After any history of subscriptions, unsubscriptions and events, an event goes exactly once to each pointer
  that is subscribed then (subscribed and not unsubscribed since), with the event stream as its sender, and to
  nobody else; the history itself is processed without panicking or getting stuck.\<close>

theorem eventstream_delivers:
  assumes "es_ok e" "0 < n"
  shows "\<exists>cs subs. es_run n user_log e c history [] = Some (cs, subs) \<and>
    gm_keys subs = fold es_spec (map fst history) {} \<and>
    (gm_order subs ks \<longrightarrow> is_event m \<longrightarrow> (\<exists>ls. es_Receive n user_log e ks (c\<lparr>c_message := m\<rparr>) subs =
       Some (ls, concat (map (\<lambda>s. route False e (map_option ptr_pid s) m (Some (c_pid c))) ks), subs)))"
proof -
  obtain k where n: "n = Suc k" using assms(2) by (cases n) auto
  from es_run_subs [OF assms(1), of "[]" k user_log c history] obtain cs subs where
    r: "es_run n user_log e c history [] = Some (cs, subs)" "gm_keys subs = fold es_spec (map fst history) {}"
    by (auto simp: n)
  moreover have "es_Receive n user_log e ks (c\<lparr>c_message := m\<rparr>) subs = Some
      (case Log user_log m of None \<Rightarrow> [] | Some l \<Rightarrow> [l],
       concat (map (\<lambda>s. route False e (map_option ptr_pid s) m (Some (c_pid c))) ks), subs)"
    if "gm_order subs ks" "is_event m"
    using es_Receive_event [OF assms(1), of "c\<lparr>c_message := m\<rparr>" k user_log ks subs] that map_fst_gm_range [of ks subs]
    by (simp add: n gm_order_def del: map_map)
  ultimately show ?thesis by blast
qed

theorem eventstream_delivers_witness:
  "\<exists>cs subs. es_run 1 (\<lambda>_. None) demo_engine demo_ctx [(EventSub (Some (demo_sub 1)), []), (User 4, [Some (demo_sub 1)])] [] =
     Some (cs, subs) \<and> gm_keys subs = {Some (demo_sub 1)}"
proof -
  have "es_ok demo_engine" by code_simp
  from eventstream_delivers [OF this, of 1 "\<lambda>_. None" demo_ctx
      "[(EventSub (Some (demo_sub 1)), []), (User 4, [Some (demo_sub 1)])]" "[]" NilAny]
  show ?thesis by auto
qed

text \<open>Subscribers are told apart by their pointers: subscribing the same PID through two pointers delivers every event
  twice, and unsubscribing through a third pointer to it changes nothing.\<close>

theorem unsubscribe_by_pointer:
  "map_option fst (es_run 1 (\<lambda>_. None) demo_engine demo_ctx
     [(EventSub (Some (demo_sub 1)), []), (EventSub (Some (demo_sub 2)), []), (EventUnsub (Some (demo_sub 3)), []),
      (User 4, [Some (demo_sub 1), Some (demo_sub 2)])] []) =
   Some [ProcSend demo_proc (Some (pr_PID demo_proc)) (User 4) (Some (pr_PID demo_es)),
         ProcSend demo_proc (Some (pr_PID demo_proc)) (User 4) (Some (pr_PID demo_es))]"
  by code_simp

text \<open>A subscriber that dies without unsubscribing keeps the event stream busy forever: every event the stream
  receives makes it send itself one more event, the dead letter of forwarding the first.\<close>

theorem dead_subscriber_loops:
  assumes "es_ok e" "0 < n" "e_eventStream e = Some es" "rg_get (e_Registry e) (Some es) = Some es_proc"
    and "Some (PidPtr loc p) \<in> gm_keys subs" "gm_order subs ks" "Address p = e_address e"
    and dead: "rg_getByID (e_Registry e) (ID p) = None" and "is_event (c_message c)" "c_pid c = es"
  shows "\<exists>ls cs. es_Receive n user_log e ks c subs = Some (ls, cs, subs) \<and>
    ProcSend es_proc (Some es) (DeadLetterEvent (Some p) (c_message c) (Some es)) None \<in> set cs \<and>
    is_event (DeadLetterEvent (Some p) (c_message c) (Some es))"
proof -
  obtain k where n: "n = Suc k" using assms(2) by (cases n) auto
  have "Some (PidPtr loc p) \<in> set ks" "map fst (gm_range subs ks) = ks"
    using assms(5,6) map_fst_gm_range [of ks subs] by (auto simp: gm_order_def)
  moreover have "route False e (Some p) (c_message c) (Some (c_pid c)) =
      [ProcSend es_proc (Some es) (DeadLetterEvent (Some p) (c_message c) (Some es)) None]"
    using assms(3,4,7,8,10) by (simp add: route_def rg_getByID_def to_stream_def)
  ultimately show ?thesis using es_Receive_event [OF assms(1,9), of k user_log ks subs] n
    by (force intro!: bexI [of _ "Some (PidPtr loc p)"])
qed

theorem dead_subscriber_loops_witness:
  "\<exists>ls cs subs. es_Receive 1 (\<lambda>_. None) demo_engine [Some (PidPtr 1 (NewPID ''local'' ''gone/1''))]
       (demo_ctx\<lparr>c_message := User 4\<rparr>) [(Some (PidPtr 1 (NewPID ''local'' ''gone/1'')), True)] = Some (ls, cs, subs) \<and>
     ProcSend demo_es (Some (pr_PID demo_es))
       (DeadLetterEvent (Some (NewPID ''local'' ''gone/1'')) (User 4) (Some (pr_PID demo_es))) None \<in> set cs"
proof -
  let ?p = "NewPID ''local'' ''gone/1''" and ?c = "demo_ctx\<lparr>c_message := User 4\<rparr>"
  let ?subs = "[(Some (PidPtr 1 ?p), True)]" and ?ks = "[Some (PidPtr 1 ?p)]"
  have "es_ok demo_engine" "e_eventStream demo_engine = Some (pr_PID demo_es)"
    "rg_get (e_Registry demo_engine) (Some (pr_PID demo_es)) = Some demo_es"
    "Address ?p = e_address demo_engine" "rg_getByID (e_Registry demo_engine) (ID ?p) = None" "c_pid ?c = pr_PID demo_es"
    by (code_simp, code_simp, code_simp, code_simp, code_simp, code_simp)
  moreover have "gm_order ?subs ?ks" "Some (PidPtr 1 ?p) \<in> gm_keys ?subs" "is_event (c_message ?c)"
    by (simp_all add: gm_order_def gm_keys_def)
  ultimately show ?thesis
    using dead_subscriber_loops [of demo_engine 1 "pr_PID demo_es" demo_es 1 ?p ?subs ?ks ?c "\<lambda>_. None"] by auto
qed

end
