(* ===== verification/Remote.thy ===== *)
theory Remote
  imports Wire EventStream
begin

text \<open>
  The remote (\<^verbatim>\<open>src/remote/remote.go\<close>), its stream router (\<^verbatim>\<open>src/remote/stream_router.go\<close>) and the life of
  a stream writer (\<^verbatim>\<open>src/remote/stream_writer.go\<close>). Sockets, TLS and DRPC are parameters: whether the
  listener opens, which dial attempts succeed, whether a deadline can be set, whether the stream
  opens. A TLS configuration is a handle, \<open>None\<close> for nil. What the writer and the router do outside
  their own state is returned as a list of effects in program order; log lines other than errors
  are left out. \<open>None\<close> is an engine broadcast that never returns.
\<close>

subsection \<open>The remote\<close>

record Config =
  cf_TLSConfig :: "nat option"
  cf_BuffSize :: int

definition NewConfig :: Config where
  "NewConfig = \<lparr>cf_TLSConfig = None, cf_BuffSize = 0\<rparr>"

definition WithTLS :: "nat option \<Rightarrow> Config \<Rightarrow> Config" where
  "WithTLS tlsconf c = c\<lparr>cf_TLSConfig := tlsconf\<rparr>"

definition WithBufferSize :: "int \<Rightarrow> Config \<Rightarrow> Config" where
  "WithBufferSize n c = c\<lparr>cf_BuffSize := n\<rparr>"

datatype remote_state = stateInvalid | stateInitialized | stateRunning | stateStopped

text \<open>\<open>rem_engine\<close> and \<open>rem_stopCh\<close> tell whether the pointer and the channel are set; \<open>rem_stopWg\<close> is the counter
  of the wait group. \<open>rem_serving\<close>: the server's context has not been cancelled.\<close>

record Remote =
  rem_addr :: string
  rem_engine :: bool
  rem_config :: Config
  rem_streamRouterPID :: "PID option"
  rem_stopCh :: bool
  rem_stopWg :: "int option"
  rem_state :: remote_state
  rem_serving :: bool

definition rem_New :: "string \<Rightarrow> Config \<Rightarrow> Remote" where
  "rem_New addr config =
     \<lparr>rem_addr = addr, rem_engine = False, rem_config = config, rem_streamRouterPID = None, rem_stopCh = False,
      rem_stopWg = None, rem_state = stateInitialized, rem_serving = False\<rparr>"

text \<open>The stream router's state: the writer of every remote address.\<close>

record streamRouter =
  rt_streams :: "(string, PID) gomap"
  rt_pid :: "PID option"
  rt_tlsConfig :: "nat option"
  rt_buffSize :: int

definition newStreamRouter :: "nat option \<Rightarrow> int \<Rightarrow> nat \<Rightarrow> 'u any + streamRouter" where
  "newStreamRouter tls buff =
     (\<lambda>_. Inr \<lparr>rt_streams = [], rt_pid = None, rt_tlsConfig = tls, rt_buffSize = buff\<rparr>)"

text \<open>\<^verbatim>\<open>Start\<close>: \<open>listen\<close> and \<open>register\<close> are the errors of the listener and of \<^verbatim>\<open>DRPCRegisterRemote\<close>, if any.
  The result is the error or the spawned router, and the remote.\<close>

type_synonym ('u, 'e) router_spawned = "('u rmsg, streamRouter, 'e) spawned"

definition rem_Start ::
    "nat \<Rightarrow> Engine \<Rightarrow> string option \<Rightarrow> string option \<Rightarrow> nat \<Rightarrow> nat \<Rightarrow> Remote \<Rightarrow>
     ((string + ('u, 'e) router_spawned) \<times> Remote) go option" where
  "rem_Start n e listen register obj rnd r =
     (if rem_state r \<noteq> stateInitialized then Some (Inr (Inl ''remote already started'', r))
      else
        let r = r\<lparr>rem_state := stateRunning, rem_engine := True\<rparr> in
        case listen of
          Some err \<Rightarrow> Some (Inr (Inl (''remote failed to listen: '' @ err), r))
        | None \<Rightarrow>
            (case register of
               Some err \<Rightarrow> Some (Inr (Inl (''failed to register remote: '' @ err), r))
             | None \<Rightarrow>
                 map_option (\<lambda>x. go_bind x (\<lambda>sp.
                     Inr (Inr sp, r\<lparr>rem_streamRouterPID := Some (sp_pid sp), rem_stopWg := Some 1, rem_stopCh := True,
                       rem_serving := True\<rparr>)))
                   (Spawn n e obj rnd (newStreamRouter (cf_TLSConfig (rem_config r)) (cf_BuffSize (rem_config r)))
                     ''router'' [WithInboxSize (1024 * 1024)])))"

text \<open>\<^verbatim>\<open>Stop\<close> sends on the channel: the goroutine waiting there cancels the server's context. A send on a nil
  channel blocks for ever.\<close>

datatype stop_result = EmptyWaitGroup | StopWaitGroup | StopBlocked

definition rem_Stop :: "Remote \<Rightarrow> stop_result \<times> Remote" where
  "rem_Stop r =
     (if rem_state r \<noteq> stateRunning then (EmptyWaitGroup, r)
      else
        let r = r\<lparr>rem_state := stateStopped\<rparr> in
        if rem_stopCh r then (StopWaitGroup, r\<lparr>rem_serving := False\<rparr>) else (StopBlocked, r))"

text \<open>Messages for other engines go to the router, as ordinary messages even if they are urgent. \<open>e\<close> is the engine
  the remote was started with; without one the router's PID is nil, and nothing is sent.\<close>

definition rem_Send :: "nat \<Rightarrow> Engine \<Rightarrow> Remote \<Rightarrow> PID option \<Rightarrow> 'u msg \<Rightarrow> PID option \<Rightarrow> 'u rmsg call list option" where
  "rem_Send n e r pid msg sender = eng_Send n e (rem_streamRouterPID r) (User (streamDeliver sender pid msg False))"

definition rem_SendPriority :: "nat \<Rightarrow> Engine \<Rightarrow> Remote \<Rightarrow> PID option \<Rightarrow> 'u msg \<Rightarrow> PID option \<Rightarrow> 'u rmsg call list option" where
  "rem_SendPriority n e r pid msg sender = eng_Send n e (rem_streamRouterPID r) (User (streamDeliver sender pid msg True))"

definition rem_Address :: "Remote \<Rightarrow> string" where
  "rem_Address r = rem_addr r"

subsection \<open>A stream writer\<close>

text \<open>An interface value of type \<^verbatim>\<open>net.Conn\<close>: nil, a nil \<^verbatim>\<open>*tls.Conn\<close> (which is not the nil interface), or a
  connection.\<close>

datatype netconn = NilIface | TypedNil | Connected

record streamWriter =
  sw_writeToAddr :: string
  sw_rawconn :: netconn
  sw_conn :: bool
  sw_stream :: bool
  sw_routerPID :: "PID option"
  sw_pid :: PID
  sw_tlsConfig :: "nat option"
  sw_buffSize :: int

definition newStreamWriter :: "Engine \<Rightarrow> PID option \<Rightarrow> string \<Rightarrow> nat option \<Rightarrow> int \<Rightarrow> streamWriter" where
  "newStreamWriter e rpid address tls buff =
     \<lparr>sw_writeToAddr = address, sw_rawconn = NilIface, sw_conn = False, sw_stream = False, sw_routerPID = rpid,
      sw_pid = NewPID (e_address e) (''stream'' @ ''/'' @ address), sw_tlsConfig = tls, sw_buffSize = buff\<rparr>"

text \<open>What the methods of a writer do with its inbox.\<close>

definition sw_Send :: "nat \<Rightarrow> 'u msg \<Rightarrow> PID option \<Rightarrow> 'u rmsg Envelope ib_cmd" where
  "sw_Send t msg sender = CallSend t False \<lparr>Msg = msg, Sender = sender\<rparr>"

definition sw_SendPriority :: "nat \<Rightarrow> 'u msg \<Rightarrow> PID option \<Rightarrow> 'u rmsg Envelope ib_cmd" where
  "sw_SendPriority t msg sender = CallSend t True \<lparr>Msg = msg, Sender = sender\<rparr>"

definition sw_ClearMailbox :: "'u rmsg Envelope ib_cmd" where
  "sw_ClearMailbox = CallClear"

datatype 'u rem_effect =
    Eng "'u rmsg call"
  | Dial "nat option" string
  | LogErr
  | SleepFor int
  | ConnDeadline
  | OpenStream
  | WatchConn
  | CloseStream
  | WInboxStart
  | WInboxStop

definition sw_Shutdown :: "nat \<Rightarrow> Engine \<Rightarrow> streamWriter \<Rightarrow> ('u rem_effect list \<times> Engine) option" where
  "sw_Shutdown n e s =
     (let evt = RemoteUnreachableEvent (sw_writeToAddr s) in
      case eng_Send n e (sw_routerPID s) evt of
        None \<Rightarrow> None
      | Some cs \<Rightarrow>
          (case BroadcastEvent n e evt of
             None \<Rightarrow> None
           | Some cs' \<Rightarrow>
               Some (map Eng cs @ map Eng cs' @ (if sw_stream s then [CloseStream] else []) @ [WInboxStop],
                 e\<lparr>e_Registry := rg_leave (e_Registry e) (ID (sw_pid s))\<rparr>)))"

text \<open>The network as a writer meets it: which attempts to dial succeed, whether the connection takes a deadline,
  whether the stream opens.\<close>

record network =
  net_dial :: "nat \<Rightarrow> bool"
  net_deadline :: bool
  net_open :: bool

text \<open>The dial loop from attempt \<open>i\<close> with \<open>k\<close> attempts left; \<open>c\<close> is the value of \<^verbatim>\<open>rawconn\<close>. A failed
  \<^verbatim>\<open>net.Dial\<close> stores nil there, a failed \<^verbatim>\<open>tls.Dial\<close> a nil \<^verbatim>\<open>*tls.Conn\<close>. Times are in nanoseconds.\<close>

fun sw_dial :: "nat option \<Rightarrow> string \<Rightarrow> (nat \<Rightarrow> bool) \<Rightarrow> nat \<Rightarrow> nat \<Rightarrow> netconn \<Rightarrow> 'u rem_effect list \<times> netconn" where
  "sw_dial tls addr up i 0 c = ([], c)"
| "sw_dial tls addr up i (Suc k) c =
     (if up i then ([Dial tls addr], Connected)
      else
        let (es, c') = sw_dial tls addr up (Suc i) k (if tls = None then NilIface else TypedNil)
        in (Dial tls addr # LogErr # SleepFor (500 * 1000000 * (int i * 2)) # es, c'))"

definition sw_init ::
    "nat \<Rightarrow> Engine \<Rightarrow> network \<Rightarrow> streamWriter \<Rightarrow> ('u rem_effect list \<times> streamWriter \<times> Engine \<times> go_panic option) option" where
  "sw_init n e net s =
     (let maxRetries = 3;
          (es, rawconn) = sw_dial (sw_tlsConfig s) (sw_writeToAddr s) (net_dial net) 0 maxRetries NilIface in
      if rawconn = NilIface then map_option (\<lambda>(es', e'). (es @ es', s, e', None)) (sw_Shutdown n e s)
      else
        let s = s\<lparr>sw_rawconn := rawconn\<rparr> in
        if rawconn = TypedNil then Some (es, s, e, Some NilDeref)
        else if \<not> net_deadline net then Some (es @ [ConnDeadline, LogErr], s, e, None)
        else if \<not> net_open net then
          map_option (\<lambda>(es', e'). (es @ [ConnDeadline, OpenStream, LogErr] @ es', s, e', None)) (sw_Shutdown n e s)
        else Some (es @ [ConnDeadline, OpenStream, WatchConn], s\<lparr>sw_stream := True, sw_conn := True\<rparr>, e, None))"

definition sw_Start ::
    "nat \<Rightarrow> Engine \<Rightarrow> network \<Rightarrow> streamWriter \<Rightarrow> ('u rem_effect list \<times> streamWriter \<times> Engine \<times> go_panic option) option" where
  "sw_Start n e net s = map_option (\<lambda>(es, r). (WInboxStart # es, r)) (sw_init n e net s)"

subsection \<open>The stream router\<close>

definition handleTerminateStream :: "string \<Rightarrow> streamRouter \<Rightarrow> streamRouter" where
  "handleTerminateStream addr s = s\<lparr>rt_streams := gm_del addr (rt_streams s)\<rparr>"

text \<open>A delivery: the effects, the router, the engine, the writer if one was started, and the panic if there was
  one. \<^verbatim>\<open>SpawnProc\<close> starts the writer, dialling included, before it returns.\<close>

record 'u delivered =
  dl_effects :: "'u rem_effect list"
  dl_router :: streamRouter
  dl_engine :: Engine
  dl_writer :: "streamWriter option"
  dl_panic :: "go_panic option"

definition spawn_writer ::
    "nat \<Rightarrow> Engine \<Rightarrow> network \<Rightarrow> nat \<Rightarrow> streamRouter \<Rightarrow> string \<Rightarrow>
     ('u rem_effect list \<times> PID \<times> Engine \<times> streamWriter option \<times> go_panic option) option" where
  "spawn_writer n e net obj s address =
     (let w = newStreamWriter e (rt_pid s) address (rt_tlsConfig s) (rt_buffSize s);
          proc = \<lparr>pr_kind = KStreamWriter, pr_obj = obj, pr_PID = sw_pid w\<rparr> in
      case SpawnProc n e proc of
        None \<Rightarrow> None
      | Some (cs, swpid, e') \<Rightarrow>
          if fst (rg_add (e_Registry e) proc)
          then map_option (\<lambda>(es, w, e', p). (map Eng cs @ es, swpid, e', Some w, p)) (sw_Start n e' net w)
          else Some (map Eng cs, swpid, e', None, None))"

definition deliverStream ::
    "nat \<Rightarrow> Engine \<Rightarrow> network \<Rightarrow> nat \<Rightarrow> 'u rmsg \<Rightarrow> streamRouter \<Rightarrow> 'u delivered option" where
  "deliverStream n e net obj msg s =
     (case sd_target msg of
        None \<Rightarrow> Some \<lparr>dl_effects = [], dl_router = s, dl_engine = e, dl_writer = None, dl_panic = Some NilDeref\<rparr>
      | Some target \<Rightarrow>
          let address = Address target in
          (case gm_get (rt_streams s) address of
             Some swpid \<Rightarrow>
               map_option (\<lambda>cs. \<lparr>dl_effects = map Eng cs, dl_router = s, dl_engine = e, dl_writer = None, dl_panic = None\<rparr>)
                 (eng_Send n e (Some swpid) (User msg))
           | None \<Rightarrow>
               (case spawn_writer n e net obj s address of
                  None \<Rightarrow> None
                | Some (es, swpid, e', w, Some p) \<Rightarrow>
                    Some \<lparr>dl_effects = es, dl_router = s, dl_engine = e', dl_writer = w, dl_panic = Some p\<rparr>
                | Some (es, swpid, e', w, None) \<Rightarrow>
                    map_option (\<lambda>cs. \<lparr>dl_effects = es @ map Eng cs,
                        dl_router = s\<lparr>rt_streams := gm_set address swpid (rt_streams s)\<rparr>,
                        dl_engine = e', dl_writer = w, dl_panic = None\<rparr>)
                      (eng_Send n e' (Some swpid) (User msg)))))"

definition rt_Receive ::
    "nat \<Rightarrow> Engine \<Rightarrow> network \<Rightarrow> nat \<Rightarrow> ('u rmsg, streamRouter) Context \<Rightarrow> streamRouter \<Rightarrow> 'u delivered option" where
  "rt_Receive n e net obj ctx s =
     (let quiet = (\<lambda>s. Some \<lparr>dl_effects = [], dl_router = s, dl_engine = e, dl_writer = None, dl_panic = None\<rparr>) in
      case c_Message ctx of
        Started \<Rightarrow> quiet (s\<lparr>rt_pid := Some (c_PID ctx)\<rparr>)
      | User msg \<Rightarrow>
          (case msg of
             streamDeliver sender target m priority \<Rightarrow> deliverStream n e net obj msg s
           | Plain _ \<Rightarrow> quiet s)
      | RemoteUnreachableEvent addr \<Rightarrow> quiet (handleTerminateStream addr s)
      | _ \<Rightarrow> quiet s)"

subsection \<open>The router and its writers over time\<close>

text \<open>One engine's side of the remote: the engine, the router, the writers whose connection is being watched, and the
  unreachable events waiting in the router's mailbox.\<close>

record node =
  nd_engine :: Engine
  nd_router :: streamRouter
  nd_watched :: "streamWriter list"
  nd_pending :: "string list"

text \<open>The unreachable events among the effects that are sent to the router.\<close>

fun unreachable_to :: "PID option \<Rightarrow> 'u rem_effect \<Rightarrow> string option" where
  "unreachable_to rp (Eng (ProcSend proc pid (RemoteUnreachableEvent a) sender)) = (if pid = rp then Some a else None)"
| "unreachable_to rp _ = None"

definition new_pending :: "node \<Rightarrow> 'u rem_effect list \<Rightarrow> string list" where
  "new_pending nd es = nd_pending nd @ List.map_filter (unreachable_to (rt_pid (nd_router nd))) es"

text \<open>What can happen: the router takes a delivery or the oldest unreachable event out of its mailbox; the connection
  of a watched writer is closed, so that its goroutine calls \<^verbatim>\<open>Shutdown\<close>; some other process registers or leaves.\<close>

datatype 'u rem_event =
    EvDeliver network nat "'u rmsg"
  | EvUnreachable
  | EvClosed nat
  | EvOther "Processer dir_op"

fun node_step :: "nat \<Rightarrow> 'u rem_event \<Rightarrow> node \<Rightarrow> ('u rem_effect list \<times> node) option" where
  "node_step n (EvDeliver net obj msg) nd =
     (case deliverStream n (nd_engine nd) net obj msg (nd_router nd) of
        None \<Rightarrow> None
      | Some d \<Rightarrow> Some (dl_effects d, nd\<lparr>nd_engine := dl_engine d, nd_router := dl_router d,
          nd_watched := nd_watched nd @ (case dl_writer d of Some w \<Rightarrow> if sw_stream w then [w] else [] | None \<Rightarrow> []),
          nd_pending := new_pending nd (dl_effects d)\<rparr>))"
| "node_step n EvUnreachable nd =
     (case nd_pending nd of
        [] \<Rightarrow> Some ([], nd)
      | a # as \<Rightarrow> Some ([], nd\<lparr>nd_router := handleTerminateStream a (nd_router nd), nd_pending := as\<rparr>))"
| "node_step n (EvClosed i) nd =
     (if i < length (nd_watched nd) then
        (case sw_Shutdown n (nd_engine nd) (nd_watched nd ! i) of
           None \<Rightarrow> None
         | Some (es, e') \<Rightarrow> Some (es, nd\<lparr>nd_engine := e',
             nd_watched := take i (nd_watched nd) @ drop (Suc i) (nd_watched nd), nd_pending := new_pending nd es\<rparr>))
      else Some ([], nd))"
| "node_step n (EvOther op) nd = Some ([], nd\<lparr>nd_engine := eng_step op (nd_engine nd)\<rparr>)"

fun node_run :: "nat \<Rightarrow> 'u rem_event list \<Rightarrow> node \<Rightarrow> ('u rem_effect list \<times> node) option" where
  "node_run n [] nd = Some ([], nd)"
| "node_run n (ev # evs) nd =
     (case node_step n ev nd of
        None \<Rightarrow> None
      | Some (es, nd') \<Rightarrow> map_option (\<lambda>(es', nd''). (es @ es', nd'')) (node_run n evs nd'))"

text \<open>The writer of an address, and whether it is registered.\<close>

definition writer_id :: "string \<Rightarrow> string" where
  "writer_id a = ''stream/'' @ a"

definition writer_pid :: "Engine \<Rightarrow> string \<Rightarrow> PID" where
  "writer_pid e a = NewPID (e_address e) (writer_id a)"

definition is_writer_id :: "string \<Rightarrow> bool" where
  "is_writer_id i \<longleftrightarrow> take 7 i = ''stream/''"

definition registered :: "Engine \<Rightarrow> string \<Rightarrow> bool" where
  "registered e a \<longleftrightarrow> rg_getByID (e_Registry e) (writer_id a) \<noteq> None"

lemma writer_id_simps [simp]: "is_writer_id (writer_id a)" "writer_id a = writer_id b \<longleftrightarrow> a = b"
  by (simp_all add: is_writer_id_def writer_id_def)

text \<open>The engine as the router needs it: the event stream and the router are registered under ids of their own.\<close>

definition host_ok :: "Engine \<Rightarrow> PID option \<Rightarrow> bool" where
  "host_ok e rp \<longleftrightarrow> rg_ok (e_Registry e) \<and>
     (case rp of None \<Rightarrow> False | Some p \<Rightarrow> Address p = e_address e \<and> \<not> is_writer_id (ID p) \<and>
        rg_getByID (e_Registry e) (ID p) \<noteq> None) \<and>
     (case e_eventStream e of None \<Rightarrow> True | Some p \<Rightarrow> Address p = e_address e \<and> \<not> is_writer_id (ID p) \<and>
        rg_getByID (e_Registry e) (ID p) \<noteq> None \<and> Some p \<noteq> rp)"

text \<open>The invariant: an address has an entry exactly if its writer is registered or the news of its end is under way,
  and never both; watched writers are registered, one per address.\<close>

definition node_ok :: "node \<Rightarrow> bool" where
  "node_ok nd \<longleftrightarrow> host_ok (nd_engine nd) (rt_pid (nd_router nd)) \<and> rt_tlsConfig (nd_router nd) = None \<and>
     (\<forall>a. gm_get (rt_streams (nd_router nd)) a =
        (if registered (nd_engine nd) a \<or> a \<in> set (nd_pending nd) then Some (writer_pid (nd_engine nd) a) else None)) \<and>
     (\<forall>a \<in> set (nd_pending nd). \<not> registered (nd_engine nd) a) \<and> distinct (nd_pending nd) \<and>
     (\<forall>w \<in> set (nd_watched nd). registered (nd_engine nd) (sw_writeToAddr w) \<and> sw_routerPID w = rt_pid (nd_router nd) \<and>
        sw_pid w = writer_pid (nd_engine nd) (sw_writeToAddr w)) \<and>
     distinct (map sw_writeToAddr (nd_watched nd))"

fun ev_ok :: "Engine \<Rightarrow> PID option \<Rightarrow> 'u rem_event \<Rightarrow> bool" where
  "ev_ok e rp (EvDeliver net obj msg) \<longleftrightarrow> sd_target msg \<noteq> None"
| "ev_ok e rp (EvOther (Enter p)) \<longleftrightarrow> \<not> is_writer_id (ID (pr_PID p))"
| "ev_ok e rp (EvOther (Leave i)) \<longleftrightarrow> \<not> is_writer_id i \<and> map_option ID rp \<noteq> Some i \<and> map_option ID (e_eventStream e) \<noteq> Some i"
| "ev_ok e rp _ \<longleftrightarrow> True"

lemma host_es_ok: "host_ok e rp \<Longrightarrow> es_ok e"
  by (auto simp: host_ok_def es_ok_def rg_get_Some split: option.splits)

lemma host_ok_frame:
  assumes "host_ok e rp" "rg_ok r"
    and "\<And>i. \<not> is_writer_id i \<Longrightarrow> rg_getByID (e_Registry e) i \<noteq> None \<Longrightarrow>
      map_option ID rp = Some i \<or> map_option ID (e_eventStream e) = Some i \<Longrightarrow> rg_getByID r i \<noteq> None"
  shows "host_ok (e\<lparr>e_Registry := r\<rparr>) rp"
  using assms by (auto simp: host_ok_def split: option.splits)

lemma rg_find_leave: "rg_ok r \<Longrightarrow> rg_getByID (rg_leave r j) i = (if i = j then None else rg_getByID r i)"
  using registry.dir_step_refines [of r "Leave j"] by auto

lemma rg_find_add:
  "rg_ok r \<Longrightarrow> rg_getByID (snd (rg_add r p)) i =
     (if i = ID (pr_PID p) \<and> rg_getByID r i = None then Some p else rg_getByID r i)"
  using registry.dir_step_refines [of r "Enter p"] by auto

lemma host_leave_writer:
  "host_ok e rp \<Longrightarrow> host_ok (e\<lparr>e_Registry := rg_leave (e_Registry e) (writer_id a)\<rparr>) rp"
  by (rule host_ok_frame) (auto simp: host_ok_def rg_find_step rg_find_leave)

lemma host_add:
  "host_ok e rp \<Longrightarrow> host_ok (e\<lparr>e_Registry := snd (rg_add (e_Registry e) p)\<rparr>) rp"
  by (rule host_ok_frame) (auto simp: host_ok_def rg_find_step rg_find_add)

lemma registered_leave [simp]:
  "rg_ok (e_Registry e) \<Longrightarrow>
     registered (e\<lparr>e_Registry := rg_leave (e_Registry e) (writer_id a)\<rparr>) b \<longleftrightarrow> registered e b \<and> b \<noteq> a"
  by (auto simp: registered_def rg_find_leave)

lemma registered_add [simp]:
  "rg_ok (e_Registry e) \<Longrightarrow>
     registered (e\<lparr>e_Registry := snd (rg_add (e_Registry e) p)\<rparr>) b \<longleftrightarrow> registered e b \<or> ID (pr_PID p) = writer_id b"
  by (auto simp: registered_def rg_find_add)

lemma to_router:
  assumes "host_ok e rp"
  shows "\<exists>proc. route False e rp evt None = [ProcSend proc rp evt None]"
  using assms by (auto simp: host_ok_def route_def rg_getByID_def split: option.splits)

lemma stream_not_router:
  assumes "host_ok e rp"
  shows "List.map_filter (unreachable_to rp) (map Eng (to_stream e evt)) = []"
  using assms by (cases evt) (auto simp: host_ok_def to_stream_def List.map_filter_def split: option.splits)

lemma sw_Shutdown_ok:
  assumes "host_ok e rp" "sw_routerPID w = rp" "sw_pid w = writer_pid e (sw_writeToAddr w)"
  shows "\<exists>proc. sw_Shutdown (Suc n) e w =
      Some (Eng (ProcSend proc rp (RemoteUnreachableEvent (sw_writeToAddr w)) None) #
          map Eng (to_stream e (RemoteUnreachableEvent (sw_writeToAddr w))) @
          (if sw_stream w then [CloseStream] else []) @ [WInboxStop],
        e\<lparr>e_Registry := rg_leave (e_Registry e) (writer_id (sw_writeToAddr w))\<rparr>)"
proof -
  obtain proc where "route False e rp (RemoteUnreachableEvent (sw_writeToAddr w)) None =
      [ProcSend proc rp (RemoteUnreachableEvent (sw_writeToAddr w) :: 'a rmsg any) None]"
    using to_router [OF assms(1)] by blast
  then show ?thesis using assms host_es_ok [OF assms(1)]
    by (simp add: sw_Shutdown_def Let_def eng_Send_def send_ok BroadcastEvent_ok writer_pid_def NewPID_def
        del: BroadcastEvent.simps send.simps)
qed

subsection \<open>Starting a writer\<close>

definition dials :: "network \<Rightarrow> bool" where
  "dials net \<longleftrightarrow> net_dial net 0 \<or> net_dial net 1 \<or> net_dial net 2"

text \<open>A writer gives up if it cannot connect or cannot open the stream.\<close>

definition gives_up :: "network \<Rightarrow> bool" where
  "gives_up net \<longleftrightarrow> \<not> dials net \<or> (net_deadline net \<and> \<not> net_open net)"

lemma sw_dial_result:
  "snd (sw_dial tls addr (net_dial net) 0 3 c :: 'u rem_effect list \<times> netconn) =
     (if dials net then Connected else if tls = None then NilIface else TypedNil)"
  by (simp add: eval_nat_numeral dials_def case_prod_beta)

lemma sw_dial_quiet:
  "List.map_filter (unreachable_to rp) (fst (sw_dial tls addr up i k c :: 'u rem_effect list \<times> netconn)) = []"
  by (induction k arbitrary: i c) (simp_all add: List.map_filter_simps case_prod_beta)

lemma Shutdown_rawconn: "sw_Shutdown n e (w\<lparr>sw_rawconn := c\<rparr>) = sw_Shutdown n e w"
  by (cases w) (simp add: sw_Shutdown_def Let_def cong: option.case_cong)

lemma sw_Start_ok:
  assumes "host_ok e rp" "sw_routerPID w = rp" "sw_pid w = writer_pid e (sw_writeToAddr w)"
    and "sw_tlsConfig w = None" "\<not> sw_stream w"
  shows "\<exists>es w'. sw_Start (Suc n) e net w = Some (es :: 'u rem_effect list, w',
      if gives_up net then e\<lparr>e_Registry := rg_leave (e_Registry e) (writer_id (sw_writeToAddr w))\<rparr> else e, None) \<and>
    List.map_filter (unreachable_to rp) es = (if gives_up net then [sw_writeToAddr w] else []) \<and>
    sw_stream w' = (\<not> gives_up net \<and> net_deadline net) \<and>
    sw_writeToAddr w' = sw_writeToAddr w \<and> sw_routerPID w' = rp \<and> sw_pid w' = sw_pid w"
proof -
  obtain es :: "'u rem_effect list" and c where d: "sw_dial None (sw_writeToAddr w) (net_dial net) 0 3 NilIface = (es, c)"
    by force
  have c: "c = (if dials net then Connected else NilIface)"
    using sw_dial_result [where tls = None and addr = "sw_writeToAddr w" and net = net and c = NilIface and 'u = 'u] by (simp add: d)
  have q: "List.map_filter (unreachable_to rp) es = []"
    using sw_dial_quiet [of rp None "sw_writeToAddr w" "net_dial net" 0 3 NilIface, where 'u = 'u] by (simp add: d)
  obtain proc where sh: "sw_Shutdown (Suc n) e w =
      Some (Eng (ProcSend proc rp (RemoteUnreachableEvent (sw_writeToAddr w)) None) #
          map Eng (to_stream e (RemoteUnreachableEvent (sw_writeToAddr w))) @ [WInboxStop] :: 'u rem_effect list,
        e\<lparr>e_Registry := rg_leave (e_Registry e) (writer_id (sw_writeToAddr w))\<rparr>)"
    using sw_Shutdown_ok [OF assms(1-3), of n, where 'a = 'u] assms(5) by auto
  show ?thesis using c q assms(2,4,5) stream_not_router [OF assms(1)]
    by (auto simp: sw_Start_def sw_init_def Let_def d sh Shutdown_rawconn gives_up_def map_filter_append List.map_filter_simps)
qed

subsection \<open>A delivery\<close>

definition writer_proc :: "Engine \<Rightarrow> nat \<Rightarrow> string \<Rightarrow> Processer" where
  "writer_proc e obj a = \<lparr>pr_kind = KStreamWriter, pr_obj = obj, pr_PID = writer_pid e a\<rparr>"

definition with_writer :: "nat \<Rightarrow> string \<Rightarrow> Engine \<Rightarrow> Engine" where
  "with_writer obj a e = e\<lparr>e_Registry := snd (rg_add (e_Registry e) (writer_proc e obj a))\<rparr>"

definition without_writer :: "string \<Rightarrow> Engine \<Rightarrow> Engine" where
  "without_writer a e = e\<lparr>e_Registry := rg_leave (e_Registry e) (writer_id a)\<rparr>"

text \<open>The engine after a writer was spawned.\<close>

definition after_spawn :: "network \<Rightarrow> nat \<Rightarrow> string \<Rightarrow> Engine \<Rightarrow> Engine" where
  "after_spawn net obj a e = (if gives_up net then without_writer a (with_writer obj a e) else with_writer obj a e)"

lemma after_spawn_simps [simp]:
  "e_address (after_spawn net obj a e) = e_address e" "e_eventStream (after_spawn net obj a e) = e_eventStream e"
  "writer_pid (after_spawn net obj a e) = writer_pid e"
  by (auto simp: after_spawn_def with_writer_def without_writer_def writer_pid_def fun_eq_iff)

lemma host_spawn: "host_ok e rp \<Longrightarrow> host_ok (after_spawn net obj a e) rp"
  unfolding after_spawn_def with_writer_def without_writer_def
  using host_add [of e rp] host_leave_writer [OF host_add [of e rp], of "writer_proc e obj a" a] by simp

lemma registered_spawn:
  assumes "rg_ok (e_Registry e)" "\<not> registered e a"
  shows "registered (after_spawn net obj a e) b \<longleftrightarrow> registered e b \<or> (b = a \<and> \<not> gives_up net)"
  using assms rg_find_step(1) [OF assms(1), of "writer_proc e obj a"]
    registered_leave [of "with_writer obj a e" a b]
  by (auto simp: after_spawn_def with_writer_def without_writer_def writer_proc_def writer_pid_def NewPID_def)

lemma spawn_writer_new:
  assumes "\<not> registered e a"
  shows "spawn_writer (Suc n) e net obj s a =
    map_option (\<lambda>(es :: 'u rem_effect list, w, e', p). (Eng (ProcStart (writer_proc e obj a)) # es, writer_pid e a, e', Some w, p))
      (sw_Start (Suc n) (with_writer obj a e) net (newStreamWriter e (rt_pid s) a (rt_tlsConfig s) (rt_buffSize s)))"
proof -
  let ?w = "newStreamWriter e (rt_pid s) a (rt_tlsConfig s) (rt_buffSize s)"
  have proc: "\<lparr>pr_kind = KStreamWriter, pr_obj = obj, pr_PID = sw_pid ?w\<rparr> = writer_proc e obj a"
    by (simp add: writer_proc_def newStreamWriter_def writer_pid_def writer_id_def)
  have add: "fst (rg_add (e_Registry e) (writer_proc e obj a))"
    using assms by (simp add: registered_def writer_proc_def writer_pid_def NewPID_def rg_add_def rg_getByID_def Let_def)
  then have "SpawnProc (Suc n) e (writer_proc e obj a) =
      Some ([ProcStart (writer_proc e obj a)] :: 'u rmsg call list, writer_pid e a, with_writer obj a e)"
    by (simp add: SpawnProc_def reg_add_def with_writer_def case_prod_beta) (simp add: writer_proc_def)
  then show ?thesis unfolding spawn_writer_def Let_def proc by (simp add: add)
qed

lemma spawn_writer_ok:
  assumes "host_ok e (rt_pid s)" "\<not> registered e a" "rt_tlsConfig s = None"
  shows "\<exists>es w. spawn_writer (Suc n) e net obj s a =
      Some (Eng (ProcStart (writer_proc e obj a)) # es :: 'u rem_effect list, writer_pid e a, after_spawn net obj a e, Some w, None) \<and>
    List.map_filter (unreachable_to (rt_pid s)) es = (if gives_up net then [a] else []) \<and>
    sw_stream w = (\<not> gives_up net \<and> net_deadline net) \<and>
    sw_writeToAddr w = a \<and> sw_routerPID w = rt_pid s \<and> sw_pid w = writer_pid e a"
proof -
  let ?w = "newStreamWriter e (rt_pid s) a (rt_tlsConfig s) (rt_buffSize s)" and ?e = "with_writer obj a e"
  have w: "sw_pid ?w = writer_pid e a" "sw_routerPID ?w = rt_pid s" "sw_writeToAddr ?w = a" "\<not> sw_stream ?w"
    "sw_tlsConfig ?w = None" "sw_pid ?w = writer_pid ?e (sw_writeToAddr ?w)"
    using assms(3) by (simp_all add: newStreamWriter_def writer_pid_def writer_id_def with_writer_def)
  have "host_ok ?e (rt_pid s)" unfolding with_writer_def by (rule host_add [OF assms(1)])
  from sw_Start_ok [OF this w(2,6,5,4), of n net, where 'u = 'u, unfolded w(1,3)]
  obtain es :: "'u rem_effect list" and w' where st:
    "sw_Start (Suc n) ?e net ?w = Some (es, w', if gives_up net
       then ?e\<lparr>e_Registry := rg_leave (e_Registry ?e) (writer_id a)\<rparr> else ?e, None)"
    "List.map_filter (unreachable_to (rt_pid s)) es = (if gives_up net then [a] else [])"
    "sw_stream w' = (\<not> gives_up net \<and> net_deadline net)"
    "sw_writeToAddr w' = a" "sw_routerPID w' = rt_pid s" "sw_pid w' = writer_pid e a"
    by (elim exE conjE)
  have "spawn_writer (Suc n) e net obj s a =
      Some (Eng (ProcStart (writer_proc e obj a)) # es, writer_pid e a, after_spawn net obj a e, Some w', None)"
    by (simp add: spawn_writer_new [OF assms(2)] st(1) after_spawn_def without_writer_def)
  then show ?thesis using st(2-) by (intro exI [of _ es] exI [of _ w']) simp
qed

lemma deliver_known:
  assumes "es_ok e" "sd_target msg = Some t" "gm_get (rt_streams s) (Address t) = Some p"
  shows "deliverStream (Suc n) e net obj msg s =
    Some \<lparr>dl_effects = map Eng (route False e (Some p) (User msg) None), dl_router = s, dl_engine = e, dl_writer = None,
      dl_panic = None\<rparr>"
  using assms by (simp add: deliverStream_def eng_Send_def send_ok del: send.simps)

lemma deliver_fresh:
  assumes "host_ok e (rt_pid s)" "\<not> registered e a" "rt_tlsConfig s = None"
    and "sd_target msg = Some t" "a = Address t" "gm_get (rt_streams s) a = None"
  shows "\<exists>es w. deliverStream (Suc n) e net obj msg s =
      Some \<lparr>dl_effects = Eng (ProcStart (writer_proc e obj a)) # es @
          map Eng (route False (after_spawn net obj a e) (Some (writer_pid e a)) (User msg) None),
        dl_router = s\<lparr>rt_streams := gm_set a (writer_pid e a) (rt_streams s)\<rparr>,
        dl_engine = after_spawn net obj a e, dl_writer = Some w, dl_panic = None\<rparr> \<and>
    List.map_filter (unreachable_to (rt_pid s)) es = (if gives_up net then [a] else []) \<and>
    sw_stream w = (\<not> gives_up net \<and> net_deadline net) \<and>
    sw_writeToAddr w = a \<and> sw_routerPID w = rt_pid s \<and> sw_pid w = writer_pid e a"
proof -
  obtain es :: "'a rem_effect list" and w where sp: "spawn_writer (Suc n) e net obj s a =
      Some (Eng (ProcStart (writer_proc e obj a)) # es, writer_pid e a, after_spawn net obj a e, Some w, None)"
    "List.map_filter (unreachable_to (rt_pid s)) es = (if gives_up net then [a] else [])"
    "sw_stream w = (\<not> gives_up net \<and> net_deadline net)"
    "sw_writeToAddr w = a" "sw_routerPID w = rt_pid s" "sw_pid w = writer_pid e a"
    using spawn_writer_ok [OF assms(1-3), of n net obj, where 'u = 'a] by blast
  have "es_ok (after_spawn net obj a e)" by (rule host_es_ok [OF host_spawn [OF assms(1)]])
  then show ?thesis using sp assms(4-6)
    by (intro exI [of _ es] exI [of _ w]) (simp add: deliverStream_def eng_Send_def send_ok Let_def del: send.simps)
qed

subsection \<open>The router knows its writers\<close>

lemma route_user_quiet: "List.map_filter (unreachable_to rp) (map Eng (route False e pid (User m) None)) = []"
  by (auto simp: route_def to_stream_def List.map_filter_def split: option.splits)

lemma deliver_keeps:
  fixes msg :: "'u rmsg"
  assumes "node_ok nd" "sd_target msg \<noteq> None"
  shows "\<exists>es nd'. node_step (Suc n) (EvDeliver net obj msg) nd = Some (es, nd') \<and> node_ok nd' \<and>
    rt_pid (nd_router nd') = rt_pid (nd_router nd) \<and> e_eventStream (nd_engine nd') = e_eventStream (nd_engine nd)"
proof -
  obtain t where t: "sd_target msg = Some t" using assms(2) by auto
  have h: "host_ok (nd_engine nd) (rt_pid (nd_router nd))" "rt_tlsConfig (nd_router nd) = None"
    using assms(1) by (simp_all add: node_ok_def)
  show ?thesis
  proof (cases "gm_get (rt_streams (nd_router nd)) (Address t)")
    case (Some p)
    have "new_pending nd (map Eng (route False (nd_engine nd) (Some p) (User msg) None)) = nd_pending nd"
      by (simp add: new_pending_def route_user_quiet)
    then show ?thesis
      using assms(1) deliver_known [OF host_es_ok [OF h(1)] t Some, of n net obj] by simp
  next
    case None
    then have fresh: "\<not> registered (nd_engine nd) (Address t)" "Address t \<notin> set (nd_pending nd)"
      using assms(1) unfolding node_ok_def by (metis option.distinct(1))+
    obtain es :: "'u rem_effect list" and w where d: "deliverStream (Suc n) (nd_engine nd) net obj msg (nd_router nd) =
        Some \<lparr>dl_effects = Eng (ProcStart (writer_proc (nd_engine nd) obj (Address t))) # es @
            map Eng (route False (after_spawn net obj (Address t) (nd_engine nd)) (Some (writer_pid (nd_engine nd) (Address t))) (User msg) None),
          dl_router = (nd_router nd)\<lparr>rt_streams := gm_set (Address t) (writer_pid (nd_engine nd) (Address t)) (rt_streams (nd_router nd))\<rparr>,
          dl_engine = after_spawn net obj (Address t) (nd_engine nd), dl_writer = Some w, dl_panic = None\<rparr>"
      "List.map_filter (unreachable_to (rt_pid (nd_router nd))) es = (if gives_up net then [Address t] else [])"
      "sw_stream w = (\<not> gives_up net \<and> net_deadline net)"
      "sw_writeToAddr w = Address t" "sw_routerPID w = rt_pid (nd_router nd)" "sw_pid w = writer_pid (nd_engine nd) (Address t)"
      using deliver_fresh [OF h(1) fresh(1) h(2) t refl None, of n net obj] by (elim exE conjE)
    have rg: "rg_ok (e_Registry (nd_engine nd))" using h(1) by (simp add: host_ok_def)
    show ?thesis
      using assms(1) d(2-) fresh host_spawn [OF h(1), of net obj "Address t"]
      unfolding node_ok_def
      by (auto simp: d(1) new_pending_def route_user_quiet map_filter_append List.map_filter_simps
          registered_spawn [OF rg fresh(1)])
  qed
qed

lemma distinct_without:
  assumes "distinct (map f xs)" "i < length xs"
  shows "distinct (map f (take i xs @ drop (Suc i) xs)) \<and> f (xs ! i) \<notin> set (map f (take i xs @ drop (Suc i) xs))"
proof -
  have "distinct (map f (take i xs @ xs ! i # drop (Suc i) xs))" using assms by (metis id_take_nth_drop)
  then show ?thesis by auto
qed

lemma closed_keeps:
  assumes "node_ok nd"
  shows "\<exists>es :: 'u rem_effect list. \<exists>nd'. node_step (Suc n) (EvClosed i) nd = Some (es, nd') \<and> node_ok nd' \<and>
    rt_pid (nd_router nd') = rt_pid (nd_router nd) \<and> e_eventStream (nd_engine nd') = e_eventStream (nd_engine nd)"
proof (cases "i < length (nd_watched nd)")
  case True
  let ?w = "nd_watched nd ! i" and ?rp = "rt_pid (nd_router nd)" and ?e = "nd_engine nd"
  let ?a = "sw_writeToAddr ?w" and ?ws = "take i (nd_watched nd) @ drop (Suc i) (nd_watched nd)"
  have h: "host_ok ?e ?rp" using assms by (simp add: node_ok_def)
  then have rg: "rg_ok (e_Registry ?e)" by (simp add: host_ok_def)
  have "?w \<in> set (nd_watched nd)" using True by simp
  then have w: "registered ?e ?a" "sw_routerPID ?w = ?rp" "sw_pid ?w = writer_pid ?e ?a"
    using assms by (simp_all add: node_ok_def)
  obtain proc where sh: "sw_Shutdown (Suc n) ?e ?w =
      Some (Eng (ProcSend proc ?rp (RemoteUnreachableEvent ?a) None) # map Eng (to_stream ?e (RemoteUnreachableEvent ?a)) @
        (if sw_stream ?w then [CloseStream] else []) @ [WInboxStop] :: 'u rem_effect list, without_writer ?a ?e)"
    using sw_Shutdown_ok [OF h w(2,3), of n, where 'a = 'u] by (auto simp: without_writer_def)
  have ws: "set ?ws \<subseteq> set (nd_watched nd)" "distinct (map sw_writeToAddr ?ws)" "\<forall>w \<in> set ?ws. sw_writeToAddr w \<noteq> ?a"
    using assms distinct_without [of sw_writeToAddr "nd_watched nd" i] True
    by (auto simp: node_ok_def image_iff dest: in_set_takeD in_set_dropD)
  have step: "node_step (Suc n) (EvClosed i) nd = Some (Eng (ProcSend proc ?rp (RemoteUnreachableEvent ?a) None) #
      map Eng (to_stream ?e (RemoteUnreachableEvent ?a)) @ (if sw_stream ?w then [CloseStream] else []) @ [WInboxStop] :: 'u rem_effect list,
      nd\<lparr>nd_engine := without_writer ?a ?e, nd_watched := ?ws, nd_pending := nd_pending nd @ [?a]\<rparr>)"
    using True
    by (simp add: sh new_pending_def map_filter_append List.map_filter_simps stream_not_router [OF h])
  have "writer_pid (without_writer ?a ?e) = writer_pid ?e" by (simp add: fun_eq_iff writer_pid_def without_writer_def)
  then have "node_ok (nd\<lparr>nd_engine := without_writer ?a ?e, nd_watched := ?ws, nd_pending := nd_pending nd @ [?a]\<rparr>)"
    using assms w(1) ws host_leave_writer [OF h, of ?a] registered_leave [OF rg, of ?a]
    unfolding node_ok_def without_writer_def [symmetric] by auto
  then show ?thesis using step by (simp add: without_writer_def)
next
  case False
  then show ?thesis using assms by simp
qed

lemma unreachable_keeps:
  assumes "node_ok nd"
  shows "\<exists>nd'. node_step (Suc n) (EvUnreachable :: 'u rem_event) nd = Some ([], nd') \<and> node_ok nd' \<and>
    rt_pid (nd_router nd') = rt_pid (nd_router nd) \<and> e_eventStream (nd_engine nd') = e_eventStream (nd_engine nd)"
  using assms by (cases "nd_pending nd") (auto simp: node_ok_def handleTerminateStream_def)

lemma other_keeps:
  assumes "node_ok nd" "ev_ok (nd_engine nd) (rt_pid (nd_router nd)) (EvOther op :: 'u rem_event)"
  shows "node_ok (nd\<lparr>nd_engine := eng_step op (nd_engine nd)\<rparr>) \<and> e_eventStream (eng_step op (nd_engine nd)) = e_eventStream (nd_engine nd)"
proof (cases op)
  case (Enter p)
  have h: "host_ok (nd_engine nd) (rt_pid (nd_router nd))" using assms(1) by (simp add: node_ok_def)
  then have "rg_ok (e_Registry (nd_engine nd))" by (simp add: host_ok_def)
  then have "registered (eng_step op (nd_engine nd)) = registered (nd_engine nd)"
    using assms(2) Enter by (auto simp: fun_eq_iff)
  moreover have "writer_pid (eng_step op (nd_engine nd)) = writer_pid (nd_engine nd)"
    by (simp add: Enter fun_eq_iff writer_pid_def)
  ultimately show ?thesis using assms(1) host_add [OF h, of p] unfolding node_ok_def by (simp add: Enter)
next
  case (Leave i)
  let ?e = "nd_engine nd" and ?r = "rg_leave (e_Registry (nd_engine nd)) i"
  have h: "host_ok ?e (rt_pid (nd_router nd))" using assms(1) by (simp add: node_ok_def)
  then have rg: "rg_ok (e_Registry ?e)" by (simp add: host_ok_def)
  have "host_ok (?e\<lparr>e_Registry := ?r\<rparr>) (rt_pid (nd_router nd))"
    by (rule host_ok_frame [OF h]) (use assms(2) rg in \<open>auto simp: Leave rg_find_step rg_find_leave\<close>)
  moreover have "registered (?e\<lparr>e_Registry := ?r\<rparr>) = registered ?e"
    using assms(2) by (auto simp: Leave fun_eq_iff registered_def rg_find_leave [OF rg])
  moreover have "writer_pid (?e\<lparr>e_Registry := ?r\<rparr>) = writer_pid ?e" by (simp add: fun_eq_iff writer_pid_def)
  ultimately show ?thesis using assms(1) unfolding node_ok_def by (simp add: Leave)
qed

lemma node_step_keeps:
  fixes ev :: "'u rem_event"
  assumes "node_ok nd" "ev_ok (nd_engine nd) (rt_pid (nd_router nd)) ev"
  shows "\<exists>es nd'. node_step (Suc n) ev nd = Some (es, nd') \<and> node_ok nd' \<and>
    rt_pid (nd_router nd') = rt_pid (nd_router nd) \<and> e_eventStream (nd_engine nd') = e_eventStream (nd_engine nd)"
proof (cases ev)
  case (EvDeliver net obj msg)
  then show ?thesis using deliver_keeps [OF assms(1), of msg n net obj] assms(2) by simp
next
  case EvUnreachable
  then show ?thesis using unreachable_keeps [OF assms(1), of n, where 'u = 'u] by blast
next
  case (EvClosed i)
  then show ?thesis using closed_keeps [OF assms(1), of n i, where 'u = 'u] by blast
next
  case (EvOther op)
  then show ?thesis using other_keeps [OF assms(1), of op, where 'u = 'u] assms(2) by simp
qed

lemma ev_ok_cong:
  assumes "e_eventStream e' = e_eventStream e"
  shows "ev_ok e' = ev_ok e"
proof (intro ext)
  show "ev_ok e' rp ev = ev_ok e rp ev" for rp :: "PID option" and ev :: "'u rem_event"
    using assms by (cases "(e, rp, ev)" rule: ev_ok.cases) auto
qed

lemma node_run_keeps:
  fixes evs :: "'u rem_event list"
  assumes "node_ok nd" "list_all (ev_ok (nd_engine nd) (rt_pid (nd_router nd))) evs"
  shows "\<exists>es nd'. node_run (Suc n) evs nd = Some (es, nd') \<and> node_ok nd'"
  using assms
proof (induction evs arbitrary: nd)
  case (Cons ev evs)
  from Cons.prems obtain es nd' where st: "node_step (Suc n) ev nd = Some (es, nd')" "node_ok nd'"
    "rt_pid (nd_router nd') = rt_pid (nd_router nd)" "e_eventStream (nd_engine nd') = e_eventStream (nd_engine nd)"
    using node_step_keeps [of nd ev n] by auto
  have "list_all (ev_ok (nd_engine nd') (rt_pid (nd_router nd'))) evs"
    using Cons.prems(2) by (simp add: st(3) ev_ok_cong [OF st(4)])
  from Cons.IH [OF st(2) this] show ?case by (auto simp: st(1))
qed simp

text \<open>The node after the router was started: no writer, no event under way.\<close>

definition node_init :: "Engine \<Rightarrow> PID \<Rightarrow> int \<Rightarrow> node" where
  "node_init e rp buff =
     \<lparr>nd_engine = e, nd_router = \<lparr>rt_streams = [], rt_pid = Some rp, rt_tlsConfig = None, rt_buffSize = buff\<rparr>,
      nd_watched = [], nd_pending = []\<rparr>"

lemma node_init_ok: "host_ok e (Some rp) \<Longrightarrow> (\<And>a. \<not> registered e a) \<Longrightarrow> node_ok (node_init e rp buff)"
  by (simp add: node_ok_def node_init_def)

lemma node_init_Started:
  "newStreamRouter None buff t = Inr s \<Longrightarrow> c_pid ctx = rp \<Longrightarrow> c_Message ctx = Started \<Longrightarrow>
     map_option dl_router (rt_Receive n e net obj ctx s) = Some (nd_router (node_init e rp buff))"
  by (auto simp: newStreamRouter_def rt_Receive_def node_init_def c_PID_def)

subsection \<open>Properties\<close>

text \<open>A host for the witnesses: an engine at \<^verbatim>\<open>a:1\<close> with its event stream and its router, and two networks.\<close>

definition demo_host :: Engine where
  "demo_host = \<lparr>e_Registry = \<lparr>rg_lookup =
       [(''eventstream/1'', \<lparr>pr_kind = KProcess, pr_obj = 0, pr_PID = NewPID ''a:1'' ''eventstream/1''\<rparr>),
        (''router/2'', \<lparr>pr_kind = KStreamRouter, pr_obj = 1, pr_PID = NewPID ''a:1'' ''router/2''\<rparr>)]\<rparr>,
     e_address = ''a:1'', e_remote = True, e_eventStream = Some (NewPID ''a:1'' ''eventstream/1'')\<rparr>"

definition demo_router :: PID where
  "demo_router = NewPID ''a:1'' ''router/2''"

definition net_up :: network where
  "net_up = \<lparr>net_dial = (\<lambda>i. i = 1), net_deadline = True, net_open = True\<rparr>"

definition net_down :: network where
  "net_down = \<lparr>net_dial = (\<lambda>_. False), net_deadline = True, net_open = True\<rparr>"

definition demo_msg :: "string \<Rightarrow> nat rmsg" where
  "demo_msg a = streamDeliver None (Some (NewPID a ''x/1'')) (User (Plain 7)) False"

lemma demo_host_ok: "host_ok demo_host (Some demo_router)"
  by (simp add: host_ok_def demo_host_def demo_router_def rg_ok_def rg_getByID_def gm_ok_def gm_get_def
      NewPID_def is_writer_id_def)

lemma demo_host_unregistered: "\<not> registered demo_host a"
  by (simp add: registered_def demo_host_def rg_getByID_def gm_get_def writer_id_def)



text \<open>An address takes messages if its writer is registered or can be started now.\<close>

definition takes :: "node \<Rightarrow> network \<Rightarrow> string \<Rightarrow> bool" where
  "takes nd net a \<longleftrightarrow> registered (nd_engine nd) a \<or> (a \<notin> set (nd_pending nd) \<and> \<not> gives_up net)"

lemma deliver_routes:
  fixes msg :: "'u rmsg"
  assumes "node_ok nd" "sd_target msg = Some t" "a = Address t" "e = nd_engine nd"
  shows "\<exists>d pre. deliverStream (Suc n) e net obj msg (nd_router nd) = Some d \<and> dl_panic d = None \<and>
    dl_effects d = pre @ map Eng (route False (dl_engine d) (Some (writer_pid e a)) (User msg) None) \<and>
    e_address (dl_engine d) = e_address e \<and> (registered (dl_engine d) a \<longleftrightarrow> takes nd net a)"
proof -
  have h: "host_ok e (rt_pid (nd_router nd))" "rt_tlsConfig (nd_router nd) = None"
    and s: "gm_get (rt_streams (nd_router nd)) a =
      (if registered e a \<or> a \<in> set (nd_pending nd) then Some (writer_pid e a) else None)"
    and p: "a \<in> set (nd_pending nd) \<Longrightarrow> \<not> registered e a"
    using assms(1,4) by (auto simp: node_ok_def)
  show ?thesis
  proof (cases "registered e a \<or> a \<in> set (nd_pending nd)")
    case True
    then have "registered e a = takes nd net a" using p assms(4) by (auto simp: takes_def)
    then show ?thesis
      using True deliver_known [OF host_es_ok [OF h(1)] assms(2), of "nd_router nd" "writer_pid e a" n net obj] s assms(3)
      by simp
  next
    case False
    then have f: "\<not> registered e a" "gm_get (rt_streams (nd_router nd)) a = None" using s by auto
    obtain es :: "'u rem_effect list" and w where d: "deliverStream (Suc n) e net obj msg (nd_router nd) =
      Some \<lparr>dl_effects = Eng (ProcStart (writer_proc e obj a)) # es @
          map Eng (route False (after_spawn net obj a e) (Some (writer_pid e a)) (User msg) None),
        dl_router = (nd_router nd)\<lparr>rt_streams := gm_set a (writer_pid e a) (rt_streams (nd_router nd))\<rparr>,
        dl_engine = after_spawn net obj a e, dl_writer = Some w, dl_panic = None\<rparr>"
      using deliver_fresh [OF h(1) f(1) h(2) assms(2,3) f(2), of n net obj] by blast
    have "rg_ok (e_Registry e)" using h(1) by (simp add: host_ok_def)
    then have "registered (after_spawn net obj a e) a \<longleftrightarrow> takes nd net a"
      using registered_spawn [of e a net obj a] False assms(4) by (simp add: takes_def)
    then show ?thesis using d by (auto intro!: exI [of _ "Eng (ProcStart (writer_proc e obj a)) # es"])
  qed
qed

text \<open>C28: A delivery on a well-formed node never panics and ends in one of two ways: the message is sent to the
  address's writer if that is registered or can be started, and otherwise becomes a dead letter.\<close>

theorem delivery_outcome:
  fixes msg :: "'u rmsg"
  assumes "node_ok nd" "sd_target msg = Some t" "a = Address t" "pid = writer_pid (nd_engine nd) a"
  shows "\<exists>d pre. deliverStream (Suc n) (nd_engine nd) net obj msg (nd_router nd) = Some d \<and> dl_panic d = None \<and>
    (if takes nd net a
     then \<exists>proc. rg_getByID (e_Registry (dl_engine d)) (writer_id a) = Some proc \<and>
       dl_effects d = pre @ [Eng (ProcSend proc (Some pid) (User msg) None)]
     else dl_effects d = pre @ map Eng (to_stream (dl_engine d) (DeadLetterEvent (Some pid) (User msg) None)))"
proof -
  obtain d pre where d: "deliverStream (Suc n) (nd_engine nd) net obj msg (nd_router nd) = Some d" "dl_panic d = None"
    "dl_effects d = pre @ map Eng (route False (dl_engine d) (Some pid) (User msg) None)"
    "e_address (dl_engine d) = e_address (nd_engine nd)" "registered (dl_engine d) a \<longleftrightarrow> takes nd net a"
    using deliver_routes [OF assms(1-3) refl, of n net obj] assms(4) by blast
  have "if registered (dl_engine d) a
     then \<exists>proc. rg_getByID (e_Registry (dl_engine d)) (writer_id a) = Some proc \<and>
       dl_effects d = pre @ [Eng (ProcSend proc (Some pid) (User msg) None)]
     else dl_effects d = pre @ map Eng (to_stream (dl_engine d) (DeadLetterEvent (Some pid) (User msg) None))"
    using d(3,4) assms(4)
    by (auto simp: route_def registered_def rg_getByID_def writer_pid_def NewPID_def split: option.splits)
  then show ?thesis using d by auto
qed

theorem delivery_outcome_witness:
  "\<exists>d pre proc. deliverStream 1 demo_host net_up 5 (demo_msg ''b:2'') (nd_router (node_init demo_host demo_router 0)) = Some d \<and>
     dl_panic d = None \<and> rg_getByID (e_Registry (dl_engine d)) (writer_id ''b:2'') = Some proc \<and>
     dl_effects d = pre @ [Eng (ProcSend proc (Some (writer_pid demo_host ''b:2'')) (User (demo_msg ''b:2'')) None)]"
proof -
  have "takes (node_init demo_host demo_router 0) net_up ''b:2''" by code_simp
  then show ?thesis
    using delivery_outcome [OF node_init_ok [OF demo_host_ok demo_host_unregistered], of "demo_msg ''b:2''" "NewPID ''b:2'' ''x/1''"
        "''b:2''" _ 0 0 net_up 5]
    by (auto simp: demo_msg_def NewPID_def node_init_def)
qed

subsubsection \<open>An unreachable remote\<close>

lemma to_stream_frame:
  assumes "host_ok e rp" "\<And>i. \<not> is_writer_id i \<Longrightarrow> rg_getByID r i = rg_getByID (e_Registry e) i"
  shows "to_stream (e\<lparr>e_Registry := r\<rparr>) ev = to_stream e ev"
  using assms by (auto simp: host_ok_def to_stream_def rg_get_Some split: option.splits)

lemma stream_with_writer: "host_ok e rp \<Longrightarrow> to_stream (with_writer obj a e) ev = to_stream e ev"
  unfolding with_writer_def
  by (rule to_stream_frame) (auto simp: host_ok_def rg_find_add writer_proc_def writer_pid_def NewPID_def)

lemma stream_without_writer: "host_ok e rp \<Longrightarrow> to_stream (without_writer a e) ev = to_stream e ev"
  unfolding without_writer_def by (rule to_stream_frame) (auto simp: host_ok_def rg_find_leave)

lemma find_without_with_writer:
  assumes "rg_ok (e_Registry e)" "\<not> registered e a"
  shows "rg_getByID (e_Registry (without_writer a (with_writer obj a e))) = rg_getByID (e_Registry e)"
  using assms rg_find_step(1) [OF assms(1)] unfolding with_writer_def without_writer_def
  by (auto simp: fun_eq_iff rg_find_leave rg_find_add writer_proc_def writer_pid_def NewPID_def registered_def)

lemma host_with_writer: "host_ok e rp \<Longrightarrow> host_ok (with_writer obj a e) rp"
  unfolding with_writer_def by (rule host_add)

lemma host_without_writer: "host_ok e rp \<Longrightarrow> host_ok (without_writer a e) rp"
  unfolding without_writer_def by (rule host_leave_writer)

text \<open>The three attempts to dial and the pauses after them.\<close>

definition failed_dials :: "nat option \<Rightarrow> string \<Rightarrow> 'u rem_effect list" where
  "failed_dials tls a =
     [Dial tls a, LogErr, SleepFor 0, Dial tls a, LogErr, SleepFor 1000000000, Dial tls a, LogErr, SleepFor 2000000000]"

lemma sw_dial_fails:
  "\<not> dials net \<Longrightarrow> sw_dial tls a (net_dial net) 0 3 c = (failed_dials tls a, if tls = None then NilIface else TypedNil)"
  by (simp add: dials_def failed_dials_def eval_nat_numeral)

text \<open>A writer that cannot reach its remote dials three times, pausing 0, 1 and 2 seconds, tells the router and the
  event stream, stops its inbox and leaves the registry as it was; the message becomes a dead letter.\<close>

theorem unreachable_remote:
  fixes msg :: "'u rmsg"
  assumes "host_ok e (rt_pid s)" "\<not> registered e a" "rt_tlsConfig s = None"
    and "sd_target msg = Some t" "a = Address t" "gm_get (rt_streams s) a = None" "\<not> dials net"
  shows "\<exists>d proc. deliverStream (Suc n) e net obj msg s = Some d \<and>
    dl_effects d = Eng (ProcStart (writer_proc e obj a)) # WInboxStart # failed_dials None a @
      Eng (ProcSend proc (rt_pid s) (RemoteUnreachableEvent a) None) # map Eng (to_stream e (RemoteUnreachableEvent a)) @
      WInboxStop # map Eng (to_stream e (DeadLetterEvent (Some (writer_pid e a)) (User msg) None)) \<and>
    rg_getByID (e_Registry (dl_engine d)) = rg_getByID (e_Registry e)"
proof -
  let ?e = "with_writer obj a e" and ?w = "newStreamWriter e (rt_pid s) a None (rt_buffSize s)"
  let ?e' = "without_writer a ?e"
  have host: "host_ok ?e (rt_pid s)" "host_ok ?e' (rt_pid s)"
    using host_with_writer [OF assms(1)] host_without_writer by blast+
  have find: "rg_getByID (e_Registry ?e') = rg_getByID (e_Registry e)"
    using assms(1,2) find_without_with_writer by (simp add: host_ok_def)
  note ts = stream_with_writer [OF assms(1)] stream_without_writer [OF host(1)]
  have w: "sw_routerPID ?w = rt_pid s" "sw_pid ?w = writer_pid ?e (sw_writeToAddr ?w)" "sw_writeToAddr ?w = a"
    "\<not> sw_stream ?w" "sw_tlsConfig ?w = None"
    by (simp_all add: newStreamWriter_def writer_pid_def writer_id_def with_writer_def)
  obtain proc where "sw_Shutdown (Suc n) ?e ?w = Some (Eng (ProcSend proc (rt_pid s) (RemoteUnreachableEvent a) None) #
      map Eng (to_stream e (RemoteUnreachableEvent a)) @ [WInboxStop] :: 'u rem_effect list, ?e')"
    using sw_Shutdown_ok [OF host(1) w(1,2), of n, where 'a = 'u] by (auto simp: w ts without_writer_def)
  then have st: "sw_Start (Suc n) ?e net ?w = Some (WInboxStart # failed_dials None a @
      Eng (ProcSend proc (rt_pid s) (RemoteUnreachableEvent a) None) # map Eng (to_stream e (RemoteUnreachableEvent a)) @ [WInboxStop] :: 'u rem_effect list,
      ?w, ?e', None)"
    by (simp add: sw_Start_def sw_init_def w Let_def sw_dial_fails [OF assms(7)])
  have "e_address ?e' = e_address e" by (simp add: with_writer_def without_writer_def)
  moreover have "gm_get (rg_lookup (e_Registry ?e')) (writer_id a) = None"
    using assms(2) fun_cong [OF find] by (simp add: registered_def rg_getByID_def)
  ultimately have "route False ?e' (Some (writer_pid e a)) (User msg) None =
      to_stream e (DeadLetterEvent (Some (writer_pid e a)) (User msg) None)"
    by (simp add: route_def ts writer_pid_def NewPID_def)
  then show ?thesis using st assms(3,4,6) find
    by (simp add: deliverStream_def assms(5) [symmetric] spawn_writer_new [OF assms(2)] eng_Send_def Let_def
        send_ok [OF host_es_ok [OF host(2)]] del: send.simps)
qed

theorem unreachable_remote_witness:
  "\<exists>d proc. deliverStream 1 demo_host net_down 5 (demo_msg ''b:2'') (nd_router (node_init demo_host demo_router 0)) = Some d \<and>
    dl_effects d = Eng (ProcStart (writer_proc demo_host 5 ''b:2'')) # WInboxStart # failed_dials None ''b:2'' @
      Eng (ProcSend proc (Some demo_router) (RemoteUnreachableEvent ''b:2'') None) #
      map Eng (to_stream demo_host (RemoteUnreachableEvent ''b:2'')) @
      WInboxStop # map Eng (to_stream demo_host (DeadLetterEvent (Some (writer_pid demo_host ''b:2'')) (User (demo_msg ''b:2'')) None)) \<and>
    rg_getByID (e_Registry (dl_engine d)) = rg_getByID (e_Registry demo_host)"
  using unreachable_remote [of demo_host "nd_router (node_init demo_host demo_router 0)" "''b:2''" "demo_msg ''b:2''"
      "NewPID ''b:2'' ''x/1''" net_down 0 5]
  by (simp add: demo_host_ok demo_host_unregistered node_init_def demo_msg_def NewPID_def dials_def net_down_def)

text \<open>C37: With TLS an unreachable remote makes the writer's start panic: the failed dial leaves a nil
  \<^verbatim>\<open>*tls.Conn\<close> in an interface that is not nil. Nobody is told, the writer stays registered without a stream,
  and the message is lost.\<close>

theorem tls_unreachable_panics:
  fixes msg :: "'u rmsg"
  assumes "\<not> registered e a" "rt_tlsConfig s = Some c" "\<not> dials net"
    and "sd_target msg = Some t" "a = Address t" "gm_get (rt_streams s) a = None"
  shows "\<exists>w. deliverStream (Suc n) e net obj msg s =
    Some \<lparr>dl_effects = Eng (ProcStart (writer_proc e obj a)) # WInboxStart # failed_dials (Some c) a,
      dl_router = s, dl_engine = with_writer obj a e, dl_writer = Some w, dl_panic = Some NilDeref\<rparr> \<and> \<not> sw_stream w"
proof -
  let ?w = "newStreamWriter e (rt_pid s) a (Some c) (rt_buffSize s)"
  have w: "sw_writeToAddr ?w = a" "sw_tlsConfig ?w = Some c" "\<not> sw_stream (?w\<lparr>sw_rawconn := TypedNil\<rparr>)"
    by (simp_all add: newStreamWriter_def)
  have "sw_Start (Suc n) (with_writer obj a e) net ?w = Some (WInboxStart # failed_dials (Some c) a :: 'u rem_effect list,
      ?w\<lparr>sw_rawconn := TypedNil\<rparr>, with_writer obj a e, Some NilDeref)"
    by (simp add: sw_Start_def sw_init_def w Let_def sw_dial_fails [OF assms(3)])
  then show ?thesis using assms(2,4,6) w(3)
    by (simp add: deliverStream_def assms(5) [symmetric] spawn_writer_new [OF assms(1)] Let_def)
qed

theorem tls_unreachable_panics_witness:
  "\<exists>w. deliverStream 1 demo_host net_down 5 (demo_msg ''b:2'')
      \<lparr>rt_streams = [], rt_pid = Some demo_router, rt_tlsConfig = Some 0, rt_buffSize = 0\<rparr> =
    Some \<lparr>dl_effects = Eng (ProcStart (writer_proc demo_host 5 ''b:2'')) # WInboxStart # failed_dials (Some 0) ''b:2'',
      dl_router = \<lparr>rt_streams = [], rt_pid = Some demo_router, rt_tlsConfig = Some 0, rt_buffSize = 0\<rparr>,
      dl_engine = with_writer 5 ''b:2'' demo_host, dl_writer = Some w, dl_panic = Some NilDeref\<rparr> \<and> \<not> sw_stream w"
  using tls_unreachable_panics [of demo_host "''b:2''" "\<lparr>rt_streams = [], rt_pid = Some demo_router, rt_tlsConfig = Some 0, rt_buffSize = 0\<rparr>"
      0 net_down "demo_msg ''b:2''" "NewPID ''b:2'' ''x/1''" 0 5]
  by (simp add: demo_host_unregistered demo_msg_def NewPID_def dials_def net_down_def)

subsubsection \<open>The life of a remote\<close>

text \<open>Calls on a remote, with what the listener and the registration answer, and their results.\<close>

datatype life_call = LStart Engine "string option" "string option" nat nat | LStop

datatype life_result = LStarted PID | LError string | LStopped stop_result

fun is_started :: "life_result \<Rightarrow> bool" where
  "is_started (LStarted _) = True"
| "is_started _ = False"

fun life_step :: "nat \<Rightarrow> life_call \<Rightarrow> Remote \<Rightarrow> (life_result \<times> Remote) go option" where
  "life_step n (LStart e listen register obj rnd) r =
     map_option (\<lambda>x. go_bind x (\<lambda>(res, r').
         Inr (case res of Inl err \<Rightarrow> LError err | Inr sp \<Rightarrow> LStarted (sp_pid sp), r')))
       (rem_Start n e listen register obj rnd r :: ((string + (unit, unit) router_spawned) \<times> Remote) go option)"
| "life_step n LStop r = (case rem_Stop r of (res, r') \<Rightarrow> Some (Inr (LStopped res, r')))"

fun life_run :: "nat \<Rightarrow> life_call list \<Rightarrow> Remote \<Rightarrow> (life_result list \<times> Remote) go option" where
  "life_run n [] r = Some (Inr ([], r))"
| "life_run n (c # cs) r =
     (case life_step n c r of
        None \<Rightarrow> None
      | Some (Inl p) \<Rightarrow> Some (Inl p)
      | Some (Inr (res, r')) \<Rightarrow>
          map_option (\<lambda>x. go_bind x (\<lambda>(ress, r''). Inr (res # ress, r''))) (life_run n cs r'))"

fun call_ok :: "life_call \<Rightarrow> bool" where
  "call_ok (LStart e listen register obj rnd) \<longleftrightarrow> es_ok e"
| "call_ok LStop \<longleftrightarrow> True"

lemma life_step_ok:
  assumes "call_ok c"
  shows "\<exists>res r'. life_step (Suc n) c r = Some (Inr (res, r')) \<and>
    (rem_state r' = stateInitialized \<longrightarrow> rem_state r = stateInitialized \<and> \<not> is_started res) \<and>
    (rem_state r \<noteq> stateInitialized \<longrightarrow> \<not> is_started res)"
proof (cases c)
  case (LStart e listen register obj rnd)
  have "\<exists>sp. Spawn (Suc n) e obj rnd (newStreamRouter (cf_TLSConfig (rem_config r)) (cf_BuffSize (rem_config r)))
      ''router'' [WithInboxSize (1024 * 1024)] = Some (Inr (sp :: (unit, unit) router_spawned))"
    by (rule Spawn_returns) (use assms LStart in \<open>simp_all add: spawn_opts_def WithInboxSize_def DefaultOpts_def\<close>)
  then show ?thesis using LStart
    by (auto simp: rem_Start_def Let_def split: option.splits)
next
  case LStop
  then show ?thesis by (auto simp: rem_Stop_def Let_def)
qed

lemma life_run_ok:
  assumes "list_all call_ok cs"
  shows "\<exists>ress r'. life_run (Suc n) cs r = Some (Inr (ress, r')) \<and>
    length (filter is_started ress) \<le> (if rem_state r = stateInitialized then 1 else 0)"
  using assms
proof (induction cs arbitrary: r)
  case (Cons c cs)
  obtain res r' where st: "life_step (Suc n) c r = Some (Inr (res, r'))"
    "rem_state r' = stateInitialized \<longrightarrow> rem_state r = stateInitialized \<and> \<not> is_started res"
    "rem_state r \<noteq> stateInitialized \<longrightarrow> \<not> is_started res"
    using life_step_ok [of c n r] Cons.prems by auto
  then show ?case using Cons.IH [of r'] Cons.prems by (auto split: if_splits)
qed simp

text \<open>Whatever calls of \<^verbatim>\<open>Start\<close> and \<^verbatim>\<open>Stop\<close> a new remote gets, one after the other, they end without a
  panic and at most one \<^verbatim>\<open>Start\<close> succeeds.\<close>

theorem remote_starts_once:
  assumes "list_all call_ok cs"
  shows "\<exists>ress r. life_run (Suc n) cs (rem_New addr config) = Some (Inr (ress, r)) \<and> length (filter is_started ress) \<le> 1"
  using life_run_ok [OF assms, of n "rem_New addr config"] by (simp add: rem_New_def)

theorem remote_starts_once_witness:
  "\<exists>ress r. life_run 1 [LStart demo_host None None 5 7, LStop, LStart demo_host None None 6 8] (rem_New ''a:1'' NewConfig) =
     Some (Inr (ress, r)) \<and> length (filter is_started ress) \<le> 1"
  using remote_starts_once [of "[LStart demo_host None None 5 7, LStop, LStart demo_host None None 6 8]" 0 "''a:1''" NewConfig]
    host_es_ok [OF demo_host_ok] by simp

text \<open>After a \<^verbatim>\<open>Start\<close> that could not listen, \<^verbatim>\<open>Stop\<close> blocks for ever, and \<^verbatim>\<open>Start\<close> cannot be tried
  again.\<close>

theorem failed_start_stop_blocks:
  "life_run 1 [LStart e (Some err) register obj rnd, LStart e None None obj rnd, LStop] (rem_New addr config) =
     Some (Inr ([LError (''remote failed to listen: '' @ err), LError ''remote already started'', LStopped StopBlocked],
       \<lparr>rem_addr = addr, rem_engine = True, rem_config = config, rem_streamRouterPID = None, rem_stopCh = False,
        rem_stopWg = None, rem_state = stateStopped, rem_serving = False\<rparr>))"
  by (simp add: rem_Start_def rem_Stop_def rem_New_def)

subsubsection \<open>Booting an engine with a remote\<close>

text \<open>The remote as the engine sees it. The engine has no event stream yet when it starts its remote, so that nothing
  can diverge there.\<close>

definition rem_Remoter :: "string option \<Rightarrow> string option \<Rightarrow> nat \<Rightarrow> nat \<Rightarrow> string \<Rightarrow> Config \<Rightarrow> Remoter" where
  "rem_Remoter listen register obj rnd addr config =
     \<lparr>rm_Address = rem_Address (rem_New addr config),
      rm_Start = (\<lambda>e. case (rem_Start 1 e listen register obj rnd (rem_New addr config) ::
             ((string + (unit, unit) router_spawned) \<times> Remote) go option) of
           Some (Inr (Inr sp, _)) \<Rightarrow> Inr (sp_engine sp)
         | Some (Inr (Inl err, _)) \<Rightarrow> Inl err
         | _ \<Rightarrow> Inl [])\<rparr>"

abbreviation router_pid :: "string \<Rightarrow> nat \<Rightarrow> PID" where
  "router_pid addr rnd \<equiv> NewPID addr (''router'' @ pidSeparator @ Itoa (int rnd))"

lemma boot_remote:
  "start_remote (Some (rem_Remoter None None obj rnd addr config)) =
     Inr \<lparr>e_Registry = \<lparr>rg_lookup = [(ID (router_pid addr rnd), proc_ref obj (router_pid addr rnd))]\<rparr>,
       e_address = addr, e_remote = True, e_eventStream = None\<rparr>"
proof -
  let ?e = "\<lparr>e_Registry = newRegistry, e_address = addr, e_remote = True, e_eventStream = None\<rparr>"
  let ?p = "newStreamRouter (cf_TLSConfig config) (cf_BuffSize config) :: nat \<Rightarrow> unit rmsg any + streamRouter"
  let ?opts = "[WithInboxSize (1024 * 1024)] :: (unit rmsg, streamRouter, unit) OptFunc list"
  have o: "0 \<le> o_InboxSize (spawn_opts ?p ''router'' ?opts (Itoa (int rnd)))"
    "o_Kind (spawn_opts ?p ''router'' ?opts (Itoa (int rnd))) = ''router''"
    "o_ID (spawn_opts ?p ''router'' ?opts (Itoa (int rnd))) = Itoa (int rnd)"
    by (simp_all add: spawn_opts_def WithInboxSize_def DefaultOpts_def)
  have "rg_getByID (e_Registry ?e) i = None" for i by (simp add: newRegistry_def rg_getByID_def)
  from Spawn_new [OF o(1) this refl refl, of 1 obj, unfolded o(2,3)] show ?thesis
    by (auto simp: start_remote_def rem_Remoter_def rem_Address_def rem_Start_def rem_New_def o newRegistry_def
        gm_set_def Let_def LocalLookupAddr_def)
qed

text \<open>An engine made with a remote that can listen has its router and its event stream registered at the
  remote's address, and no writer yet: it is a host on which the router's properties hold.\<close>

theorem remote_engine_boots:
  fixes newEventStream :: "nat \<Rightarrow> 'u any + 'r"
  shows "\<exists>sp :: ('u, 'r, 'e) spawned. NewEngine (Suc n) (Some (rem_Remoter None None obj rnd addr config)) obj' rnd' newEventStream = Some (Inr (Inr sp)) \<and>
     host_ok (sp_engine sp) (Some (router_pid addr rnd)) \<and> (\<forall>a. \<not> registered (sp_engine sp) a) \<and>
     e_address (sp_engine sp) = addr \<and>
     e_eventStream (sp_engine sp) = Some (NewPID addr (''eventstream'' @ pidSeparator @ Itoa (int rnd'))) \<and>
     (\<forall>i. rg_getByID (e_Registry (sp_engine sp)) i \<noteq> None \<longleftrightarrow>
        i \<in> {ID (router_pid addr rnd), ''eventstream'' @ pidSeparator @ Itoa (int rnd')})"
proof -
  let ?e = "\<lparr>e_Registry = \<lparr>rg_lookup = [(ID (router_pid addr rnd), proc_ref obj (router_pid addr rnd))]\<rparr>,
       e_address = addr, e_remote = True, e_eventStream = None\<rparr>"
  let ?o = "spawn_opts newEventStream ''eventstream'' ([] :: ('u, 'r, 'e) OptFunc list) (Itoa (int rnd'))"
  have o: "0 \<le> o_InboxSize ?o"
    "o_Kind ?o = ''eventstream''"
    "o_ID ?o = Itoa (int rnd')"
    by (simp_all add: spawn_opts_def DefaultOpts_def defaultInboxSize_def)
  have "rg_getByID (e_Registry ?e) (''eventstream'' @ i) = None" for i
    by (simp add: rg_getByID_def gm_get_def NewPID_def)
  then have new: "rg_getByID (e_Registry ?e) (o_Kind ?o @
      pidSeparator @ o_ID ?o) = None"
    by (simp only: o)
  from Spawn_new [OF o(1) new refl refl, of "Suc n" obj'] show ?thesis
    by (auto simp: NewEngine_def boot_remote o host_ok_def registered_def rg_ok_def rg_getByID_def NewPID_def gm_set_def gm_get_def
        gm_ok_def is_writer_id_def writer_id_def proc_ref_def pidSeparator_def)
qed

end
