(* ===== verification/Cluster.thy ===== *)
theory Cluster
  imports Agent_Properties Remote
begin

text \<open>
  The cluster (\<^verbatim>\<open>src/cluster/cluster.go\<close>): its configuration, starting the agent and the provider, and
  the calls a program makes, most of which are requests to the local agent. The engine is
  an argument; the answer to a request is \<open>None\<close> if it times out.
\<close>

subsection \<open>Configuration\<close>

definition defaultRequestTimeout :: int where
  "defaultRequestTimeout = 1000000000"

definition getRandomListenAddr :: "nat \<Rightarrow> string" where
  "getRandomListenAddr rnd = ''127.0.0.1:'' @ Itoa (int (rnd mod 50000) + 10000)"

text \<open>\<open>port\<close> and \<open>rnd\<close> are what \<^verbatim>\<open>rand.Intn\<close> draws.\<close>

definition cl_NewConfig :: "nat \<Rightarrow> nat \<Rightarrow> ClusterConfig" where
  "cl_NewConfig port rnd = \<lparr>cc_listenAddr = getRandomListenAddr port, cc_id = Itoa (int rnd), cc_region = ''default'',
     cc_requestTimeout = defaultRequestTimeout\<rparr>"

definition WithRequestTimeout :: "int \<Rightarrow> ClusterConfig \<Rightarrow> ClusterConfig" where
  "WithRequestTimeout d config = config\<lparr>cc_requestTimeout := d\<rparr>"

definition WithListenAddr :: "string \<Rightarrow> ClusterConfig \<Rightarrow> ClusterConfig" where
  "WithListenAddr addr config = config\<lparr>cc_listenAddr := addr\<rparr>"

definition cc_WithID :: "string \<Rightarrow> ClusterConfig \<Rightarrow> ClusterConfig" where
  "cc_WithID i config = config\<lparr>cc_id := i\<rparr>"

definition cc_WithRegion :: "string \<Rightarrow> ClusterConfig \<Rightarrow> ClusterConfig" where
  "cc_WithRegion region config = config\<lparr>cc_region := region\<rparr>"

subsection \<open>Making, starting and stopping a cluster\<close>

text \<open>Without an engine in the configuration a new one is made, with a remote at the listen address. \<open>listen\<close> is the
  listener's error, if any.\<close>

definition cl_New ::
    "nat \<Rightarrow> ClusterConfig \<Rightarrow> Engine option \<Rightarrow> string option \<Rightarrow> nat \<Rightarrow> nat \<Rightarrow> nat \<Rightarrow> nat \<Rightarrow> (string + 'r Cluster \<times> Engine) go option" where
  "cl_New n config engine listen obj rnd obj' rnd' =
     (let c = \<lparr>cl_config = config, cl_agentPID = None, cl_providerPID = None, cl_isStarted = False, cl_kinds = []\<rparr> in
      case engine of
        Some e \<Rightarrow> Some (Inr (Inr (c, e)))
      | None \<Rightarrow>
          map_option (\<lambda>r. go_bind r (\<lambda>x. case x of
               Inl err \<Rightarrow> Inr (Inl err)
             | Inr sp \<Rightarrow> Inr (Inr (c, sp_engine sp))))
            (NewEngine n (Some (rem_Remoter listen None obj rnd (cc_listenAddr config) NewConfig)) obj' rnd'
               (newEventStream :: nat \<Rightarrow> cmsg any + subs) :: (string + (cmsg, subs, unit) spawned) go option))"

text \<open>Spawning one of the two actors under the cluster's ID.\<close>

definition spawn_service ::
    "nat \<Rightarrow> Engine \<Rightarrow> nat \<Rightarrow> nat \<Rightarrow> (nat \<Rightarrow> cmsg any + 's) \<Rightarrow> string \<Rightarrow> string \<Rightarrow> (PID \<times> Engine) act" where
  "spawn_service n e obj rnd p kind i =
     (case (Spawn n e obj rnd p kind [WithID i] :: (cmsg, 's, unit) spawned go option) of
        None \<Rightarrow> None
      | Some (Inl ex) \<Rightarrow> Some ([], Inl ex)
      | Some (Inr sp) \<Rightarrow> Some (sp_calls sp, Inr (sp_pid sp, sp_engine sp)))"

definition cl_Start ::
    "nat \<Rightarrow> Engine \<Rightarrow> nat \<Rightarrow> nat \<Rightarrow> ('r Cluster \<Rightarrow> nat \<Rightarrow> cmsg any + 's) \<Rightarrow> 'r Cluster \<Rightarrow> ('r Cluster \<times> Engine) act" where
  "cl_Start n e obj rnd provider c =
     act_bind (spawn_service n e obj rnd (NewAgent c (fst (agent_maps (cl_kinds c)))) ''cluster'' (cc_id (cl_config c))) (\<lambda>(pid, e).
       let c = c\<lparr>cl_agentPID := Some pid\<rparr> in
       act_bind (spawn_service n e (obj + 1) rnd (provider c) ''provider'' (cc_id (cl_config c))) (\<lambda>(pid, e).
         act_ret (c\<lparr>cl_providerPID := Some pid, cl_isStarted := True\<rparr>, e)))"

text \<open>\<^verbatim>\<open>Stop\<close> waits for each actor in turn; \<open>done1\<close> and \<open>done2\<close> tell whether it ends. The flag tells whether the call
  returns.\<close>

definition cl_Stop :: "nat \<Rightarrow> Engine \<Rightarrow> Engine \<Rightarrow> bool \<Rightarrow> bool \<Rightarrow> nat \<Rightarrow> 'r Cluster \<Rightarrow> (cmsg call list \<times> bool) option" where
  "cl_Stop n e e' done1 done2 cancel c =
     (case Poison n e e cancel (cl_agentPID c) of
        None \<Rightarrow> None
      | Some cs \<Rightarrow>
          if \<not> done1 then Some (cs, False)
          else map_option (\<lambda>cs'. (cs @ cs', done2)) (Poison n e' e' (cancel + 1) (cl_providerPID c)))"

subsection \<open>Kinds and the member of this node\<close>

definition RegisterKind :: "string \<Rightarrow> (nat \<Rightarrow> cmsg any + 'r) \<Rightarrow> 'r Cluster \<Rightarrow> 'r Cluster" where
  "RegisterKind kind producer c =
     (if cl_isStarted c then c else c\<lparr>cl_kinds := cl_kinds c @ [newKind kind producer]\<rparr>)"

fun kind_loop :: "string \<Rightarrow> 'r kind list \<Rightarrow> bool" where
  "kind_loop name [] = False"
| "kind_loop name (k # ks) = (if k_name k = name then True else kind_loop name ks)"

definition HasKindLocal :: "'r Cluster \<Rightarrow> string \<Rightarrow> bool" where
  "HasKindLocal c name = kind_loop name (cl_kinds c)"

definition kindsToString :: "'r Cluster \<Rightarrow> string list" where
  "kindsToString c = map k_name (cl_kinds c)"

definition cl_Member :: "'r Cluster \<Rightarrow> Engine \<Rightarrow> Member" where
  "cl_Member c e = \<lparr>m_ID = cc_id (cl_config c), m_Host = e_address e, m_Region = cc_region (cl_config c),
     m_Kinds = map k_name (cl_kinds c)\<rparr>"

definition cl_Region :: "'r Cluster \<Rightarrow> string" where
  "cl_Region c = cc_region (cl_config c)"

definition cl_ID :: "'r Cluster \<Rightarrow> string" where
  "cl_ID c = cc_id (cl_config c)"

definition cl_Address :: "'r Cluster \<Rightarrow> string go" where
  "cl_Address c = go_bind (deref (cl_agentPID c)) (\<lambda>pid. Inr (Address pid))"

definition cl_PID :: "'r Cluster \<Rightarrow> PID option" where
  "cl_PID c = cl_agentPID c"

subsection \<open>Requests to the agent\<close>

definition ask_agent :: "ag_env \<Rightarrow> nat \<Rightarrow> Engine \<Rightarrow> cmsg \<Rightarrow> 'r Cluster \<Rightarrow> ((string + cmsg any) \<times> Engine) act" where
  "ask_agent env n e msg c =
     (case Request n e (av_obj env) (av_id env) (cl_agentPID c) (User msg) (cc_requestTimeout (cl_config c)) of
        None \<Rightarrow> None
      | Some (cs, resp, e') \<Rightarrow> map_option (\<lambda>r. (cs, Inr r)) (await_result (av_reply env) e' resp))"

definition cl_Activate :: "ag_env \<Rightarrow> nat \<Rightarrow> Engine \<Rightarrow> string \<Rightarrow> ActivationConfig \<Rightarrow> 'r Cluster \<Rightarrow> (PID option \<times> Engine) act" where
  "cl_Activate env n e kind config c =
     act_bind (ask_agent env n e (activate kind config) c) (\<lambda>(resp, e).
       act_ret (case resp of Inr (User (AnsPID pid)) \<Rightarrow> pid | _ \<Rightarrow> None, e))"

definition cl_Deactivate :: "nat \<Rightarrow> Engine \<Rightarrow> PID option \<Rightarrow> 'r Cluster \<Rightarrow> cmsg call list option" where
  "cl_Deactivate n e pid c = eng_Send n e (cl_agentPID c) (User (deactivate pid))"

definition cl_Members :: "ag_env \<Rightarrow> nat \<Rightarrow> Engine \<Rightarrow> 'r Cluster \<Rightarrow> (Member list \<times> Engine) act" where
  "cl_Members env n e c =
     act_bind (ask_agent env n e getMembers c) (\<lambda>(resp, e).
       act_ret (case resp of Inr (User (AnsMembers ms)) \<Rightarrow> ms | _ \<Rightarrow> [], e))"

definition cl_HasKind :: "ag_env \<Rightarrow> nat \<Rightarrow> Engine \<Rightarrow> string \<Rightarrow> 'r Cluster \<Rightarrow> (bool \<times> Engine) act" where
  "cl_HasKind env n e name c =
     act_bind (ask_agent env n e getKinds c) (\<lambda>(resp, e).
       act_ret (case resp of Inr (User (AnsKinds kinds)) \<Rightarrow> List.member kinds name | _ \<Rightarrow> False, e))"

definition GetActiveByKind :: "ag_env \<Rightarrow> nat \<Rightarrow> Engine \<Rightarrow> string \<Rightarrow> 'r Cluster \<Rightarrow> (PID option list \<times> Engine) act" where
  "GetActiveByKind env n e kind c =
     act_bind (ask_agent env n e (getActive [] kind) c) (\<lambda>(resp, e).
       act_ret (case resp of Inr (User (AnsPIDs res)) \<Rightarrow> if length res = 0 then [None] else res | _ \<Rightarrow> [None], e))"

definition GetActiveByID :: "ag_env \<Rightarrow> nat \<Rightarrow> Engine \<Rightarrow> string \<Rightarrow> 'r Cluster \<Rightarrow> (PID option \<times> Engine) act" where
  "GetActiveByID env n e i c =
     act_bind (ask_agent env n e (getActive i []) c) (\<lambda>(resp, e).
       act_ret (case resp of Inr (User (AnsPID pid)) \<Rightarrow> pid | _ \<Rightarrow> None, e))"

text \<open>\<^verbatim>\<open>Spawn\<close> starts a local actor whose kind is the given name and tells the members it learns from the agent.\<close>

definition cl_Spawn ::
    "ag_env \<Rightarrow> nat \<Rightarrow> Engine \<Rightarrow> nat \<Rightarrow> nat \<Rightarrow> (nat \<Rightarrow> cmsg any + 's) \<Rightarrow> string \<Rightarrow> (cmsg, 's, unit) OptFunc list \<Rightarrow> 'r Cluster \<Rightarrow>
     (PID \<times> Engine) act" where
  "cl_Spawn env n e obj rnd p i opts c =
     (case Spawn n e obj rnd p i opts of
        None \<Rightarrow> None
      | Some (Inl ex) \<Rightarrow> Some ([], Inl ex)
      | Some (Inr sp) \<Rightarrow>
          act_bind (Some (sp_calls sp, Inr (sp_engine sp))) (\<lambda>e.
          act_bind (cl_Members env n e c) (\<lambda>(members, e).
          act_bind (act_each (\<lambda>member _. act_do (eng_Send n e (Some (m_PID member)) (User (Activation (Some (sp_pid sp))))) ()) members ())
            (\<lambda>_. act_ret (sp_pid sp, e)))))"

subsection \<open>A started cluster can be reached\<close>

lemma spawn_service_ok:
  fixes p :: "nat \<Rightarrow> cmsg any + 's"
  assumes "es_ok e" "i \<noteq> []" "pid = NewPID (e_address e) (kind @ ''/'' @ i)"
  shows "\<exists>cs. spawn_service (Suc n) e obj rnd p kind i = Some (cs, Inr (pid, eng_step (Enter (proc_ref obj pid)) e))"
proof -
  let ?opt = "spawn_opts p kind [WithID i] (Itoa (int rnd)) :: (cmsg, 's, unit) Opts"
  have o: "0 \<le> o_InboxSize ?opt" "o_Kind ?opt = kind" "o_ID ?opt = i"
    using assms(2) by (simp_all add: spawn_opts_id DefaultOpts_def defaultInboxSize_def)
  obtain sp :: "(cmsg, 's, unit) spawned" where "Spawn (Suc n) e obj rnd p kind [WithID i] = Some (Inr sp)"
    "sp_pid sp = pid" "sp_engine sp = eng_step (Enter (proc_ref obj pid)) e"
    using Spawn_engine [OF assms(1) o(1) refl, of n obj] assms(3) by (auto simp: o pidSeparator_def simp del: eng_step.simps)
  then show ?thesis by (simp add: spawn_service_def)
qed

lemma route_entered:
  assumes "rg_ok (e_Registry e)" "rg_getByID (e_Registry e) (ID pid) = None" "Address pid = e_address e" "pr_PID proc = pid"
  shows "route False (eng_step (Enter proc) e) (Some pid) msg sender = [ProcSend proc (Some pid) msg sender]"
  using assms rg_find_add [OF assms(1), of proc "ID pid"] by (simp add: route_def rg_getByID_def)

lemma route_other:
  assumes "rg_ok (e_Registry e)" "ID (pr_PID proc) \<noteq> ID pid" "rg_getByID (e_Registry e) (ID pid) \<noteq> None" "Address pid = e_address e"
  shows "route False (eng_step (Enter proc) e) (Some pid) msg sender = route False e (Some pid) msg sender"
  using assms rg_find_add [OF assms(1), of proc "ID pid"] by (auto simp: route_def rg_getByID_def split: option.splits)

text \<open>A cluster that is started on an engine where its two IDs are free has its agent and its provider registered, and
  the PIDs that other nodes compute from this node's member record lead to them.\<close>

theorem started_cluster_reachable:
  assumes "eng_ok e" "cc_id (cl_config c) \<noteq> []"
    and "rg_getByID (e_Registry e) (''cluster/'' @ cc_id (cl_config c)) = None"
    and "rg_getByID (e_Registry e) (''provider/'' @ cc_id (cl_config c)) = None"
    and "a = m_PID (cl_Member c e)" "p = memberToProviderPID (cl_Member c e)"
  shows "\<exists>cs c' e'. cl_Start (Suc n) e obj rnd provider c = Some (cs, Inr (c', e')) \<and> cl_isStarted c' \<and>
    cl_agentPID c' = Some a \<and> cl_providerPID c' = Some p \<and> cl_Member c' e' = cl_Member c e \<and>
    e' = eng_step (Enter (proc_ref (obj + 1) p)) (eng_step (Enter (proc_ref obj a)) e) \<and>
    (\<forall>msg :: cmsg any. route False e' (Some a) msg None = [ProcSend (proc_ref obj a) (Some a) msg None] \<and>
       route False e' (Some p) msg None = [ProcSend (proc_ref (obj + 1) p) (Some p) msg None])"
proof -
  let ?e1 = "eng_step (Enter (proc_ref obj a)) e"
  let ?e2 = "eng_step (Enter (proc_ref (obj + 1) p)) ?e1"
  let ?c = "c\<lparr>cl_agentPID := Some a\<rparr>"
  have a: "a = NewPID (e_address e) (''cluster'' @ ''/'' @ cc_id (cl_config c))"
    and p: "p = NewPID (e_address ?e1) (''provider'' @ ''/'' @ cc_id (cl_config ?c))"
    using assms(5,6) by (simp_all add: m_PID_def memberToProviderPID_def cl_Member_def)
  have rg: "rg_ok (e_Registry e)" "es_ok e" using assms(1) by (simp_all add: eng_ok_def)
  have e1: "eng_ok ?e1" using eng_step_ok [OF assms(1), of "Enter (proc_ref obj a)"] by blast
  then have rg1: "rg_ok (e_Registry ?e1)" "es_ok ?e1" by (simp_all add: eng_ok_def del: eng_step.simps)
  have f: "rg_getByID (e_Registry ?e1) (ID a) = Some (proc_ref obj a)" "rg_getByID (e_Registry ?e1) (ID p) = None"
    using assms(3,4) rg_find_add [OF rg(1), of "proc_ref obj a"] by (auto simp: a p NewPID_def proc_ref_def)
  have ra: "route False ?e1 (Some a) msg None = [ProcSend (proc_ref obj a) (Some a) msg None]" for msg :: "cmsg any"
    using assms(3) by (intro route_entered rg(1)) (simp_all add: a NewPID_def proc_ref_def)
  have "route False ?e2 (Some a) msg None = [ProcSend (proc_ref obj a) (Some a) msg None]" for msg :: "cmsg any"
    using f(1) route_other [OF rg1(1), of "proc_ref (obj + 1) p" a msg None] ra [of msg]
    by (simp add: a p NewPID_def proc_ref_def del: eng_step.simps) (simp add: a NewPID_def)
  moreover have "route False ?e2 (Some p) msg None = [ProcSend (proc_ref (obj + 1) p) (Some p) msg None]" for msg :: "cmsg any"
    using f(2) by (intro route_entered rg1(1)) (simp_all add: p NewPID_def proc_ref_def)
  moreover obtain cs where "spawn_service (Suc n) e obj rnd (NewAgent c (fst (agent_maps (cl_kinds c)))) ''cluster'' (cc_id (cl_config c)) =
      Some (cs, Inr (a, ?e1))" using spawn_service_ok [OF rg(2) assms(2) a] by blast
  moreover obtain cs' where "spawn_service (Suc n) ?e1 (obj + 1) rnd (provider ?c) ''provider'' (cc_id (cl_config ?c)) =
      Some (cs', Inr (p, ?e2))" using spawn_service_ok [OF rg1(2) _ p] assms(2) by fastforce
  moreover have "cl_Member (?c\<lparr>cl_providerPID := Some p, cl_isStarted := True\<rparr>) ?e2 = cl_Member c e" by (simp add: cl_Member_def)
  ultimately show ?thesis by (auto simp: cl_Start_def act_ret_def simp del: eng_step.simps)
qed

definition fresh_cluster :: "unit Cluster" where
  "fresh_cluster = \<lparr>cl_config = cc_WithID ''C'' (cl_NewConfig 3 5), cl_agentPID = None, cl_providerPID = None, cl_isStarted = False,
     cl_kinds = []\<rparr>"

theorem started_cluster_reachable_witness:
  "\<exists>cs c' e'. cl_Start 1 node_engine 20 0 (\<lambda>_ _. Inr ()) fresh_cluster = Some (cs, Inr (c', e')) \<and> cl_isStarted c' \<and>
    cl_agentPID c' = Some (NewPID ''a:1'' ''cluster/C'') \<and> cl_providerPID c' = Some (NewPID ''a:1'' ''provider/C'')"
proof -
  let ?a = "NewPID ''a:1'' ''cluster/C''" and ?p = "NewPID ''a:1'' ''provider/C''"
  have i: "cc_id (cl_config fresh_cluster) = ''C''" by (simp add: fresh_cluster_def cc_WithID_def)
  have "eng_ok node_engine" using node_engine_fit by (simp add: eng_fit_def)
  moreover have "cc_id (cl_config fresh_cluster) \<noteq> []" by (simp add: i)
  moreover have "rg_getByID (e_Registry node_engine) (''cluster/'' @ cc_id (cl_config fresh_cluster)) = None"
    "rg_getByID (e_Registry node_engine) (''provider/'' @ cc_id (cl_config fresh_cluster)) = None"
    by (simp_all add: i node_engine_def rg_getByID_def gm_get_def)
  moreover have "?a = m_PID (cl_Member fresh_cluster node_engine)" "?p = memberToProviderPID (cl_Member fresh_cluster node_engine)"
    by (simp_all add: i m_PID_def memberToProviderPID_def cl_Member_def node_engine_def)
  ultimately show ?thesis
    using started_cluster_reachable [of node_engine fresh_cluster ?a ?p 0 20 0 "\<lambda>_ _. Inr ()"] unfolding One_nat_def by blast
qed

subsection \<open>A query and its answer\<close>

lemma Request_fresh:
  assumes "eng_ok e" "rpid = NewPID (e_address e) (''response'' @ pidSeparator @ Itoa (int rnd))"
    and "rg_getByID (e_Registry e) (ID rpid) = None" "proc = \<lparr>pr_kind = KResponse, pr_obj = obj, pr_PID = rpid\<rparr>"
  shows "\<exists>cs. Request (Suc n) e obj rnd pid msg timeout =
    Some (cs, \<lparr>rs_pid = rpid, rs_result = [], rs_timeout = timeout\<rparr>, eng_step (Enter proc) e)"
proof -
  let ?resp = "NewResponse e timeout rnd :: 'a Response"
  have resp: "?resp = \<lparr>rs_pid = rpid, rs_result = [], rs_timeout = timeout\<rparr>" using assms(2) by (simp add: NewResponse_def)
  have "fst (rg_add (e_Registry e) proc)" using assms(3,4) by (simp add: rg_add_def rg_getByID_def)
  then have "reg_add (Suc n) e proc = Some ([ProcStart proc :: 'a call], eng_step (Enter proc) e)"
    by (cases "rg_add (e_Registry e) proc") (simp add: reg_add_def)
  moreover have "es_ok (eng_step (Enter proc) e)" using eng_step_ok [OF assms(1), of "Enter proc"] by (simp add: eng_ok_def)
  ultimately show ?thesis using resp assms(4)
    by (simp add: Request_def Let_def SendWithSender_def send_ok del: send.simps eng_step.simps)
qed



text \<open>\<^verbatim>\<open>GetActiveByKind\<close> never returns an empty slice.\<close>

lemma active_by_kind_nonempty:
  assumes "eng_ok e"
  shows "\<exists>cs pids e'. GetActiveByKind env (Suc n) e kind c = Some (cs, Inr (pids, e')) \<and> pids \<noteq> []"
proof -
  obtain cs resp proc where "Request (Suc n) e (av_obj env) (av_id env) (cl_agentPID c) (User (getActive [] kind)) (cc_requestTimeout (cl_config c)) =
      Some (cs, resp, eng_step (Enter proc) e)" "rs_result resp = []"
    using Request_engine [OF assms] by blast
  then show ?thesis
    by (auto simp: GetActiveByKind_def ask_agent_def await_ok act_ret_def simp del: eng_step.simps
        split: sum.splits any.splits cmsg.splits option.splits if_splits)
qed

end
