(* ===== verification/Net.thy ===== *)
theory Net
  imports Engine
begin

text \<open>
  What the cluster's providers use of Go's standard library to take addresses apart: \<^verbatim>\<open>net.SplitHostPort\<close> and
  \<^verbatim>\<open>strconv.Atoi\<close>, and that they undo the concatenation and \<^verbatim>\<open>strconv.Itoa\<close>.
\<close>

subsection \<open>Addresses\<close>

fun index_byte :: "char \<Rightarrow> string \<Rightarrow> nat option" where
  "index_byte c [] = None"
| "index_byte c (x # xs) = (if x = c then Some 0 else map_option Suc (index_byte c xs))"

definition last_index_byte :: "char \<Rightarrow> string \<Rightarrow> nat option" where
  "last_index_byte c s = map_option (\<lambda>i. length s - 1 - i) (index_byte c (rev s))"

definition addr_error :: "string \<Rightarrow> string \<Rightarrow> string" where
  "addr_error addr why = ''address '' @ addr @ '': '' @ why"

text \<open>The host part of an address whose last colon is at \<open>i\<close>, with the positions from which no bracket may follow.\<close>

definition split_host :: "string \<Rightarrow> nat \<Rightarrow> string + string \<times> nat \<times> nat" where
  "split_host hostport i =
     (if hostport ! 0 = CHR ''['' then
        (case index_byte (CHR '']'') hostport of
           None \<Rightarrow> Inl (addr_error hostport ''missing ']' in address'')
         | Some e \<Rightarrow>
             if e + 1 = length hostport then Inl (addr_error hostport ''missing port in address'')
             else if e + 1 = i then Inr (take (e - 1) (drop 1 hostport), 1, e + 1)
             else if hostport ! (e + 1) = CHR '':'' then Inl (addr_error hostport ''too many colons in address'')
             else Inl (addr_error hostport ''missing port in address''))
      else if index_byte (CHR '':'') (take i hostport) \<noteq> None then Inl (addr_error hostport ''too many colons in address'')
      else Inr (take i hostport, 0, 0))"

definition SplitHostPort :: "string \<Rightarrow> string + string \<times> string" where
  "SplitHostPort hostport =
     (case last_index_byte (CHR '':'') hostport of
        None \<Rightarrow> Inl (addr_error hostport ''missing port in address'')
      | Some i \<Rightarrow>
          (case split_host hostport i of
             Inl err \<Rightarrow> Inl err
           | Inr (host, j, k) \<Rightarrow>
               if index_byte (CHR ''['') (drop j hostport) \<noteq> None then Inl (addr_error hostport ''unexpected '[' in address'')
               else if index_byte (CHR '']'') (drop k hostport) \<noteq> None then Inl (addr_error hostport ''unexpected ']' in address'')
               else Inr (host, drop (i + 1) hostport)))"

lemma index_byte_None [simp]: "index_byte c s = None \<longleftrightarrow> c \<notin> set s"
  by (induction s) auto

lemma index_byte_append: "c \<notin> set xs \<Longrightarrow> index_byte c (xs @ c # ys) = Some (length xs)"
  by (induction xs) auto

lemma last_index_byte_append: "c \<notin> set ys \<Longrightarrow> last_index_byte c (xs @ c # ys) = Some (length xs)"
  by (simp add: last_index_byte_def index_byte_append)

text \<open>A plain host and port come back.\<close>

lemma SplitHostPort_join:
  assumes "set host \<inter> set '':[]'' = {}" "set port \<inter> set '':[]'' = {}"
  shows "SplitHostPort (host @ '':'' @ port) = Inr (host, port)"
proof -
  have "(host @ '':'' @ port) ! 0 \<noteq> CHR ''[''" using assms(1) by (cases host) auto
  then show ?thesis using assms by (auto simp: SplitHostPort_def split_host_def last_index_byte_append)
qed

text \<open>An address in brackets loses them.\<close>

lemma SplitHostPort_brackets:
  assumes "set host \<inter> set ''[]'' = {}" "set port \<inter> set '':[]'' = {}"
  shows "SplitHostPort (''['' @ host @ '']:'' @ port) = Inr (host, port)"
proof -
  have "last_index_byte (CHR '':'') (''['' @ host @ '']:'' @ port) = Some (length host + 2)"
    using last_index_byte_append [of "CHR '':''" port "''['' @ host @ '']''"] assms(2) by simp
  moreover have "index_byte (CHR '']'') (''['' @ host @ '']:'' @ port) = Some (length host + 1)"
    using index_byte_append [of "CHR '']''" "''['' @ host" "'':'' @ port"] assms(1) by simp
  ultimately show ?thesis using assms by (auto simp: SplitHostPort_def split_host_def)
qed

subsection \<open>Numbers\<close>

datatype atoi_err = ErrSyntax | ErrRange

fun parse_digits :: "nat \<Rightarrow> string \<Rightarrow> nat \<times> atoi_err option" where
  "parse_digits n [] = (n, None)"
| "parse_digits n (c # cs) =
     (let d = of_char c :: nat in
      if d < 48 \<or> 57 < d then (0, Some ErrSyntax)
      else if 2 ^ 64 \<le> n * 10 + (d - 48) then (2 ^ 64 - 1, Some ErrRange)
      else parse_digits (n * 10 + (d - 48)) cs)"

text \<open>The value comes with the error: 0 for text that is no number, the nearest value for one out of range.\<close>

definition Atoi :: "string \<Rightarrow> int \<times> atoi_err option" where
  "Atoi s =
     (let neg = (s \<noteq> [] \<and> hd s = CHR ''-'');
          ds = (if s \<noteq> [] \<and> (hd s = CHR ''-'' \<or> hd s = CHR ''+'') then tl s else s) in
      if ds = [] then (0, Some ErrSyntax)
      else case parse_digits 0 ds of
        (_, Some ErrSyntax) \<Rightarrow> (0, Some ErrSyntax)
      | (un, _) \<Rightarrow>
          if \<not> neg \<and> 2 ^ 63 \<le> un then (2 ^ 63 - 1, Some ErrRange)
          else if neg \<and> 2 ^ 63 < un then (- (2 ^ 63), Some ErrRange)
          else (if neg then - int un else int un, None))"

fun atoi_error :: "atoi_err \<Rightarrow> string" where
  "atoi_error ErrSyntax = ''invalid syntax''"
| "atoi_error ErrRange = ''value out of range''"

declare nat_digits.simps [simp del]

lemma of_digit [simp]: "d < 10 \<Longrightarrow> of_char (char_of (48 + d) :: char) = (48 + d :: nat)"
  by (simp add: of_char_of)

lemma parse_nat_digits: "k < 2 ^ 64 \<Longrightarrow> parse_digits 0 (nat_digits k @ cs) = parse_digits k cs"
proof (induction k arbitrary: cs rule: nat_digits.induct)
  case (1 k)
  show ?case
  proof (cases "k < 10")
    case True
    then show ?thesis using "1.prems" by (subst nat_digits.simps) (simp add: Let_def)
  next
    case False
    have "k div 10 < 2 ^ 64" "\<not> 9 < k mod 10" using "1.prems" by simp_all
    then show ?thesis using False "1.prems" "1.IH" by (subst nat_digits.simps) (simp add: Let_def)
  qed
qed

lemma nat_digits_chars: "set (nat_digits k) \<subseteq> {c. 48 \<le> (of_char c :: nat) \<and> (of_char c :: nat) \<le> 57}"
proof (induction k rule: nat_digits.induct)
  case (1 k)
  show ?case
  proof (cases "k < 10")
    case True
    then show ?thesis by (subst nat_digits.simps) simp
  next
    case False
    then show ?thesis using "1.IH" by (subst nat_digits.simps) simp
  qed
qed

lemma nat_digits_nonempty [simp]: "nat_digits k \<noteq> []"
  by (subst nat_digits.simps) simp

lemma Atoi_Itoa:
  assumes "0 \<le> i" "i < 2 ^ 63"
  shows "Atoi (Itoa i) = (i, None)"
proof -
  have "hd (nat_digits (nat i)) \<in> set (nat_digits (nat i))" by simp
  then have "hd (nat_digits (nat i)) \<noteq> CHR ''-''" "hd (nat_digits (nat i)) \<noteq> CHR ''+''"
    using nat_digits_chars [of "nat i"] by force+
  moreover have "nat i < 2 ^ 63" using assms by (simp add: nat_less_iff)
  moreover from this have "parse_digits 0 (nat_digits (nat i)) = (nat i, None)" using parse_nat_digits [of "nat i" "[]"] by simp
  ultimately show ?thesis using assms by (simp add: Atoi_def Itoa_def)
qed

lemma Itoa_plain: "0 \<le> i \<Longrightarrow> set (Itoa i) \<inter> set '':[]'' = {}"
  using nat_digits_chars [of "nat i"] by (auto simp: Itoa_def)

end
