(* ===== verification/SelfManaged.thy ===== *)
theory SelfManaged
  imports Cluster Net
begin

text \<open>
  The provider that keeps the member list by itself (\<^verbatim>\<open>src/cluster/selfmanaged.go\<close>): handshakes with bootstrap and
  discovered members, pings, and members that become unreachable. The engine is an argument; the
  zeroconf library is the part of the environment that its calls return.
\<close>

subsection \<open>Configuration and state\<close>

definition memberPingInterval :: int where
  "memberPingInterval = 1000000000 * 2"

definition serviceName :: string where
  "serviceName = ''_actor.hollywood_''"

definition domain :: string where
  "domain = ''local.''"

record MemberAddr =
  ma_ListenAddr :: string
  ma_ID :: string

record SelfManagedConfig =
  smc_bootstrapMembers :: "MemberAddr list"

definition NewSelfManagedConfig :: SelfManagedConfig where
  "NewSelfManagedConfig = \<lparr>smc_bootstrapMembers = []\<rparr>"

definition WithBootstrapMember :: "MemberAddr \<Rightarrow> SelfManagedConfig \<Rightarrow> SelfManagedConfig" where
  "WithBootstrapMember member c = c\<lparr>smc_bootstrapMembers := smc_bootstrapMembers c @ [member]\<rparr>"

text \<open>\<open>None\<close> in \<open>sf_memberPinger\<close> is the zero value, whose channel is nil. \<open>sf_cancel\<close> is nil, or tells whether the
  context is cancelled. The resolver and the announcer are handles.\<close>

record 'r SelfManaged =
  sf_config :: SelfManagedConfig
  sf_cluster :: "'r Cluster"
  sf_members :: MemberSet
  sf_memberPinger :: "cmsg SendRepeater option"
  sf_eventSubPID :: "pidptr option"
  sf_pid :: "PID option"
  sf_membersAlive :: MemberSet
  sf_resolver :: "nat option"
  sf_announcer :: "nat option"
  sf_cancel :: "bool option"

definition NewSelfManagedProvider :: "SelfManagedConfig \<Rightarrow> 'r Cluster \<Rightarrow> nat \<Rightarrow> cmsg any + 'r SelfManaged" where
  "NewSelfManagedProvider config c = (\<lambda>_. Inr
     \<lparr>sf_config = config, sf_cluster = c, sf_members = NewMemberSet [], sf_memberPinger = None, sf_eventSubPID = None,
      sf_pid = None, sf_membersAlive = NewMemberSet [], sf_resolver = None, sf_announcer = None, sf_cancel = None\<rparr>)"

text \<open>The iteration orders, the identities of the objects a step creates, and what the zeroconf library answers:
  \<^verbatim>\<open>NewResolver\<close>, \<^verbatim>\<open>RegisterProxy\<close> (instance, service, domain, port, host, addresses, texts), \<^verbatim>\<open>Browse\<close> and \<^verbatim>\<open>Shutdown\<close>.\<close>

record sf_env =
  sv_order :: "string \<Rightarrow> (string, Member) gomap \<Rightarrow> string list"
  sv_obj :: nat
  sv_id :: nat
  sv_ptr :: nat
  sv_NewResolver :: "string + nat"
  sv_RegisterProxy :: "string \<Rightarrow> string \<Rightarrow> string \<Rightarrow> int \<Rightarrow> string \<Rightarrow> string list \<Rightarrow> string list \<Rightarrow> string + nat"
  sv_Browse :: "string \<Rightarrow> string \<Rightarrow> string option"
  sv_Shutdown :: "nat option \<Rightarrow> unit go"

subsection \<open>Members\<close>

definition sendMembersToAgent :: "sf_env \<Rightarrow> nat \<Rightarrow> Engine \<Rightarrow> 'r SelfManaged \<Rightarrow> cmsg call list option" where
  "sendMembersToAgent env n e s =
     eng_Send n e (cl_PID (sf_cluster s))
       (User (Members (ms_Slice (sf_members s) (sv_order env ''agent'' (ms_members (sf_members s))))))"

definition add_member :: "Member option \<Rightarrow> MemberSet \<Rightarrow> MemberSet go" where
  "add_member member ms = go_bind (deref member) (\<lambda>m. Inr (if \<not> ms_Contains ms m then ms_Add ms m else ms))"

definition addMembers :: "sf_env \<Rightarrow> nat \<Rightarrow> Engine \<Rightarrow> Member option list \<Rightarrow> 'r SelfManaged \<Rightarrow> 'r SelfManaged act" where
  "addMembers env n e members s =
     act_bind (act_go (foldl (\<lambda>ms member. go_bind ms (add_member member)) (Inr (sf_members s)) members)) (\<lambda>ms.
       let s = s\<lparr>sf_members := ms\<rparr> in act_do (sendMembersToAgent env n e s) s)"

definition removeMember :: "sf_env \<Rightarrow> nat \<Rightarrow> Engine \<Rightarrow> Member option \<Rightarrow> 'r SelfManaged \<Rightarrow> 'r SelfManaged act" where
  "removeMember env n e member s =
     act_bind (act_go (deref member)) (\<lambda>m.
       let s = (if ms_Contains (sf_members s) m then s\<lparr>sf_members := ms_Remove (sf_members s) m\<rparr> else s)
       in act_do (sendMembersToAgent env n e s) s)"

definition handleMemberPing :: "sf_env \<Rightarrow> nat \<Rightarrow> Engine \<Rightarrow> (cmsg, 's) Context \<Rightarrow> 'r SelfManaged \<Rightarrow> unit act" where
  "handleMemberPing env n e c s =
     ms_ForEach (sf_members s) (sv_order env ''ping'' (ms_members (sf_members s)))
       (\<lambda>member r. (True, act_bind r (\<lambda>_. act_bind (act_go (deref (cl_agentPID (sf_cluster s)))) (\<lambda>agentPID.
          if m_Host member \<noteq> Address agentPID
          then act_do (c_Send n e c (Some (memberToProviderPID member)) (User (Ping (Some (c_PID c))))) ()
          else act_ret ())))) (act_ret ())"

subsection \<open>Starting\<close>

definition initAutoDiscovery :: "sf_env \<Rightarrow> 'r SelfManaged \<Rightarrow> 'r SelfManaged go" where
  "initAutoDiscovery env s =
     (case sv_NewResolver env of
        Inl err \<Rightarrow> Inl (LogFatal err)
      | Inr resolver \<Rightarrow>
          go_bind (deref (cl_agentPID (sf_cluster s))) (\<lambda>agentPID.
            case SplitHostPort (Address agentPID) of
              Inl err \<Rightarrow> Inl (LogFatal err)
            | Inr (host, portstr) \<Rightarrow>
                (case Atoi portstr of
                   (_, Some err) \<Rightarrow> Inl (LogFatal (atoi_error err))
                 | (port, None) \<Rightarrow>
                     (case sv_RegisterProxy env (cl_ID (sf_cluster s)) serviceName domain port (''member_'' @ cl_ID (sf_cluster s))
                             [host] [''txtv=0'', ''lo=1'', ''la=2''] of
                        Inl err \<Rightarrow> Inl (LogFatal err)
                      | Inr server \<Rightarrow> Inr (s\<lparr>sf_resolver := Some resolver, sf_announcer := Some server\<rparr>)))))"

text \<open>The goroutine that reads the discovered services does for each what \<open>discovered\<close> does. An IP address is its
  printed form.\<close>

record ServiceEntry =
  se_Instance :: string
  se_AddrIPv4 :: "string list"
  se_Port :: int

definition discovered :: "nat \<Rightarrow> Engine \<Rightarrow> ServiceEntry \<Rightarrow> 'r SelfManaged \<Rightarrow> unit act" where
  "discovered n e entry s =
     (if se_Instance entry \<noteq> cl_ID (sf_cluster s) then
        act_bind (act_go (go_index (se_AddrIPv4 entry) 0)) (\<lambda>ip.
          let host = ip @ '':'' @ Itoa (se_Port entry);
              hs = Handshake (Some (cl_Member (sf_cluster s) e));
              memberPID = NewPID host (''provider/'' @ se_Instance entry)
          in act_bind (act_go (deref (cl_agentPID (sf_cluster s)))) (\<lambda>agentPID.
               act_do (SendWithSender n e (Some memberPID) (User hs)
                 (Some (NewPID (Address agentPID) (''provider/'' @ cl_ID (sf_cluster s))))) ()))
      else act_ret ())"

definition startAutoDiscovery :: "sf_env \<Rightarrow> 'r SelfManaged \<Rightarrow> unit go" where
  "startAutoDiscovery env s =
     (case sv_Browse env serviceName domain of Some err \<Rightarrow> Inl (PanicErr err) | None \<Rightarrow> Inr ())"

definition spawn_events :: "sf_env \<Rightarrow> nat \<Rightarrow> Engine \<Rightarrow> (cmsg, 's) Context \<Rightarrow> (PID \<times> (cmsg, 's) Context \<times> Engine) act" where
  "spawn_events env n e c =
     (case (SpawnChildFunc n e (sv_obj env) (sv_id env) () ''event'' [] c :: ((cmsg, unit, unit) spawned \<times> (cmsg, 's) Context) go option) of
        None \<Rightarrow> None
      | Some (Inl ex) \<Rightarrow> Some ([], Inl ex)
      | Some (Inr (sp, c')) \<Rightarrow> Some (sp_calls sp, Inr (sp_pid sp, c', sp_engine sp)))"

definition handshakes :: "nat \<Rightarrow> Engine \<Rightarrow> (cmsg, 's) Context \<Rightarrow> 'r SelfManaged \<Rightarrow> unit act" where
  "handshakes n e c s =
     act_each (\<lambda>member _.
       let memberPID = NewPID (ma_ListenAddr member) (''provider/'' @ ma_ID member)
       in act_do (SendWithSender n e (Some memberPID) (User (Handshake (Some (cl_Member (sf_cluster s) e)))) (Some (c_PID c))) ())
       (smc_bootstrapMembers (sf_config s)) ()"

definition sf_start ::
    "sf_env \<Rightarrow> nat \<Rightarrow> Engine \<Rightarrow> (cmsg, 's) Context \<Rightarrow> 'r SelfManaged \<Rightarrow> ('r SelfManaged \<times> (cmsg, 's) Context \<times> Engine) act" where
  "sf_start env n e c s =
     act_bind (spawn_events env n e c) (\<lambda>(pid, c, e).
       let s = s\<lparr>sf_eventSubPID := Some (PidPtr (sv_ptr env) pid)\<rparr> in
       act_bind (act_do (Subscribe n e (sf_eventSubPID s)) ()) (\<lambda>_.
       act_bind (handshakes n e c s) (\<lambda>_.
       act_bind (act_go (initAutoDiscovery env s)) (\<lambda>s.
       act_bind (act_go (startAutoDiscovery env s)) (\<lambda>_.
       act_ret (s, c, e))))))"

subsection \<open>Messages\<close>

definition pinger_Stop :: "'r SelfManaged \<Rightarrow> 'r SelfManaged go" where
  "pinger_Stop s = (case sf_memberPinger s of
     None \<Rightarrow> Inl CloseNil | Some sr \<Rightarrow> go_bind (sr_Stop sr) (\<lambda>sr. Inr (s\<lparr>sf_memberPinger := Some sr\<rparr>)))"

definition sf_started ::
    "sf_env \<Rightarrow> nat \<Rightarrow> Engine \<Rightarrow> (cmsg, 's) Context \<Rightarrow> 'r SelfManaged \<Rightarrow> ('r SelfManaged \<times> (cmsg, 's) Context \<times> Engine) act" where
  "sf_started env n e c s =
     (let s = s\<lparr>sf_cancel := Some False, sf_pid := Some (c_PID c),
                sf_members := ms_Add (sf_members s) (cl_Member (sf_cluster s) e)\<rparr> in
      act_bind (act_do (sendMembersToAgent env n e s) ()) (\<lambda>_.
      act_bind (act_go (c_SendRepeat c (Some (c_PID c)) (User memberPing) memberPingInterval)) (\<lambda>sr.
      sf_start env n e c (s\<lparr>sf_memberPinger := Some sr\<rparr>))))"

definition sf_stopped :: "sf_env \<Rightarrow> nat \<Rightarrow> Engine \<Rightarrow> 'r SelfManaged \<Rightarrow> 'r SelfManaged act" where
  "sf_stopped env n e s =
     act_bind (act_go (pinger_Stop s)) (\<lambda>s.
     act_bind (act_do (Unsubscribe n e (sf_eventSubPID s)) ()) (\<lambda>_.
     act_bind (act_go (sv_Shutdown env (sf_announcer s))) (\<lambda>_.
     act_bind (act_go (deref (sf_cancel s))) (\<lambda>_.
     act_ret (s\<lparr>sf_cancel := Some True\<rparr>)))))"

definition sf_Receive ::
    "sf_env \<Rightarrow> nat \<Rightarrow> Engine \<Rightarrow> (cmsg, 's) Context \<Rightarrow> 'r SelfManaged \<Rightarrow> ('r SelfManaged \<times> (cmsg, 's) Context \<times> Engine) act" where
  "sf_Receive env n e c s =
     (case c_Message c of
        Started \<Rightarrow> sf_started env n e c s
      | Stopped \<Rightarrow> act_bind (sf_stopped env n e s) (\<lambda>s. act_ret (s, c, e))
      | User (Handshake member) \<Rightarrow>
          act_bind (addMembers env n e [member] s) (\<lambda>s.
            let members = ms_Slice (sf_members s) (sv_order env ''reply'' (ms_members (sf_members s)))
            in act_do (eng_Send n e (c_Sender c) (User (Members members))) (s, c, e))
      | User (Members members) \<Rightarrow>
          act_bind (addMembers env n e (map Some members) s) (\<lambda>s. act_ret (s, c, e))
      | User memberPing \<Rightarrow> act_bind (handleMemberPing env n e c s) (\<lambda>_. act_ret (s, c, e))
      | User (memberLeave addr) \<Rightarrow>
          (let member = ms_GetByHost (sf_members s) (sv_order env ''host'' (ms_members (sf_members s))) addr
           in act_bind (removeMember env n e member s) (\<lambda>s. act_ret (s, c, e)))
      | _ \<Rightarrow> act_ret (s, c, e))"

text \<open>The child actor that listens to the events; \<open>s\<close> is the provider it was made by.\<close>

definition handleEventStream :: "nat \<Rightarrow> Engine \<Rightarrow> (cmsg, 's) Context \<Rightarrow> 'r SelfManaged \<Rightarrow> cmsg call list option" where
  "handleEventStream n e c s =
     (case c_Message c of
        RemoteUnreachableEvent addr \<Rightarrow> c_Send n e c (sf_pid s) (User (memberLeave addr))
      | _ \<Rightarrow> Some [])"

subsection \<open>What the agent is told\<close>

text \<open>The member lists among the calls that go to the PID \<open>ap\<close>.\<close>

fun told_call :: "PID \<Rightarrow> cmsg call \<Rightarrow> Member list option" where
  "told_call ap (ProcSend proc pid (User (Members ms)) sender) = (if pid = Some ap then Some ms else None)"
| "told_call ap _ = None"

definition told :: "PID \<Rightarrow> cmsg call list \<Rightarrow> Member list list" where
  "told ap cs = List.map_filter (told_call ap) cs"

fun is_members :: "cmsg any \<Rightarrow> bool" where
  "is_members (User (Members _)) = True"
| "is_members _ = False"

lemma told_simps [simp]: "told ap [] = []" "told ap (xs @ ys) = told ap xs @ told ap ys"
  by (simp_all add: told_def map_filter_simps map_filter_append)

lemma told_Cons: "told ap (c # cs) = (case told_call ap c of None \<Rightarrow> told ap cs | Some ms \<Rightarrow> ms # told ap cs)"
  by (simp add: told_def map_filter_simps split: option.split)

lemma told_send: "\<not> is_members msg \<Longrightarrow> told_call ap (ProcSend proc pid msg sender) = None"
  by (cases "(ap, ProcSend proc pid msg sender)" rule: told_call.cases) simp_all

lemma told_stream [simp]: "\<not> is_members ev \<Longrightarrow> told ap (to_stream e ev) = []"
  by (simp add: to_stream_def told_Cons told_send split: option.splits)

lemma told_route [simp]: "\<not> is_members msg \<Longrightarrow> told ap (route False e pid msg sender) = []"
  by (simp add: route_def told_Cons told_send split: option.splits)

lemma told_members: "set (told ap (route False e pid (User (Members ms)) sender)) \<subseteq> {ms}"
  by (auto simp: route_def told_Cons split: option.splits)

text \<open>What an action does if it returns, in terms of the lists the agent is told; it always ends.\<close>

definition act_spec :: "PID \<Rightarrow> 'a act \<Rightarrow> (Member list list \<Rightarrow> 'a \<Rightarrow> bool) \<Rightarrow> bool" where
  "act_spec ap m Q \<longleftrightarrow> (\<exists>cs r. m = Some (cs, r) \<and> (\<forall>x. r = Inr x \<longrightarrow> Q (told ap cs) x))"

lemma act_spec_bind:
  assumes "act_spec ap m Q" "\<And>ts x. Q ts x \<Longrightarrow> act_spec ap (f x) (\<lambda>ts'. R (ts @ ts'))"
  shows "act_spec ap (act_bind m f) R"
proof -
  obtain cs r where m: "m = Some (cs, r)" "\<And>x. r = Inr x \<Longrightarrow> Q (told ap cs) x" using assms(1) by (auto simp: act_spec_def)
  show ?thesis
  proof (cases r)
    case (Inr x)
    then show ?thesis using assms(2) [OF m(2) [OF Inr]] m(1) by (auto simp: act_spec_def)
  qed (simp add: act_spec_def m(1))
qed

lemma act_spec_simps [simp]:
  "act_spec ap (act_ret x) Q \<longleftrightarrow> Q [] x" "act_spec ap (act_do (Some cs) x) Q \<longleftrightarrow> Q (told ap cs) x"
  "act_spec ap (Some (cs, Inr x)) Q \<longleftrightarrow> Q (told ap cs) x" "act_spec ap (Some (cs, Inl p)) Q"
  "act_spec ap (act_go g) Q \<longleftrightarrow> (\<forall>x. g = Inr x \<longrightarrow> Q [] x)"
  by (simp_all add: act_spec_def act_ret_def act_go_def)

lemma act_spec_mono: "act_spec ap m Q \<Longrightarrow> (\<And>ts x. Q ts x \<Longrightarrow> R ts x) \<Longrightarrow> act_spec ap m R"
  by (auto simp: act_spec_def)

abbreviation quiet :: "PID \<Rightarrow> 'a act \<Rightarrow> bool" where
  "quiet ap m \<equiv> act_spec ap m (\<lambda>ts _. ts = [])"

lemma quiet_bind: "quiet ap m \<Longrightarrow> (\<And>x. quiet ap (f x)) \<Longrightarrow> quiet ap (act_bind m f)"
  by (rule act_spec_bind [where Q = "\<lambda>ts _. ts = []"]) simp_all

lemma quiet_each: "(\<And>x s. quiet ap (f x s)) \<Longrightarrow> quiet ap (act_each f xs s)"
  by (induction xs arbitrary: s) (auto intro: quiet_bind)

lemma quiet_each_member: "quiet ap r \<Longrightarrow> (\<And>m. quiet ap (f m)) \<Longrightarrow> quiet ap (each_member (\<lambda>m r. (True, act_bind r (\<lambda>_. f m))) ms r)"
proof (induction ms arbitrary: r)
  case (Cons m ms)
  have "quiet ap (act_bind r (\<lambda>_. f m))" using Cons.prems by (rule quiet_bind)
  then show ?case using Cons.IH Cons.prems(2) by simp
qed simp

lemma handleMemberPing_quiet: "es_ok e \<Longrightarrow> quiet ap (handleMemberPing env (Suc n) e c s)"
  unfolding handleMemberPing_def ms_ForEach_def
  by (intro quiet_each_member quiet_bind) (auto simp: c_Send_def SendWithSender_def send_ok simp del: send.simps)

lemma handshakes_quiet: "es_ok e \<Longrightarrow> quiet ap (handshakes (Suc n) e c s)"
  unfolding handshakes_def
  by (intro quiet_each) (auto simp: Let_def SendWithSender_def send_ok simp del: send.simps)

subsection \<open>One message\<close>

text \<open>A provider whose agent is registered on a well-formed engine.\<close>

definition sv_ok :: "sf_env \<Rightarrow> bool" where
  "sv_ok env \<longleftrightarrow> (\<forall>t m. gm_ok m \<longrightarrow> gm_order m (sv_order env t m))"

definition sf_ok :: "PID \<Rightarrow> 'r SelfManaged \<Rightarrow> Engine \<Rightarrow> bool" where
  "sf_ok ap s e \<longleftrightarrow> eng_ok e \<and> ms_ok (sf_members s) \<and> cl_agentPID (sf_cluster s) = Some ap \<and>
     Address ap = e_address e \<and> rg_getByID (e_Registry e) (ID ap) \<noteq> None"

lemma sf_ok_enter: "sf_ok ap s e \<Longrightarrow> sf_ok ap s (eng_step (Enter p) e)"
  using eng_step_ok [of e "Enter p"] rg_find_step(2) [of "e_Registry e" "ID ap" p]
  by (auto simp: sf_ok_def eng_ok_def)

definition in_step :: "Member list list \<Rightarrow> MemberSet \<Rightarrow> MemberSet \<Rightarrow> bool" where
  "in_step ts ms ms' \<longleftrightarrow> (if ts = [] then ms' = ms else m_ID ` set (last ts) = gm_keys (ms_members ms'))"

lemma slice_ids:
  assumes "ms_ok ms" "sv_ok env"
  shows "m_ID ` set (ms_Slice ms (sv_order env t (ms_members ms))) = gm_keys (ms_members ms)"
  using set_ms_Slice [OF assms(1), of "sv_order env t (ms_members ms)"] assms ms_keys [OF assms(1)]
  by (simp add: sv_ok_def ms_ok_def)

lemma sendMembers_told:
  assumes "sf_ok ap s e" "sv_ok env"
  shows "\<exists>cs ms. sendMembersToAgent env (Suc n) e s = Some cs \<and> told ap cs = [ms] \<and> m_ID ` set ms = gm_keys (ms_members (sf_members s))"
proof -
  obtain proc where "route False e (Some ap) msg None = [ProcSend proc (Some ap) msg None]" for msg :: "cmsg any"
    using assms(1) by (auto simp: sf_ok_def route_def rg_getByID_def)
  moreover have "es_ok e" "ms_ok (sf_members s)" using assms(1) by (simp_all add: sf_ok_def eng_ok_def)
  ultimately show ?thesis using assms slice_ids [of "sf_members s" env "''agent''"]
    by (simp add: sendMembersToAgent_def eng_Send_def send_ok cl_PID_def sf_ok_def told_Cons del: send.simps)
qed

lemma sendMembers_spec:
  assumes "sf_ok ap s e" "sv_ok env"
  shows "act_spec ap (act_do (sendMembersToAgent env (Suc n) e s) x) (\<lambda>ts y. y = x \<and> ts \<noteq> [] \<and> in_step ts ms (sf_members s))"
  using sendMembers_told [OF assms, of n] by (auto simp: in_step_def)

lemma add_member_simps [simp]:
  "add_member None ms = Inl NilDeref" "add_member (Some m) ms = Inr (if ms_Contains ms m then ms else ms_Add ms m)"
  by (simp_all add: add_member_def)

lemma foldl_add_Inl [simp]: "foldl (\<lambda>ms member. go_bind ms (add_member member)) (Inl p) xs = Inl p"
  by (induction xs) simp_all

lemma add_members_ok:
  assumes "ms_ok ms" "foldl (\<lambda>ms member. go_bind ms (add_member member)) (Inr ms) members = Inr ms'"
  shows "ms_ok ms'"
  using assms
proof (induction members arbitrary: ms)
  case (Cons m members)
  show ?case using Cons.prems Cons.IH [of ms] Cons.IH [of "ms_Add ms (the m)"] by (cases m) (auto split: if_splits)
qed simp

lemma addMembers_spec:
  assumes "sf_ok ap s e" "sv_ok env"
  shows "act_spec ap (addMembers env (Suc n) e members s)
    (\<lambda>ts s'. sf_ok ap s' e \<and> ts \<noteq> [] \<and> in_step ts (sf_members s) (sf_members s'))"
  unfolding addMembers_def Let_def
proof (rule act_spec_bind [where Q = "\<lambda>ts ms. ts = [] \<and> ms_ok ms"])
  show "act_spec ap (act_go (foldl (\<lambda>ms member. go_bind ms (add_member member)) (Inr (sf_members s)) members)) (\<lambda>ts ms. ts = [] \<and> ms_ok ms)"
    using add_members_ok assms(1) by (auto simp: sf_ok_def)
  fix ts :: "Member list list" and ms assume "ts = [] \<and> ms_ok ms"
  then have "ts = []" "sf_ok ap (s\<lparr>sf_members := ms\<rparr>) e" using assms(1) by (simp_all add: sf_ok_def)
  then show "act_spec ap (act_do (sendMembersToAgent env (Suc n) e (s\<lparr>sf_members := ms\<rparr>)) (s\<lparr>sf_members := ms\<rparr>))
      (\<lambda>ts' s'. sf_ok ap s' e \<and> ts @ ts' \<noteq> [] \<and> in_step (ts @ ts') (sf_members s) (sf_members s'))"
    using sendMembers_spec [OF _ assms(2), of ap "s\<lparr>sf_members := ms\<rparr>" e n "s\<lparr>sf_members := ms\<rparr>" "sf_members s"]
    by (auto elim!: act_spec_mono)
qed

lemma removeMember_spec:
  assumes "sf_ok ap s e" "sv_ok env"
  shows "act_spec ap (removeMember env (Suc n) e member s)
    (\<lambda>ts s'. sf_ok ap s' e \<and> ts \<noteq> [] \<and> in_step ts (sf_members s) (sf_members s'))"
proof (cases member)
  case (Some m)
  let ?s = "if ms_Contains (sf_members s) m then s\<lparr>sf_members := ms_Remove (sf_members s) m\<rparr> else s"
  have "sf_ok ap ?s e" using assms(1) by (simp add: sf_ok_def)
  then show ?thesis using sendMembers_spec [OF _ assms(2), of ap ?s e n ?s "sf_members s"]
    by (auto simp: removeMember_def Some Let_def simp del: if_split elim!: act_spec_mono)
qed (simp add: removeMember_def)

lemma spawn_events_spec:
  fixes c :: "(cmsg, 's) Context"
  assumes "es_ok e"
  shows "act_spec ap (spawn_events env (Suc n) e c) (\<lambda>ts (pid, c', e'). ts = [] \<and> (\<exists>p. e' = eng_step (Enter p) e))"
proof -
  obtain sp :: "(cmsg, unit, unit) spawned" and c' where
    "SpawnChild (Suc n) e (sv_obj env) (sv_id env) (newFuncReceiver ()) ''event'' [] c = Some (Inr (sp, c'))" "\<exists>p. sp_engine sp = eng_step (Enter p) e"
    "told ap (sp_calls sp) = []"
    using SpawnChild_ok [OF assms refl, of n "sv_obj env" "sv_id env" "newFuncReceiver ()" "''event''" c, where 'e = unit]
    by (fastforce simp: told_Cons simp del: eng_step.simps split: if_splits)
  then show ?thesis by (simp add: spawn_events_def SpawnChildFunc_def del: eng_step.simps)
qed

lemma sf_start_spec:
  fixes c :: "(cmsg, 's) Context"
  assumes "sf_ok ap s e"
  shows "act_spec ap (sf_start env (Suc n) e c s) (\<lambda>ts (s', c', e'). ts = [] \<and> sf_ok ap s' e' \<and> sf_members s' = sf_members s)"
  unfolding sf_start_def
proof (rule act_spec_bind [OF spawn_events_spec])
  show "es_ok e" using assms by (simp add: sf_ok_def eng_ok_def)
  fix ts :: "Member list list" and x :: "PID \<times> (cmsg, 's) Context \<times> Engine"
  assume "case x of (pid, c', e') \<Rightarrow> ts = [] \<and> (\<exists>p. e' = eng_step (Enter p) e)"
  then obtain pid c' p where x: "ts = []" "x = (pid, c', eng_step (Enter p) e)" by (cases x) (auto simp del: eng_step.simps)
  let ?e = "eng_step (Enter p) e" and ?s = "s\<lparr>sf_eventSubPID := Some (PidPtr (sv_ptr env) pid)\<rparr>"
  have ok: "sf_ok ap ?s ?e" using sf_ok_enter [OF assms, of p] by (simp add: sf_ok_def del: eng_step.simps)
  then have es: "es_ok ?e" by (simp add: sf_ok_def eng_ok_def del: eng_step.simps)
  have i: "sf_ok ap s' ?e \<and> sf_members s' = sf_members s" if "initAutoDiscovery env ?s = Inr s'" for s'
    using that ok by (auto simp: initAutoDiscovery_def go_bind_eq_Inr sf_ok_def split: sum.splits prod.splits option.splits)
  have "act_spec ap (act_bind (act_do (Subscribe (Suc n) ?e (sf_eventSubPID ?s)) ()) (\<lambda>_.
      act_bind (handshakes (Suc n) ?e c' ?s) (\<lambda>_. act_bind (act_go (initAutoDiscovery env ?s)) (\<lambda>s.
      act_bind (act_go (startAutoDiscovery env s)) (\<lambda>_. act_ret (s, c', ?e))))))
    (\<lambda>ts (s', c', e'). ts = [] \<and> sf_ok ap s' e' \<and> sf_members s' = sf_members s)"
    by (intro act_spec_bind [where Q = "\<lambda>ts _. ts = []"] act_spec_bind [where Q = "\<lambda>ts s'. ts = [] \<and> sf_ok ap s' ?e \<and> sf_members s' = sf_members s"])
      (use i handshakes_quiet [OF es] in \<open>auto simp: Subscribe_def eng_Send_def send_ok [OF es] simp del: send.simps eng_step.simps\<close>)
  then show "act_spec ap (case x of (pid, c, e) \<Rightarrow> let s = s\<lparr>sf_eventSubPID := Some (PidPtr (sv_ptr env) pid)\<rparr> in
      act_bind (act_do (Subscribe (Suc n) e (sf_eventSubPID s)) ()) (\<lambda>_. act_bind (handshakes (Suc n) e c s) (\<lambda>_.
      act_bind (act_go (initAutoDiscovery env s)) (\<lambda>s. act_bind (act_go (startAutoDiscovery env s)) (\<lambda>_. act_ret (s, c, e))))))
    (\<lambda>ts' (s', c', e'). ts @ ts' = [] \<and> sf_ok ap s' e' \<and> sf_members s' = sf_members s)"
    by (simp add: x Let_def del: eng_step.simps)
qed

lemma sf_started_spec:
  assumes "sf_ok ap s e" "sv_ok env"
  shows "act_spec ap (sf_started env (Suc n) e c s) (\<lambda>ts (s', c', e'). sf_ok ap s' e' \<and> in_step ts (sf_members s) (sf_members s'))"
proof -
  let ?s = "s\<lparr>sf_cancel := Some False, sf_pid := Some (c_PID c), sf_members := ms_Add (sf_members s) (cl_Member (sf_cluster s) e)\<rparr>"
  have ok: "sf_ok ap ?s e" "sf_ok ap (?s\<lparr>sf_memberPinger := Some sr\<rparr>) e" for sr using assms(1) by (simp_all add: sf_ok_def)
  obtain cs ms where "sendMembersToAgent env (Suc n) e ?s = Some cs" "told ap cs = [ms]" "m_ID ` set ms = gm_keys (ms_members (sf_members ?s))"
    using sendMembers_told [OF ok(1) assms(2), of n] by blast
  moreover obtain sr where "c_SendRepeat c (Some (c_PID c)) (User memberPing) memberPingInterval = Inr (sr :: cmsg SendRepeater)"
    by (simp add: c_SendRepeat_def sr_start_def memberPingInterval_def)
  moreover from calculation obtain cs' r where "sf_start env (Suc n) e c (?s\<lparr>sf_memberPinger := Some sr\<rparr>) = Some (cs', r)"
    "\<And>x. r = Inr x \<Longrightarrow> (case x of (s', c', e') \<Rightarrow> told ap cs' = [] \<and> sf_ok ap s' e' \<and> sf_members s' = sf_members ?s)"
    using sf_start_spec [OF ok(2) [of sr], of env n c] by (auto simp: act_spec_def)
  ultimately show ?thesis by (auto simp: sf_started_def Let_def act_spec_def in_step_def)
qed

lemma sf_stopped_spec:
  assumes "es_ok e"
  shows "act_spec ap (sf_stopped env (Suc n) e s) (\<lambda>ts s'. ts = [] \<and> sf_members s' = sf_members s \<and> sf_cluster s' = sf_cluster s)"
  unfolding sf_stopped_def
  by (intro act_spec_bind [where Q = "\<lambda>ts (_ :: unit). ts = []"] act_spec_bind [where Q = "\<lambda>ts (_ :: bool). ts = []"]
      act_spec_bind [where Q = "\<lambda>ts s'. ts = [] \<and> sf_members s' = sf_members s \<and> sf_cluster s' = sf_cluster s"])
    (auto simp: pinger_Stop_def Unsubscribe_def eng_Send_def send_ok [OF assms] go_bind_eq_Inr simp del: send.simps split: option.splits)

lemma handshake_spec:
  assumes "sf_ok ap s e" "sv_ok env"
  shows "act_spec ap (act_bind (addMembers env (Suc n) e [member] s) (\<lambda>s.
      let members = ms_Slice (sf_members s) (sv_order env ''reply'' (ms_members (sf_members s)))
      in act_do (eng_Send (Suc n) e (c_Sender c) (User (Members members))) (s, c, e)))
    (\<lambda>ts (s', c', e'). sf_ok ap s' e' \<and> in_step ts (sf_members s) (sf_members s'))"
proof (rule act_spec_bind [OF addMembers_spec [OF assms]])
  fix ts and s' :: "'a SelfManaged" assume h: "sf_ok ap s' e \<and> ts \<noteq> [] \<and> in_step ts (sf_members s) (sf_members s')"
  let ?ms = "ms_Slice (sf_members s') (sv_order env ''reply'' (ms_members (sf_members s')))"
  let ?ts = "told ap (route False e (c_Sender c) (User (Members ?ms)) None)"
  have "es_ok e" "ms_ok (sf_members s')" using h by (simp_all add: sf_ok_def eng_ok_def)
  moreover have "in_step (ts @ ?ts) (sf_members s) (sf_members s')"
  proof (cases "?ts = []")
    case False
    then have "last ?ts = ?ms" using told_members [of ap e "c_Sender c" ?ms None] last_in_set [OF False] by blast
    then show ?thesis using False slice_ids [OF \<open>ms_ok (sf_members s')\<close> assms(2)] by (simp add: in_step_def)
  qed (use h in simp)
  ultimately show "act_spec ap (let members = ?ms in act_do (eng_Send (Suc n) e (c_Sender c) (User (Members members))) (s', c, e))
      (\<lambda>ts' (s', c', e'). sf_ok ap s' e' \<and> in_step (ts @ ts') (sf_members s) (sf_members s'))"
    using h by (simp add: Let_def eng_Send_def send_ok del: send.simps)
qed

lemma in_step_refl [simp]: "in_step [] ms ms"
  by (simp add: in_step_def)

lemma act_spec_after:
  assumes "act_spec ap m Q" "\<And>ts x. Q ts x \<Longrightarrow> R ts (f x)"
  shows "act_spec ap (act_bind m (\<lambda>x. act_ret (f x))) R"
  using assms by (intro act_spec_bind [OF assms(1)]) simp

lemma sf_step:
  assumes "sf_ok ap s e" "sv_ok env"
  shows "act_spec ap (sf_Receive env (Suc n) e c s) (\<lambda>ts (s', c', e'). sf_ok ap s' e' \<and> in_step ts (sf_members s) (sf_members s'))"
proof -
  have es: "es_ok e" using assms(1) by (simp add: sf_ok_def eng_ok_def)
  have "act_spec ap (act_bind (sf_stopped env (Suc n) e s) (\<lambda>s. act_ret (s, c, e)))
      (\<lambda>ts (s', c', e'). sf_ok ap s' e' \<and> in_step ts (sf_members s) (sf_members s'))"
    by (rule act_spec_after [OF sf_stopped_spec [OF es]]) (use assms(1) in \<open>auto simp: sf_ok_def\<close>)
  moreover have "act_spec ap (act_bind (addMembers env (Suc n) e members s) (\<lambda>s. act_ret (s, c, e)))
      (\<lambda>ts (s', c', e'). sf_ok ap s' e' \<and> in_step ts (sf_members s) (sf_members s'))" for members
    by (rule act_spec_after [OF addMembers_spec [OF assms]]) simp
  moreover have "act_spec ap (act_bind (removeMember env (Suc n) e member s) (\<lambda>s. act_ret (s, c, e)))
      (\<lambda>ts (s', c', e'). sf_ok ap s' e' \<and> in_step ts (sf_members s) (sf_members s'))" for member
    by (rule act_spec_after [OF removeMember_spec [OF assms]]) simp
  moreover have "act_spec ap (act_bind (handleMemberPing env (Suc n) e c s) (\<lambda>_. act_ret (s, c, e)))
      (\<lambda>ts (s', c', e'). sf_ok ap s' e' \<and> in_step ts (sf_members s) (sf_members s'))"
    by (rule act_spec_after [OF handleMemberPing_quiet [OF es]]) (use assms(1) in simp)
  ultimately show ?thesis
    using assms handshake_spec [OF assms, of n _ c] sf_started_spec [OF assms, of n c]
    by (simp add: sf_Receive_def Let_def split: any.split cmsg.split)
qed

end
