(* ===== verification/Provider.thy ===== *)
theory Provider
  imports SelfManaged
begin

text \<open>
  What the self-managed provider (\<^verbatim>\<open>src/cluster/selfmanaged.go\<close>) does for its agent over a history of messages, and
  what an unreachable member does to it.
\<close>

subsection \<open>Histories\<close>

fun sf_run :: "nat \<Rightarrow> (sf_env \<times> (cmsg, 's) Context) list \<Rightarrow> 'r SelfManaged \<times> Engine \<Rightarrow> ('r SelfManaged \<times> Engine) act" where
  "sf_run n [] (s, e) = act_ret (s, e)"
| "sf_run n ((env, c) # msgs) (s, e) = act_bind (sf_Receive env n e c s) (\<lambda>(s, _, e). sf_run n msgs (s, e))"

text \<open>The agent takes member lists, each on the engine as it is by then.\<close>

definition follow :: "nat \<Rightarrow> ((ag_env \<times> Engine) \<times> Member list) list \<Rightarrow> 'q Agent \<Rightarrow> 'q Agent act" where
  "follow n xs a = act_each (\<lambda>((env, e), ms). handleMembers env n e ms) xs a"

lemma follow_ok:
  assumes "ag_ok a" "list_all (\<lambda>((env, e), _). env_ok env \<and> es_ok e) xs"
  shows "\<exists>cs a'. follow (Suc n) xs a = Some (cs, Inr a') \<and> ag_ok a' \<and> gm_keys (ms_members (ag_members a')) =
    (if xs = [] then gm_keys (ms_members (ag_members a)) else m_ID ` set (snd (last xs)))"
proof -
  have "(\<lambda>(x, ms). case x of (env, e) \<Rightarrow> handleMembers env (Suc n) e ms) = (\<lambda>((env, e), ms). handleMembers env (Suc n) e ms :: 'a Agent \<Rightarrow> _)"
    by auto
  then show ?thesis using agent_sink.take_lists_ok [OF assms(1), of xs n] assms(2) by (simp add: follow_def split_def)
qed

lemma in_step_append: "in_step ts ms ms' \<Longrightarrow> in_step ts' ms' ms'' \<Longrightarrow> in_step (ts @ ts') ms ms''"
  by (auto simp: in_step_def split: if_splits)

lemma sf_run_spec:
  fixes s :: "'r SelfManaged" and msgs :: "(sf_env \<times> (cmsg, 's) Context) list"
  assumes "sf_ok ap s e" "list_all (\<lambda>(env, _). sv_ok env) msgs"
  shows "act_spec ap (sf_run (Suc n) msgs (s, e)) (\<lambda>ts (s', e'). sf_ok ap s' e' \<and> in_step ts (sf_members s) (sf_members s'))"
  using assms
proof (induction msgs arbitrary: s e)
  case (Cons m msgs)
  obtain env c where m: "m = (env, c)" by (cases m)
  then have "sv_ok env" using Cons.prems(2) by simp
  show ?case unfolding m sf_run.simps
  proof (rule act_spec_bind [OF sf_step [OF Cons.prems(1) \<open>sv_ok env\<close>, of n c]])
    fix ts and x :: "'r SelfManaged \<times> (cmsg, 's) Context \<times> Engine"
    assume "case x of (s', c', e') \<Rightarrow> sf_ok ap s' e' \<and> in_step ts (sf_members s) (sf_members s')"
    then obtain s1 c1 e1 where x: "x = (s1, c1, e1)" "sf_ok ap s1 e1" "in_step ts (sf_members s) (sf_members s1)" by (cases x) auto
    show "act_spec ap (case x of (s, _, e) \<Rightarrow> sf_run (Suc n) msgs (s, e))
        (\<lambda>ts' (s', e'). sf_ok ap s' e' \<and> in_step (ts @ ts') (sf_members s) (sf_members s'))"
      using Cons.IH [OF x(2)] Cons.prems(2) by (auto simp: x(1) elim!: act_spec_mono intro: in_step_append [OF x(3)])
  qed
qed simp

text \<open>C7: Whatever messages the provider takes, it never hangs, and after every history in which it does not panic the
  agent that has taken the lists it sent knows exactly the member IDs the provider knows.\<close>

theorem provider_feeds_agent:
  assumes "sf_ok ap s e" "list_all (\<lambda>(env, _). sv_ok env) msgs"
    and "ag_ok a" "gm_keys (ms_members (ag_members a)) = gm_keys (ms_members (sf_members s))"
  shows "\<exists>cs r. sf_run (Suc n) msgs (s, e) = Some (cs, r) \<and>
    (\<forall>s' e' xs. r = Inr (s', e') \<longrightarrow> map snd xs = told ap cs \<longrightarrow> list_all (\<lambda>((env, e), _). env_ok env \<and> es_ok e) xs \<longrightarrow>
      (\<exists>cs' a'. follow (Suc n) xs a = Some (cs', Inr a') \<and> ag_ok a' \<and>
        gm_keys (ms_members (ag_members a')) = gm_keys (ms_members (sf_members s'))))"
proof -
  obtain cs r where r: "sf_run (Suc n) msgs (s, e) = Some (cs, r)"
    "\<And>x. r = Inr x \<Longrightarrow> (case x of (s', e') \<Rightarrow> sf_ok ap s' e' \<and> in_step (told ap cs) (sf_members s) (sf_members s'))"
    using sf_run_spec [OF assms(1,2), of n] by (auto simp: act_spec_def)
  have "\<exists>cs' a'. follow (Suc n) xs a = Some (cs', Inr a') \<and> ag_ok a' \<and>
        gm_keys (ms_members (ag_members a')) = gm_keys (ms_members (sf_members s'))"
    if "r = Inr (s', e')" "map snd xs = told ap cs" "list_all (\<lambda>((env, e), _). env_ok env \<and> es_ok e) xs" for s' e' xs
  proof -
    have "xs \<noteq> [] \<Longrightarrow> snd (last xs) = last (told ap cs)" "told ap cs = [] \<longleftrightarrow> xs = []"
      by (simp_all add: last_map flip: that(2))
    then show ?thesis using follow_ok [OF assms(3) that(3), of n] r(2) [OF that(1)] that(2) assms(4)
      by (cases "xs = []") (auto simp: in_step_def)
  qed
  then show ?thesis using r(1) by blast
qed

subsection \<open>A provider for the witnesses\<close>

definition node_sf_env :: sf_env where
  "node_sf_env = \<lparr>sv_order = (\<lambda>_. map fst), sv_obj = 11, sv_id = 3, sv_ptr = 0, sv_NewResolver = Inr 0,
     sv_RegisterProxy = (\<lambda>_ _ _ _ _ _ _. Inr 0), sv_Browse = (\<lambda>_ _. None), sv_Shutdown = (\<lambda>_. Inr ())\<rparr>"

definition node_provider :: "unit SelfManaged" where
  "node_provider = \<lparr>sf_config = WithBootstrapMember \<lparr>ma_ListenAddr = ''b:2'', ma_ID = ''B''\<rparr> NewSelfManagedConfig, sf_cluster = node_cluster,
     sf_members = NewMemberSet [], sf_memberPinger = None, sf_eventSubPID = None, sf_pid = Some (NewPID ''a:1'' ''provider/A''),
     sf_membersAlive = NewMemberSet [], sf_resolver = None, sf_announcer = None, sf_cancel = None\<rparr>"

definition provider_ctx :: "cmsg any \<Rightarrow> (cmsg, unit SelfManaged) Context" where
  "provider_ctx msg = (newContext 0 (NewPID ''a:1'' ''provider/A''))\<lparr>c_message := msg, c_sender := Some (NewPID ''b:2'' ''provider/B'')\<rparr>"

definition new_agent :: "unit Agent" where
  "new_agent = node_agent\<lparr>ag_members := NewMemberSet [], ag_kinds := [], ag_activated := []\<rparr>"

definition node_history :: "(sf_env \<times> (cmsg, unit SelfManaged) Context) list" where
  "node_history = map (\<lambda>msg. (node_sf_env, provider_ctx msg)) [User (Handshake (Some member_b)), User (Members [member_a, member_b]),
     User memberPing, User (memberLeave ''b:2'')]"

lemma node_sf_env_ok: "sv_ok node_sf_env"
  by (simp add: sv_ok_def node_sf_env_def gm_order_ex)

lemma node_provider_ok: "sf_ok (NewPID ''a:1'' ''cluster/A'') node_provider node_engine"
  using node_engine_fit
  by (simp add: sf_ok_def eng_fit_def node_provider_def node_cluster_def node_engine_def NewPID_def rg_getByID_def gm_get_def)

lemma node_history_result:
  "(case sf_run 1 node_history (node_provider, node_engine) of
      Some (cs, Inr (s', e')) \<Rightarrow> Some (map fst (ms_members (sf_members s')), map (map m_ID) (told (NewPID ''a:1'' ''cluster/A'') cs))
    | _ \<Rightarrow> None) = Some ([''A''], [[''B''], [''B'', ''A''], [''A'']])"
  by code_simp

theorem provider_feeds_agent_witness:
  "\<exists>cs s' e' cs' a'. sf_run 1 node_history (node_provider, node_engine) = Some (cs, Inr (s', e')) \<and>
    follow 1 (map (\<lambda>ms. ((node_env 0 None, node_engine), ms)) (told (NewPID ''a:1'' ''cluster/A'') cs)) new_agent = Some (cs', Inr a') \<and>
    gm_keys (ms_members (ag_members a')) = {''A''}"
proof -
  let ?ap = "NewPID ''a:1'' ''cluster/A''"
  obtain cs s' e' where r: "sf_run 1 node_history (node_provider, node_engine) = Some (cs, Inr (s', e'))"
    "map fst (ms_members (sf_members s')) = [''A'']"
    using node_history_result by (auto split: option.splits sum.splits prod.splits)
  let ?xs = "map (\<lambda>ms. ((node_env 0 None, node_engine), ms)) (told ?ap cs)"
  have "list_all (\<lambda>(env, _). sv_ok env) node_history" by (simp add: node_history_def node_sf_env_ok)
  moreover have "ag_ok new_agent" using node_agent_ok by (simp add: ag_ok_def new_agent_def ids_ok_def gm_ok_def member_kinds_def gm_keys_def)
  moreover have "gm_keys (ms_members (ag_members new_agent)) = gm_keys (ms_members (sf_members node_provider))"
    by (simp add: new_agent_def node_provider_def)
  ultimately obtain cs2 r2 where "sf_run 1 node_history (node_provider, node_engine) = Some (cs2, r2)"
    and *: "\<And>s' e' xs. r2 = Inr (s', e') \<Longrightarrow> map snd xs = told ?ap cs2 \<Longrightarrow>
      list_all (\<lambda>((env, e), _). env_ok env \<and> es_ok e) xs \<Longrightarrow>
      \<exists>cs' a'. follow 1 xs new_agent = Some (cs', Inr a') \<and> ag_ok a' \<and> gm_keys (ms_members (ag_members a')) = gm_keys (ms_members (sf_members s'))"
    using provider_feeds_agent [OF node_provider_ok, of node_history new_agent 0] unfolding One_nat_def by blast
  then have "cs2 = cs" "r2 = Inr (s', e')" using r(1) by simp_all
  moreover have "map snd ?xs = told ?ap cs" by (simp add: comp_def)
  moreover have "list_all (\<lambda>((env, e), _). env_ok env \<and> es_ok e) ?xs"
    using node_env_ok eng_fit_es [OF node_engine_fit] by (simp add: list_all_iff)
  ultimately obtain cs' a' where "follow 1 ?xs new_agent = Some (cs', Inr a')"
    "gm_keys (ms_members (ag_members a')) = gm_keys (ms_members (sf_members s'))"
    using * [of s' e' ?xs] by blast
  moreover have "gm_keys (ms_members (sf_members s')) = {''A''}"
    using r(2) unfolding gm_keys_def by (metis list.set(1,2) set_map)
  ultimately show ?thesis using r(1) by blast
qed

subsection \<open>Unreachable members\<close>

lemma ms_set_inj: "m \<in> ms_set s \<Longrightarrow> x \<in> ms_set s \<Longrightarrow> m_ID x = m_ID m \<longleftrightarrow> x = m"
  by (auto simp: ms_set_def)

text \<open>C40: When a remote is unreachable the child actor tells the provider. If members have that address, one of them leaves and
  the agent is told; if none has, as when a bootstrap member does not answer, the provider panics.\<close>

theorem unreachable_member:
  assumes "sf_ok ap s e" "sv_ok env" "sf_pid s = Some pp"
    and "c_Message c = RemoteUnreachableEvent addr" "c_Message c' = User (memberLeave addr)"
  shows "handleEventStream (Suc n) e c s = Some (route False e (Some pp) (User (memberLeave addr)) (Some (c_PID c))) \<and>
    (if \<exists>m \<in> ms_set (sf_members s). m_Host m = addr
     then \<exists>m cs s' ms. sf_Receive env (Suc n) e c' s = Some (cs, Inr (s', c', e)) \<and>
            m \<in> ms_set (sf_members s) \<and> m_Host m = addr \<and> ms_set (sf_members s') = ms_set (sf_members s) - {m} \<and>
            told ap cs = [ms] \<and> m_ID ` set ms = gm_keys (ms_members (sf_members s'))
     else sf_Receive env (Suc n) e c' s = Some ([], Inl NilDeref))"
proof
  have es: "es_ok e" and ms: "ms_ok (sf_members s)" using assms(1) by (simp_all add: sf_ok_def eng_ok_def)
  show "handleEventStream (Suc n) e c s = Some (route False e (Some pp) (User (memberLeave addr)) (Some (c_PID c)))"
    using assms(3,4) by (simp add: handleEventStream_def c_Send_def SendWithSender_def send_ok [OF es] c_PID_def del: send.simps)
  let ?g = "ms_GetByHost (sf_members s) (sv_order env ''host'' (ms_members (sf_members s))) addr"
  have o: "gm_order (ms_members (sf_members s)) (sv_order env ''host'' (ms_members (sf_members s)))"
    using assms(2) ms by (simp add: sv_ok_def ms_ok_def)
  show "if \<exists>m \<in> ms_set (sf_members s). m_Host m = addr
     then \<exists>m cs s' ms. sf_Receive env (Suc n) e c' s = Some (cs, Inr (s', c', e)) \<and>
            m \<in> ms_set (sf_members s) \<and> m_Host m = addr \<and> ms_set (sf_members s') = ms_set (sf_members s) - {m} \<and>
            told ap cs = [ms] \<and> m_ID ` set ms = gm_keys (ms_members (sf_members s'))
     else sf_Receive env (Suc n) e c' s = Some ([], Inl NilDeref)"
  proof (cases ?g)
    case None
    then show ?thesis using ms_GetByHost_law [OF ms o, of addr] assms(5) by (auto simp: sf_Receive_def removeMember_def Let_def)
  next
    case (Some m)
    then have m: "m \<in> ms_set (sf_members s)" "m_Host m = addr" using ms_GetByHost_law [OF ms o, of addr] by simp_all
    let ?s = "s\<lparr>sf_members := ms_Remove (sf_members s) m\<rparr>"
    have "sf_ok ap ?s e" using assms(1) by (simp add: sf_ok_def)
    then obtain cs mm where t: "sendMembersToAgent env (Suc n) e ?s = Some cs" "told ap cs = [mm]" "m_ID ` set mm = gm_keys (ms_members (sf_members ?s))"
      using sendMembers_told [OF _ assms(2), of ap ?s e n] by blast
    have "ms_Contains (sf_members s) m" using m(1) by (auto simp: ms_Contains_def ms_set_def dest: gm_get_Some_in_keys)
    then have "sf_Receive env (Suc n) e c' s = Some (cs, Inr (?s, c', e))"
      using assms(5) Some t(1) by (simp add: sf_Receive_def removeMember_def Let_def act_ret_def)
    moreover have "ms_set (sf_members ?s) = ms_set (sf_members s) - {m}" using ms ms_set_inj [OF m(1)] by auto
    ultimately show ?thesis using m t by auto
  qed
qed

theorem unreachable_member_witness:
  "sf_Receive node_sf_env 1 node_engine (provider_ctx (User (memberLeave ''b:2''))) node_provider = Some ([], Inl NilDeref)"
proof -
  have "ms_set (sf_members node_provider) = {}" "sf_pid node_provider = Some (NewPID ''a:1'' ''provider/A'')"
    by (simp_all add: node_provider_def)
  moreover have "c_Message (provider_ctx msg) = msg" for msg by (simp add: c_Message_def provider_ctx_def)
  ultimately show ?thesis
    using unreachable_member [OF node_provider_ok node_sf_env_ok, of _ "provider_ctx (RemoteUnreachableEvent ''b:2'')" "''b:2''"
        "provider_ctx (User (memberLeave ''b:2''))" 0] by simp
qed

end
