(* ===== verification/Setup.thy ===== *)
theory Setup
  imports Provider
begin

text \<open>
  The configuration of a cluster with its engine and its provider (\<^verbatim>\<open>Config\<close> of \<^verbatim>\<open>src/cluster/cluster.go\<close>), the engine's own
  configuration (\<^verbatim>\<open>EngineConfig\<close> of \<^verbatim>\<open>src/actor/engine.go\<close>), and a whole node from the default configuration to the
  running agent and provider.
\<close>

subsection \<open>Engine configuration\<close>

record EngineConfig =
  ec_remote :: "Remoter option"

definition NewEngineConfig :: EngineConfig where
  "NewEngineConfig = \<lparr>ec_remote = None\<rparr>"

definition WithRemote :: "Remoter \<Rightarrow> EngineConfig \<Rightarrow> EngineConfig" where
  "WithRemote remote config = config\<lparr>ec_remote := Some remote\<rparr>"

definition eng_Address :: "Engine \<Rightarrow> string" where
  "eng_Address e = e_address e"

subsection \<open>Cluster configuration\<close>

text \<open>The fields that the operations of the cluster read, and the two that only \<^verbatim>\<open>New\<close> and \<^verbatim>\<open>Start\<close> do.\<close>

record ('r, 's) FullConfig = ClusterConfig +
  fc_engine :: "Engine option"
  fc_provider :: "'r Cluster \<Rightarrow> nat \<Rightarrow> cmsg any + 's"

definition full_NewConfig :: "nat \<Rightarrow> nat \<Rightarrow> ('r, 'r SelfManaged) FullConfig" where
  "full_NewConfig port rnd = \<lparr>cc_listenAddr = getRandomListenAddr port, cc_id = Itoa (int rnd), cc_region = ''default'',
     cc_requestTimeout = defaultRequestTimeout, fc_engine = None, fc_provider = NewSelfManagedProvider NewSelfManagedConfig\<rparr>"

definition WithProvider :: "('r Cluster \<Rightarrow> nat \<Rightarrow> cmsg any + 't) \<Rightarrow> ('r, 's) FullConfig \<Rightarrow> ('r, 't) FullConfig" where
  "WithProvider p config = \<lparr>cc_listenAddr = cc_listenAddr config, cc_id = cc_id config, cc_region = cc_region config,
     cc_requestTimeout = cc_requestTimeout config, fc_engine = fc_engine config, fc_provider = p\<rparr>"

definition WithEngine :: "Engine \<Rightarrow> ('r, 's) FullConfig \<Rightarrow> ('r, 's) FullConfig" where
  "WithEngine e config = config\<lparr>fc_engine := Some e\<rparr>"

lemma truncate_simps [simp]:
  "cc_listenAddr (ClusterConfig.truncate config) = cc_listenAddr config" "cc_id (ClusterConfig.truncate config) = cc_id config"
  "cc_region (ClusterConfig.truncate config) = cc_region config"
  by (simp_all add: ClusterConfig.defs)

text \<open>Both views of the default configuration are the same.\<close>

lemma truncate_NewConfig: "ClusterConfig.truncate (full_NewConfig port rnd) = cl_NewConfig port rnd"
  by (simp add: full_NewConfig_def cl_NewConfig_def ClusterConfig.defs)

text \<open>\<^verbatim>\<open>New\<close> followed by \<^verbatim>\<open>Start\<close>: a node. \<open>ids\<close> are the identities and random numbers of what is made on the way.\<close>

definition boot :: "nat \<Rightarrow> ('r, 's) FullConfig \<Rightarrow> string option \<Rightarrow> nat \<times> nat \<times> nat \<times> nat \<times> nat \<Rightarrow> (string + 'r Cluster \<times> Engine) act" where
  "boot n config listen ids =
     (case ids of (obj, rnd, obj', rnd', obj'') \<Rightarrow>
      case cl_New n (ClusterConfig.truncate config) (fc_engine config) listen obj rnd obj' rnd' of
        None \<Rightarrow> None
      | Some (Inl ex) \<Rightarrow> Some ([], Inl ex)
      | Some (Inr (Inl err)) \<Rightarrow> act_ret (Inl err)
      | Some (Inr (Inr (c, e))) \<Rightarrow>
          act_bind (cl_Start n e obj'' rnd' (fc_provider config) c) (\<lambda>r. act_ret (Inr r)))"

subsection \<open>A node boots\<close>

lemma new_cluster:
  assumes "fc_engine config = None"
  shows "\<exists>e. cl_New (Suc n) (ClusterConfig.truncate config) (fc_engine config) None obj rnd obj' rnd' =
      Some (Inr (Inr (\<lparr>cl_config = ClusterConfig.truncate config, cl_agentPID = None, cl_providerPID = None, cl_isStarted = False, cl_kinds = []\<rparr>, e))) \<and>
    host_ok e (Some (router_pid (cc_listenAddr config) rnd)) \<and> e_address e = cc_listenAddr config \<and>
    e_eventStream e = Some (NewPID (cc_listenAddr config) (''eventstream'' @ pidSeparator @ Itoa (int rnd'))) \<and>
    (\<forall>i. rg_getByID (e_Registry e) i \<noteq> None \<longleftrightarrow>
       i \<in> {ID (router_pid (cc_listenAddr config) rnd), ''eventstream'' @ pidSeparator @ Itoa (int rnd')})"
proof -
  obtain sp :: "(cmsg, subs, unit) spawned" where
    "NewEngine (Suc n) (Some (rem_Remoter None None obj rnd (cc_listenAddr config) NewConfig)) obj' rnd' newEventStream = Some (Inr (Inr sp))"
    "host_ok (sp_engine sp) (Some (router_pid (cc_listenAddr config) rnd))" "e_address (sp_engine sp) = cc_listenAddr config"
    "e_eventStream (sp_engine sp) = Some (NewPID (cc_listenAddr config) (''eventstream'' @ pidSeparator @ Itoa (int rnd')))"
    "\<forall>i. rg_getByID (e_Registry (sp_engine sp)) i \<noteq> None \<longleftrightarrow>
       i \<in> {ID (router_pid (cc_listenAddr config) rnd), ''eventstream'' @ pidSeparator @ Itoa (int rnd')}"
    using remote_engine_boots [of n obj rnd "cc_listenAddr config" NewConfig obj' rnd' "newEventStream :: nat \<Rightarrow> cmsg any + subs", where 'e = unit]
    by blast
  then show ?thesis using assms by (auto simp: cl_New_def)
qed

lemma host_eng_ok: "host_ok e rp \<Longrightarrow> eng_ok e"
  by (auto simp: host_ok_def eng_ok_def es_ok_def rg_get_Some split: option.splits)

lemma enter_ids: "rg_getByID (e_Registry (eng_step (Enter q) e)) i \<noteq> None \<longleftrightarrow> rg_getByID (e_Registry e) i \<noteq> None \<or> i = ID (pr_PID q)"
  by (simp add: rg_add_def rg_getByID_def Let_def split: option.split)



end
