(* ===== verification/Convergence.thy ===== *)
theory Convergence
  imports Agent_Properties
begin

text \<open>
  Two agents of a cluster and the news they take of active actors (\<^verbatim>\<open>handleActivation\<close> and \<^verbatim>\<open>handleActorTopology\<close> of
  \<^verbatim>\<open>src/cluster/agent.go\<close>): the order in which it arrives, how often, and in which kind of message does not
  matter, as long as no name stands for two actors.
\<close>

subsection \<open>News\<close>

text \<open>The PIDs a message announces, if it announces some and none is nil.\<close>

fun news :: "cmsg any \<Rightarrow> PID list option" where
  "news (User (Activation (Some p))) = Some [p]"
| "news (User (ActorTopology pids)) = (if None \<in> set pids then None else Some (map the pids))"
| "news _ = None"

definition known :: "'r Agent \<Rightarrow> PID set" where
  "known a = {p. gm_get (ag_activated a) (ID p) = Some p}"

abbreviation enter_all :: "PID list \<Rightarrow> (string, PID) gomap \<Rightarrow> (string, PID) gomap" where
  "enter_all ps m \<equiv> fold (\<lambda>p m. snd (act_enter m p)) ps m"

lemma enter_known:
  assumes "ids_ok m" "inj_on ID (insert p {q. gm_get m (ID q) = Some q})"
  shows "{q. gm_get (snd (act_enter m p)) (ID q) = Some q} = insert p {q. gm_get m (ID q) = Some q}"
proof (cases "gm_get m (ID p)")
  case (Some q)
  then have "ID q = ID p" using ids_okD [OF assms(1)] by blast
  then have "q = p" using Some inj_onD [OF assms(2), of q p] by simp
  then show ?thesis using Some by (auto simp: act_enter_def dest: gm_get_Some_in_keys)
next
  case None
  then have "ID p \<notin> gm_keys m" by (simp add: gm_get_None_iff)
  then show ?thesis using None by (auto simp: act_enter_def)
qed

lemma enter_all_known:
  assumes "ids_ok m" "inj_on ID ({q. gm_get m (ID q) = Some q} \<union> set ps)"
  shows "{q. gm_get (enter_all ps m) (ID q) = Some q} = {q. gm_get m (ID q) = Some q} \<union> set ps"
  using assms
proof (induction ps arbitrary: m)
  case (Cons p ps)
  let ?m = "snd (act_enter m p)"
  have "inj_on ID (insert p {q. gm_get m (ID q) = Some q})" using Cons.prems(2) by (rule inj_on_subset) auto
  then have e: "{q. gm_get ?m (ID q) = Some q} = insert p {q. gm_get m (ID q) = Some q}" by (rule enter_known [OF Cons.prems(1)])
  then have "inj_on ID ({q. gm_get ?m (ID q) = Some q} \<union> set ps)" using Cons.prems(2) by simp
  then show ?case using Cons.IH [OF act_enter_ok [OF Cons.prems(1)]] e by simp
qed simp

lemma ids_agree:
  assumes "ids_ok m" "{q. gm_get m (ID q) = Some q} \<subseteq> {q. gm_get m' (ID q) = Some q}" "gm_get m i = Some q"
  shows "gm_get m' i = Some q"
proof -
  have "ID q = i" using ids_okD [OF assms(1,3)] .
  then have "q \<in> {q. gm_get m (ID q) = Some q}" using assms(3) by simp
  then show ?thesis using assms(2) \<open>ID q = i\<close> by blast
qed

lemma ids_determined:
  assumes "ids_ok m" "ids_ok m'" "{q. gm_get m (ID q) = Some q} = {q. gm_get m' (ID q) = Some q}"
  shows "gm_get m = gm_get m'"
proof
  fix i
  show "gm_get m i = gm_get m' i"
    using ids_agree [OF assms(1), of m' i] ids_agree [OF assms(2), of m i] assms(3)
    by (cases "gm_get m i"; cases "gm_get m' i") auto
qed

subsection \<open>Taking news\<close>

lemma news_step:
  assumes "es_ok e" "news (c_Message c) = Some ps"
  shows "\<exists>cs. ag_Receive env (Suc n) e timeout c a = Some (cs, Inr (a\<lparr>ag_activated := enter_all ps (ag_activated a)\<rparr>, e))"
  using assms(2)
proof (cases "c_Message c" rule: news.cases)
  case (1 p)
  then have "ps = [p]" using assms(2) by simp
  then show ?thesis using 1 assms(1)
    by (simp add: ag_Receive_def handleActivation_def addActivated_enter BroadcastEvent_ok act_ret_def del: BroadcastEvent.simps)
next
  case (2 pids)
  then have ps: "None \<notin> set pids" "ps = map the pids" using assms(2) by (auto split: if_splits)
  then have "Some (the x) = x" if "x \<in> set pids" for x using that by (cases x) auto
  then have "pids = map Some ps" using ps(2) by (simp add: map_idI comp_def)
  then show ?thesis using 2 topology_enters [of ps a] by (simp add: ag_Receive_def act_ret_def)
qed simp_all

lemma news_run:
  assumes "es_ok e" "map (\<lambda>(_, c). news (c_Message c)) msgs = map Some pss"
  shows "\<exists>cs. ag_run (Suc n) timeout msgs (a, e) = Some (cs, Inr (a\<lparr>ag_activated := enter_all (concat pss) (ag_activated a)\<rparr>, e))"
  using assms(2)
proof (induction msgs arbitrary: a pss)
  case (Cons x msgs)
  obtain env c where x: "x = (env, c)" by (cases x)
  from Cons.prems x obtain ps qss where p: "pss = ps # qss" "news (c_Message c) = Some ps" "map (\<lambda>(_, c). news (c_Message c)) msgs = map Some qss"
    by (cases pss) auto
  from news_step [OF assms(1) p(2), of env n timeout a] Cons.IH [OF p(3), of "a\<lparr>ag_activated := enter_all ps (ag_activated a)\<rparr>"]
  show ?case by (auto simp: x p(1))
qed (simp add: act_ret_def)

text \<open>C11: Agents that have heard of the same actors agree: whatever each knew before and in whatever order and messages
  the news arrives, if together it is the same and no name stands for two actors, both end with the same
  directory, which has all of it.\<close>

theorem directories_converge:
  assumes "es_ok e" "es_ok e'" "ids_ok (ag_activated a)" "ids_ok (ag_activated b)"
    and "map (\<lambda>(_, c). news (c_Message c)) msgs = map Some pss" "map (\<lambda>(_, c). news (c_Message c)) msgs' = map Some pss'"
    and "known a \<union> set (concat pss) = known b \<union> set (concat pss')" "inj_on ID (known a \<union> set (concat pss))"
  shows "\<exists>cs a' cs' b'. ag_run (Suc n) timeout msgs (a, e) = Some (cs, Inr (a', e)) \<and>
    ag_run (Suc n) timeout' msgs' (b, e') = Some (cs', Inr (b', e')) \<and>
    gm_get (ag_activated a') = gm_get (ag_activated b') \<and> known a' = known a \<union> set (concat pss)"
proof -
  let ?m = "enter_all (concat pss) (ag_activated a)" and ?m' = "enter_all (concat pss') (ag_activated b)"
  have k: "{q. gm_get ?m (ID q) = Some q} = known a \<union> set (concat pss)" "{q. gm_get ?m' (ID q) = Some q} = known b \<union> set (concat pss')"
    using enter_all_known [OF assms(3), of "concat pss"] enter_all_known [OF assms(4), of "concat pss'"] assms(7,8) by (simp_all add: known_def)
  then have "gm_get ?m = gm_get ?m'" using ids_determined [OF enters_ok [OF assms(3)] enters_ok [OF assms(4)]] assms(7) by simp
  moreover obtain cs cs' where "ag_run (Suc n) timeout msgs (a, e) = Some (cs, Inr (a\<lparr>ag_activated := ?m\<rparr>, e))"
    "ag_run (Suc n) timeout' msgs' (b, e') = Some (cs', Inr (b\<lparr>ag_activated := ?m'\<rparr>, e'))"
    using news_run [OF assms(1,5)] news_run [OF assms(2,6)] by blast
  ultimately show ?thesis using k(1) by (auto simp: known_def)
qed

theorem directories_converge_witness:
  "\<exists>cs a' cs' b'. ag_run 1 0 [(node_env 0 None, agent_ctx (User (Activation (Some (NewPID ''a:1'' ''player/1'')))))] (node_agent, node_engine) =
      Some (cs, Inr (a', node_engine)) \<and>
    ag_run 1 0 [(node_env 0 None, agent_ctx (User (Activation (Some (NewPID ''a:1'' ''player/1''))))),
        (node_env 0 None, agent_ctx (User (ActorTopology [Some (NewPID ''b:2'' ''room/1''), Some (NewPID ''a:1'' ''player/1'')])))]
      (node_agent\<lparr>ag_activated := []\<rparr>, node_engine) = Some (cs', Inr (b', node_engine)) \<and>
    gm_get (ag_activated a') = gm_get (ag_activated b')"
proof -
  let ?p = "NewPID ''a:1'' ''player/1''" and ?r = "NewPID ''b:2'' ''room/1''"
  have k: "known node_agent = {?r}" "known (node_agent\<lparr>ag_activated := []\<rparr>) = {}"
    by (auto simp: known_def node_agent_def gm_get_def NewPID_def split: if_splits)
  have i: "ids_ok (ag_activated node_agent)" "ids_ok (ag_activated (node_agent\<lparr>ag_activated := []\<rparr>))"
    using node_agent_ok by (simp_all add: ag_ok_def)
  have "inj_on ID {?r, ?p}" by (simp add: NewPID_def)
  then show ?thesis
    using directories_converge [OF eng_fit_es [OF node_engine_fit] eng_fit_es [OF node_engine_fit] i,
        of "[(node_env 0 None, agent_ctx (User (Activation (Some ?p))))]" "[[?p]]"
          "[(node_env 0 None, agent_ctx (User (Activation (Some ?p)))), (node_env 0 None, agent_ctx (User (ActorTopology [Some ?r, Some ?p])))]" "[[?p], [?r, ?p]]" 0 0 0]
    by (auto simp: k insert_commute)
qed

end
