(* ===== verification/Consul.thy ===== *)
theory Consul
  imports Cluster Net
begin

text \<open>
  The provider that keeps the member list in Consul (\<^verbatim>\<open>src/cluster/consul_provider.go\<close>). The Consul client is a
  parameter: the error its calls return, the comparison of two indexes, and whether a list of checks is passing.
  Durations are in nanoseconds; Consul gets them as text.
\<close>

subsection \<open>Configuration and state\<close>

definition registerTTL :: int where
  "registerTTL = 4 * 1000000000"

definition removeTTL :: int where
  "removeTTL = 8 * 1000000000"

record ConsulProviderConfig =
  cpc_address :: string

definition NewConsulProviderConfig :: ConsulProviderConfig where
  "NewConsulProviderConfig = \<lparr>cpc_address = ''127.0.0.1:8500''\<rparr>"

definition WithAddress :: "string \<Rightarrow> ConsulProviderConfig \<Rightarrow> ConsulProviderConfig" where
  "WithAddress address c = c\<lparr>cpc_address := address\<rparr>"

text \<open>The last two fields tell whether the goroutines of \<^verbatim>\<open>watch\<close> and \<^verbatim>\<open>updateTTL\<close> run.\<close>

record ('r, 'i) ConsulProvider =
  cp_config :: ConsulProviderConfig
  cp_cluster :: "'r Cluster"
  cp_id :: string
  cp_prevIndex :: 'i
  cp_quit :: bool          \<comment> \<open>\<^verbatim>\<open>quitch\<close> is closed\<close>
  cp_watching :: bool
  cp_ticking :: bool

definition NewConsulProvider ::
    "string option \<Rightarrow> 'i \<Rightarrow> ConsulProviderConfig \<Rightarrow> ('r Cluster \<Rightarrow> nat \<Rightarrow> cmsg any + ('r, 'i) ConsulProvider) go" where
  "NewConsulProvider client_err zero_index config =
     (case client_err of
        Some err \<Rightarrow> Inl (LogFatal err)
      | None \<Rightarrow> Inr (\<lambda>c _. Inr \<lparr>cp_config = config, cp_cluster = c, cp_id = [], cp_prevIndex = zero_index, cp_quit = False,
          cp_watching = False, cp_ticking = False\<rparr>))"

subsection \<open>Registration\<close>

text \<open>An address that cannot be taken apart gives two empty strings.\<close>

definition split_addr :: "string \<Rightarrow> string \<times> string" where
  "split_addr addr = (case SplitHostPort addr of Inl _ \<Rightarrow> ([], []) | Inr hp \<Rightarrow> hp)"

definition memberID :: "('r, 'i) ConsulProvider \<Rightarrow> string" where
  "memberID p =
     (let config = cl_config (cp_cluster p); (host, port) = split_addr (cc_listenAddr config)
      in cc_id config @ ''.'' @ host @ '':'' @ port)"

record AgentServiceCheck =
  ck_Deregister :: int
  ck_TLSSkipVerify :: bool
  ck_TTL :: int
  ck_CheckID :: string

record AgentServiceRegistration =
  ar_ID :: string
  ar_Name :: string
  ar_Tags :: "string list"
  ar_Address :: string
  ar_Port :: int
  ar_Meta :: "(string, string) gomap"
  ar_EnableTagOverride :: bool
  ar_Check :: AgentServiceCheck
  ar_ReplaceExistingChecks :: bool

definition registration :: "('r, 'i) ConsulProvider \<Rightarrow> AgentServiceRegistration go" where
  "registration p =
     go_bind (cl_Address (cp_cluster p)) (\<lambda>addr.
       let (host, portStr) = split_addr addr; (port, _) = Atoi portStr in
       Inr \<lparr>ar_ID = memberID p, ar_Name = ''hollywood_actor'', ar_Tags = kindsToString (cp_cluster p), ar_Address = host, ar_Port = port,
         ar_Meta = [(''name'', cc_id (cl_config (cp_cluster p)))], ar_EnableTagOverride = True,
         ar_Check = \<lparr>ck_Deregister = removeTTL, ck_TLSSkipVerify = True, ck_TTL = registerTTL, ck_CheckID = memberID p\<rparr>,
         ar_ReplaceExistingChecks = True\<rparr>)"

definition registerService ::
    "(AgentServiceRegistration \<Rightarrow> string option) \<Rightarrow> ('r, 'i) ConsulProvider \<Rightarrow> (string option \<times> ('r, 'i) ConsulProvider) go" where
  "registerService register p =
     (let p = p\<lparr>cp_id := memberID p\<rparr> in go_bind (registration p) (\<lambda>reg. Inr (register reg, p)))"

definition cp_Receive ::
    "(AgentServiceRegistration \<Rightarrow> string option) \<Rightarrow> (cmsg, 's) Context \<Rightarrow> ('r, 'i) ConsulProvider \<Rightarrow> ('r, 'i) ConsulProvider go" where
  "cp_Receive register c p =
     (case c_Message c of
        Started \<Rightarrow> go_bind (registerService register p) (\<lambda>(err, p). case err of
            Some err \<Rightarrow> Inl (PanicErr err)
          | None \<Rightarrow> Inr (p\<lparr>cp_watching := True, cp_ticking := True\<rparr>))
      | Stopped \<Rightarrow> if cp_quit p then Inl CloseClosed else Inr (p\<lparr>cp_quit := True\<rparr>)
      | _ \<Rightarrow> Inr p)"

subsection \<open>Updates\<close>

record AgentService =
  as_Tags :: "string list"
  as_Meta :: "(string, string) gomap"
  as_Port :: int
  as_Address :: string

record 'k HealthEntry =
  he_Service :: "AgentService option"
  he_Checks :: "'k list"

definition entry_member :: "AgentService \<Rightarrow> Member" where
  "entry_member svc =
     \<lparr>m_ID = (case gm_get (as_Meta svc) ''name'' of None \<Rightarrow> [] | Some name \<Rightarrow> name), m_Host = as_Address svc @ '':'' @ Itoa (as_Port svc),
      m_Region = [], m_Kinds = as_Tags svc\<rparr>"

fun healthy :: "('k list \<Rightarrow> bool) \<Rightarrow> 'k HealthEntry list \<Rightarrow> Member list go" where
  "healthy passing [] = Inr []"
| "healthy passing (entry # entries) =
     (if length (he_Checks entry) > 0 \<and> passing (he_Checks entry)
      then go_bind (deref (he_Service entry)) (\<lambda>svc. go_bind (healthy passing entries) (\<lambda>ms. Inr (entry_member svc # ms)))
      else healthy passing entries)"

text \<open>\<open>None\<close> is a message of another type.\<close>

definition onUpdate ::
    "nat \<Rightarrow> Engine \<Rightarrow> ('i \<Rightarrow> 'i \<Rightarrow> bool) \<Rightarrow> ('k list \<Rightarrow> bool) \<Rightarrow> 'i \<times> 'k HealthEntry list option \<Rightarrow> ('r, 'i) ConsulProvider \<Rightarrow>
     ('r, 'i) ConsulProvider act" where
  "onUpdate n e equal passing update p =
     (case update of
        (index, None) \<Rightarrow> act_ret p
      | (index, Some entries) \<Rightarrow>
          act_bind (act_go (healthy passing entries)) (\<lambda>members.
          act_bind (if \<not> equal (cp_prevIndex p) index \<and> length members > 0
                    then act_do (eng_Send n e (cl_PID (cp_cluster p)) (User (Members members))) () else act_ret ()) (\<lambda>_.
          act_ret (p\<lparr>cp_prevIndex := index\<rparr>))))"

text \<open>The goroutine of \<^verbatim>\<open>watch\<close>: the plan is parsed, hands over \<open>updates\<close>, and may end with an error.\<close>

definition cp_watch ::
    "nat \<Rightarrow> Engine \<Rightarrow> ('i \<Rightarrow> 'i \<Rightarrow> bool) \<Rightarrow> ('k list \<Rightarrow> bool) \<Rightarrow> string option \<Rightarrow> ('i \<times> 'k HealthEntry list option) list \<Rightarrow> string option \<Rightarrow>
     ('r, 'i) ConsulProvider \<Rightarrow> ('r, 'i) ConsulProvider act" where
  "cp_watch n e equal passing parse_err updates run_err p =
     (if parse_err \<noteq> None then act_ret p
      else act_bind (act_each (onUpdate n e equal passing) updates p) (\<lambda>p.
        case run_err of Some err \<Rightarrow> act_go (Inl (PanicErr err)) | None \<Rightarrow> act_ret p))"

text \<open>One round of \<^verbatim>\<open>updateTTL\<close>: the ticker's branch refreshes the check of the returned ID, the other one is ready once
  the channel is closed.\<close>

definition updateTTL :: "bool \<Rightarrow> ('r, 'i) ConsulProvider \<Rightarrow> (string list \<times> ('r, 'i) ConsulProvider) option" where
  "updateTTL tick p =
     (if \<not> cp_ticking p then None
      else if tick then Some ([cp_id p], p)
      else if cp_quit p then Some ([], p\<lparr>cp_ticking := False\<rparr>) else None)"

subsection \<open>Laws\<close>

lemma healthy_ok:
  assumes "list_all (\<lambda>entry. he_Service entry \<noteq> None) entries"
  shows "healthy passing entries =
    Inr (map (\<lambda>entry. entry_member (the (he_Service entry))) (filter (\<lambda>entry. he_Checks entry \<noteq> [] \<and> passing (he_Checks entry)) entries))"
  using assms
proof (induction entries)
  case (Cons entry entries)
  then show ?case by auto
qed simp

lemma onUpdate_ok:
  assumes "es_ok e" "healthy passing entries = Inr members"
  shows "onUpdate (Suc n) e equal passing (index, Some entries) p =
    Some (if equal (cp_prevIndex p) index \<or> members = [] then [] else route False e (cl_agentPID (cp_cluster p)) (User (Members members)) None,
      Inr (p\<lparr>cp_prevIndex := index\<rparr>))"
  using assms by (simp add: onUpdate_def cl_PID_def eng_Send_def send_ok act_ret_def del: send.simps)

text \<open>C26: An update with a new index and at least one healthy service gives the agent exactly the healthy services: its
  members then have their IDs and no other, whatever they were.\<close>

theorem consul_reports_healthy:
  assumes "es_ok e" "env_ok env" "ag_ok a" "\<not> equal (cp_prevIndex p) index"
    and "list_all (\<lambda>entry. he_Service entry \<noteq> None) entries"
    and "up = filter (\<lambda>entry. he_Checks entry \<noteq> [] \<and> passing (he_Checks entry)) entries" "up \<noteq> []"
  shows "\<exists>members cs a'. onUpdate (Suc n) e equal passing (index, Some entries) p =
      Some (route False e (cl_agentPID (cp_cluster p)) (User (Members members)) None, Inr (p\<lparr>cp_prevIndex := index\<rparr>)) \<and>
    members = map (\<lambda>entry. entry_member (the (he_Service entry))) up \<and>
    handleMembers env (Suc n) e members a = Some (cs, Inr a') \<and> ag_ok a' \<and>
    gm_keys (ms_members (ag_members a')) = (\<lambda>entry. m_ID (entry_member (the (he_Service entry)))) ` set up"
proof -
  let ?ms = "map (\<lambda>entry. entry_member (the (he_Service entry))) up"
  have "onUpdate (Suc n) e equal passing (index, Some entries) p =
      Some (route False e (cl_agentPID (cp_cluster p)) (User (Members ?ms)) None, Inr (p\<lparr>cp_prevIndex := index\<rparr>))"
    using onUpdate_ok [OF assms(1), of passing entries ?ms n equal index p] healthy_ok [OF assms(5), of passing] assms(4,6,7) by simp
  moreover have "m_ID ` set ?ms = (\<lambda>entry. m_ID (entry_member (the (he_Service entry)))) ` set up" by (simp add: image_image)
  ultimately show ?thesis
    using agent_sink.take_list_ok [OF assms(3), of "(env, e)" n ?ms] assms(1,2) by auto
qed

definition node_consul :: "(unit, nat) ConsulProvider" where
  "node_consul = \<lparr>cp_config = NewConsulProviderConfig, cp_cluster = node_cluster, cp_id = [], cp_prevIndex = 0, cp_quit = False,
     cp_watching = True, cp_ticking = True\<rparr>"

definition entry_of :: "string \<Rightarrow> string \<Rightarrow> bool \<Rightarrow> bool HealthEntry" where
  "entry_of name host ok = \<lparr>he_Service = Some \<lparr>as_Tags = [''player''], as_Meta = [(''name'', name)], as_Port = 1, as_Address = host\<rparr>, he_Checks = [ok]\<rparr>"

theorem consul_reports_healthy_witness:
  "\<exists>members cs a'. onUpdate 1 node_engine (=) (list_all id) (7, Some [entry_of ''A'' ''a'' True, entry_of ''C'' ''c'' False]) node_consul =
      Some (route False node_engine (cl_agentPID node_cluster) (User (Members members)) None, Inr (node_consul\<lparr>cp_prevIndex := 7\<rparr>)) \<and>
    handleMembers (node_env 0 None) 1 node_engine members node_agent = Some (cs, Inr a') \<and> gm_keys (ms_members (ag_members a')) = {''A''}"
proof -
  let ?es = "[entry_of ''A'' ''a'' True, entry_of ''C'' ''c'' False]"
  let ?up = "[entry_of ''A'' ''a'' True]"
  have i: "\<not> cp_prevIndex node_consul = 7" and c: "cp_cluster node_consul = node_cluster" by (simp_all add: node_consul_def)
  have l: "list_all (\<lambda>entry. he_Service entry \<noteq> None) ?es" by (simp add: entry_of_def)
  have u: "?up = filter (\<lambda>entry. he_Checks entry \<noteq> [] \<and> list_all id (he_Checks entry)) ?es" by (simp add: entry_of_def)
  have "(\<lambda>entry. m_ID (entry_member (the (he_Service entry)))) ` set ?up = {''A''}"
    by (simp add: entry_of_def entry_member_def gm_get_def)
  then show ?thesis
    using consul_reports_healthy [where equal = "(=)" and passing = "list_all id" and n = 0,
        OF eng_fit_es [OF node_engine_fit] node_env_ok [of 0 None] node_agent_ok i l u list.distinct(2)]
    unfolding c One_nat_def by metis
qed

text \<open>An update without a healthy service is not passed on: the agent keeps its members.\<close>

lemma consul_empty_not_reported:
  assumes "es_ok e" "healthy passing entries = Inr []"
  shows "onUpdate (Suc n) e equal passing (index, Some entries) p = Some ([], Inr (p\<lparr>cp_prevIndex := index\<rparr>))"
  using onUpdate_ok [OF assms] by simp

text \<open>C27: A node that registers at an address of the form host:port and comes back as a healthy service is the member
  this node takes itself for, except that the region is lost.\<close>

theorem consul_registration_roundtrip:
  assumes "cl_agentPID (cp_cluster p) = Some (NewPID (e_address e) i)"
    and "e_address e = host @ '':'' @ Itoa port" "set host \<inter> set '':[]'' = {}" "0 \<le> port" "port < 2 ^ 63"
  shows "\<exists>reg. registration p = Inr reg \<and>
    entry_member \<lparr>as_Tags = ar_Tags reg, as_Meta = ar_Meta reg, as_Port = ar_Port reg, as_Address = ar_Address reg\<rparr> =
      (cl_Member (cp_cluster p) e)\<lparr>m_Region := []\<rparr>"
proof -
  have "split_addr (e_address e) = (host, Itoa port)"
    using SplitHostPort_join [OF assms(3) Itoa_plain [OF assms(4)]] by (simp add: split_addr_def assms(2))
  then show ?thesis using Atoi_Itoa [OF assms(4,5)] assms(1,2)
    by (simp add: registration_def cl_Address_def NewPID_def entry_member_def cl_Member_def kindsToString_def gm_get_def)
qed

theorem consul_registration_roundtrip_witness:
  "\<exists>reg. registration node_consul = Inr reg \<and>
    entry_member \<lparr>as_Tags = ar_Tags reg, as_Meta = ar_Meta reg, as_Port = ar_Port reg, as_Address = ar_Address reg\<rparr> =
      (cl_Member node_cluster node_engine)\<lparr>m_Region := []\<rparr>"
proof -
  have "e_address node_engine = ''a'' @ '':'' @ Itoa 1" by code_simp
  moreover have "cl_agentPID (cp_cluster node_consul) = Some (NewPID (e_address node_engine) ''cluster/A'')" "cp_cluster node_consul = node_cluster"
    by (simp_all add: node_consul_def node_cluster_def node_engine_def)
  ultimately show ?thesis
    using consul_registration_roundtrip [of node_consul node_engine "''cluster/A''" "''a''" 1] by simp
qed

text \<open>A node at an IPv6 address registers without the brackets, so the others reach for another address.\<close>

lemma consul_ipv6_host:
  assumes "cl_agentPID (cp_cluster p) = Some (NewPID (''['' @ host @ '']:'' @ Itoa port) i)" "set host \<inter> set ''[]'' = {}" "0 \<le> port" "port < 2 ^ 63"
  shows "\<exists>reg. registration p = Inr reg \<and> ar_Address reg @ '':'' @ Itoa (ar_Port reg) = host @ '':'' @ Itoa port"
proof -
  have "split_addr (''['' @ host @ '']:'' @ Itoa port) = (host, Itoa port)"
    using SplitHostPort_brackets [OF assms(2) Itoa_plain [OF assms(3)]] by (simp add: split_addr_def)
  then show ?thesis using Atoi_Itoa [OF assms(3,4)] assms(1) by (simp add: registration_def cl_Address_def NewPID_def)
qed

end
