(* ===== verification/Strategy.thy ===== *)
theory Strategy
  imports Consul
begin

text \<open>
  The activation strategy of \<^verbatim>\<open>src/examples/cluster/shared/activation_strategy.go\<close>: an actor is activated on a member of the
  requested region, or of a fallback region.
\<close>

record regionBasedActivationStrategy =
  ra_fallback :: string

definition RegionBasedActivationStrategy :: "string \<Rightarrow> regionBasedActivationStrategy" where
  "RegionBasedActivationStrategy fallback = \<lparr>ra_fallback = fallback\<rparr>"

fun filterMembersByRegion :: "Member list \<Rightarrow> string \<Rightarrow> Member list" where
  "filterMembersByRegion [] region = []"
| "filterMembersByRegion (member # members) region =
     (if m_Region member = region then member # filterMembersByRegion members region else filterMembersByRegion members region)"

text \<open>\<open>rnd\<close> is where \<^verbatim>\<open>rand.Intn\<close> draws from.\<close>

definition ActivateOnMember :: "nat \<Rightarrow> regionBasedActivationStrategy \<Rightarrow> ActivationDetails \<Rightarrow> Member option" where
  "ActivateOnMember rnd s details =
     (let members = filterMembersByRegion (ad_Members details) (ad_Region details) in
      if length members > 0 then Some (members ! (rnd mod length members))
      else
        let members = filterMembersByRegion (ad_Members details) (ra_fallback s) in
        if length members > 0 then Some (members ! (rnd mod length members)) else None)"

lemma filterMembersByRegion_eq: "filterMembersByRegion members region = filter (\<lambda>m. m_Region m = region) members"
  by (induction members) simp_all

lemma pick_member: "0 < length xs \<Longrightarrow> xs ! (rnd mod length xs) \<in> set xs"
  by simp

lemma ActivateOnMember_region:
  "case ActivateOnMember rnd s d of
      Some m \<Rightarrow> m \<in> set (ad_Members d) \<and> m_Region m = (if ad_Region d \<in> m_Region ` set (ad_Members d) then ad_Region d else ra_fallback s)
    | None \<Rightarrow> ad_Region d \<notin> m_Region ` set (ad_Members d) \<and> ra_fallback s \<notin> m_Region ` set (ad_Members d)"
proof -
  let ?f = "\<lambda>r. filterMembersByRegion (ad_Members d) r"
  have f: "?f r = [] \<longleftrightarrow> r \<notin> m_Region ` set (ad_Members d)" for r by (auto simp: filterMembersByRegion_eq filter_empty_conv)
  have p: "?f r ! (rnd mod length (?f r)) \<in> set (ad_Members d)" "m_Region (?f r ! (rnd mod length (?f r))) = r" if "?f r \<noteq> []" for r
    using pick_member [of "?f r" rnd] that by (auto simp: filterMembersByRegion_eq)
  show ?thesis
    by (cases "?f (ad_Region d) = []"; cases "?f (ra_fallback s) = []")
      (use f p in \<open>auto simp: ActivateOnMember_def Let_def\<close>)
qed



text \<open>Members that come from Consul have no region, so such a strategy finds none of them.\<close>

lemma consul_members_no_region:
  assumes "ad_Members d = map entry_member svcs" "ad_Region d \<noteq> []" "ra_fallback s \<noteq> []"
  shows "ActivateOnMember rnd s d = None"
  using ActivateOnMember_region [where rnd = rnd and s = s and d = d] assms by (auto simp: entry_member_def split: option.splits if_splits)

end
