(* ===== verification/Trade.thy ===== *)
theory Trade
  imports Action
begin

text \<open>
  The trading engine of \<^verbatim>\<open>src/examples/trade-engine\<close>: an engine actor that spawns a price watcher per pair of tokens
  (\<^verbatim>\<open>actors/price/price.go\<close>) and an executor per order (\<^verbatim>\<open>actors/executor/executor.go\<close>), from \<^verbatim>\<open>actors/tradeEngine/tradeEngine.go\<close>.
  Times are nanoseconds since the zero time. A price starts at 0 and only ever grows by 2, so as a \<^verbatim>\<open>float64\<close> it is a whole even number.
\<close>

subsection \<open>Messages\<close>

record TradeOrderRequest =
  to_TradeID :: string
  to_Token0 :: string
  to_Token1 :: string
  to_Chain :: string
  to_Wallet :: string
  to_PrivateKey :: string
  to_Expires :: int

record PriceOptions =
  po_Ticker :: string
  po_Token0 :: string
  po_Token1 :: string
  po_Chain :: string

datatype tmsg =
    TradeOrder TradeOrderRequest
  | CancelOrderRequest string
  | TradeInfoRequest string
  | TradeInfoResponse int int int            \<comment> \<open>Foo, Bar, Price\<close>
  | PriceUpdate string int int               \<comment> \<open>Ticker, UpdatedAt, Price\<close>
  | SubscribePrice "pidptr option"
  | UnsubscribePrice "pidptr option"
  | TriggerPriceUpdate

text \<open>What a step needs from the run time: object identities, random numbers, the handle of a context, the time, the
  location of the actor's own PID, the order of a map iteration, and the answer to a request.\<close>

record tr_env =
  tv_obj :: nat
  tv_rnd :: nat
  tv_rnd2 :: nat
  tv_cancel :: nat
  tv_now :: int
  tv_ptr :: nat
  tv_order :: "(pidptr option, bool) gomap \<Rightarrow> pidptr option list"
  tv_reply :: "tmsg any option"

text \<open>A send through an engine pointer that may be nil; only a nil target is noticed before it is used.\<close>

definition send_via :: "bool \<Rightarrow> nat \<Rightarrow> Engine \<Rightarrow> PID option \<Rightarrow> tmsg any \<Rightarrow> 'a \<Rightarrow> (tmsg, 'a) action" where
  "send_via eng n e pid msg x =
     (if pid = None then act_ret x else if \<not> eng then act_go (Inl NilDeref) else act_do (eng_Send n e pid msg) x)"

definition poison_via :: "bool \<Rightarrow> nat \<Rightarrow> Engine \<Rightarrow> nat \<Rightarrow> PID option \<Rightarrow> 'a \<Rightarrow> (tmsg, 'a) action" where
  "poison_via eng n e cancel pid x = (if \<not> eng then act_go (Inl NilDeref) else act_do (Poison n e e cancel pid) x)"

subsection \<open>The price watcher\<close>

record priceWatcher =
  pw_ActorEngine :: bool                      \<comment> \<open>not nil\<close>
  pw_PID :: "pidptr option"
  pw_repeater :: "tmsg SendRepeater option"   \<comment> \<open>\<open>None\<close>: the zero value\<close>
  pw_ticker :: string
  pw_token0 :: string
  pw_token1 :: string
  pw_chain :: string
  pw_lastPrice :: int
  pw_updatedAt :: int
  pw_subscribers :: "(pidptr option, bool) gomap"

definition NewPriceActor :: "PriceOptions \<Rightarrow> nat \<Rightarrow> tmsg any + priceWatcher" where
  "NewPriceActor opts = (\<lambda>_. Inr \<lparr>pw_ActorEngine = False, pw_PID = None, pw_repeater = None, pw_ticker = po_Ticker opts, pw_token0 = po_Token0 opts,
     pw_token1 = po_Token1 opts, pw_chain = po_Chain opts, pw_lastPrice = 0, pw_updatedAt = 0, pw_subscribers = []\<rparr>)"

text \<open>Adding 2 to an even \<^verbatim>\<open>float64\<close> is exact below \<open>2 ^ 54\<close>; there the sum lies between two representable numbers and
  is rounded back.\<close>

definition price_add2 :: "int \<Rightarrow> int" where
  "price_add2 p = (if p < 2 ^ 54 then p + 2 else p)"

definition Kill :: "tr_env \<Rightarrow> nat \<Rightarrow> Engine \<Rightarrow> priceWatcher \<Rightarrow> (tmsg, priceWatcher) action" where
  "Kill env n e pw =
     act_bind (act_go (case pw_repeater pw of None \<Rightarrow> Inl CloseNil | Some sr \<Rightarrow> sr_Stop sr)) (\<lambda>sr.
       let pw = pw\<lparr>pw_repeater := Some sr\<rparr> in
       poison_via (pw_ActorEngine pw) n e (tv_cancel env) (map_option ptr_pid (pw_PID pw)) pw)"

definition refresh :: "tr_env \<Rightarrow> nat \<Rightarrow> Engine \<Rightarrow> priceWatcher \<Rightarrow> (tmsg, priceWatcher) action" where
  "refresh env n e pw =
     act_bind (if length (pw_subscribers pw) = 0 then Kill env n e pw else act_ret pw) (\<lambda>pw.
       let pw = pw\<lparr>pw_lastPrice := price_add2 (pw_lastPrice pw), pw_updatedAt := tv_now env\<rparr> in
       act_each (\<lambda>(sub, _) pw. send_via (pw_ActorEngine pw) n e (map_option ptr_pid sub)
           (User (PriceUpdate (pw_ticker pw) (pw_updatedAt pw) (pw_lastPrice pw))) pw)
         (gm_range (pw_subscribers pw) (tv_order env (pw_subscribers pw))) pw)"

definition pw_Receive :: "tr_env \<Rightarrow> nat \<Rightarrow> Engine \<Rightarrow> (tmsg, 's) Context \<Rightarrow> priceWatcher \<Rightarrow> (tmsg, priceWatcher) action" where
  "pw_Receive env n e c pw =
     (case c_Message c of
        Started \<Rightarrow>
          let pw = pw\<lparr>pw_ActorEngine := True, pw_PID := Some (PidPtr (tv_ptr env) (c_PID c))\<rparr> in
          act_bind (act_go (eng_SendRepeat (Some (c_PID c)) (User TriggerPriceUpdate) (200 * 1000000))) (\<lambda>sr.
            act_ret (pw\<lparr>pw_repeater := Some sr\<rparr>))
      | User (SubscribePrice sub) \<Rightarrow> act_ret (pw\<lparr>pw_subscribers := gm_set sub True (pw_subscribers pw)\<rparr>)
      | User (UnsubscribePrice sub) \<Rightarrow> act_ret (pw\<lparr>pw_subscribers := gm_del sub (pw_subscribers pw)\<rparr>)
      | User TriggerPriceUpdate \<Rightarrow> refresh env n e pw
      | _ \<Rightarrow> act_ret pw)"

subsection \<open>The executor\<close>

record ExecutorOptions =
  eo_PriceWatcherPID :: "PID option"
  eo_TradeID :: string
  eo_Ticker :: string
  eo_Token0 :: string
  eo_Token1 :: string
  eo_Chain :: string
  eo_Wallet :: string
  eo_Pk :: string
  eo_Expires :: int

record tradeExecutor =
  te_id :: string
  te_ActorEngine :: bool
  te_PID :: "pidptr option"
  te_priceWatcherPID :: "PID option"
  te_ticker :: string
  te_token0 :: string
  te_token1 :: string
  te_chain :: string
  te_wallet :: string
  te_pk :: string
  te_status :: string
  te_lastPrice :: int
  te_expires :: int

definition NewExecutorActor :: "ExecutorOptions \<Rightarrow> nat \<Rightarrow> tmsg any + tradeExecutor" where
  "NewExecutorActor opts = (\<lambda>_. Inr \<lparr>te_id = eo_TradeID opts, te_ActorEngine = False, te_PID = None, te_priceWatcherPID = eo_PriceWatcherPID opts,
     te_ticker = eo_Ticker opts, te_token0 = eo_Token0 opts, te_token1 = eo_Token1 opts, te_chain = eo_Chain opts, te_wallet = eo_Wallet opts,
     te_pk = eo_Pk opts, te_status = ''active'', te_lastPrice = 0, te_expires = eo_Expires opts\<rparr>)"

definition Finished :: "tr_env \<Rightarrow> nat \<Rightarrow> Engine \<Rightarrow> tradeExecutor \<Rightarrow> (tmsg, tradeExecutor) action" where
  "Finished env n e te =
     act_bind (send_via (te_ActorEngine te) n e (te_priceWatcherPID te) (User (UnsubscribePrice (te_PID te))) ()) (\<lambda>_.
       poison_via (te_ActorEngine te) n e (tv_cancel env) (map_option ptr_pid (te_PID te)) te)"

definition processUpdate :: "tr_env \<Rightarrow> nat \<Rightarrow> Engine \<Rightarrow> int \<Rightarrow> tradeExecutor \<Rightarrow> (tmsg, tradeExecutor) action" where
  "processUpdate env n e price te =
     (if te_expires te \<noteq> 0 \<and> tv_now env > te_expires te then Finished env n e te
      else act_ret (te\<lparr>te_lastPrice := price\<rparr>))"

definition ex_Receive :: "tr_env \<Rightarrow> nat \<Rightarrow> Engine \<Rightarrow> (tmsg, 's) Context \<Rightarrow> tradeExecutor \<Rightarrow> (tmsg, tradeExecutor) action" where
  "ex_Receive env n e c te =
     (case c_Message c of
        Started \<Rightarrow>
          let te = te\<lparr>te_ActorEngine := True, te_PID := Some (PidPtr (tv_ptr env) (c_PID c))\<rparr> in
          send_via True n e (te_priceWatcherPID te) (User (SubscribePrice (te_PID te))) te
      | User (PriceUpdate ticker updatedAt price) \<Rightarrow> processUpdate env n e price te
      | User (TradeInfoRequest i) \<Rightarrow> act_do (Respond n e c (User (TradeInfoResponse 100 100 (te_lastPrice te)))) te
      | User (CancelOrderRequest i) \<Rightarrow> Finished env n e (te\<lparr>te_status := ''cancelled''\<rparr>)
      | _ \<Rightarrow> act_ret te)"

subsection \<open>The trading engine\<close>

definition toTicker :: "string \<Rightarrow> string \<Rightarrow> string \<Rightarrow> string" where
  "toTicker token0 token1 chain = token0 @ ''-'' @ token1 @ ''-'' @ chain"

text \<open>Spawning a child: its PID, the context with the child in it, and the engine.\<close>

definition spawn_child ::
    "nat \<Rightarrow> Engine \<Rightarrow> nat \<Rightarrow> nat \<Rightarrow> (nat \<Rightarrow> tmsg any + 'r) \<Rightarrow> string \<Rightarrow> (tmsg, 's) Context \<Rightarrow> (tmsg, PID \<times> (tmsg, 's) Context \<times> Engine) action" where
  "spawn_child n e obj rnd p name c =
     (case (SpawnChild n e obj rnd p name [] c :: ((tmsg, 'r, unit) spawned \<times> (tmsg, 's) Context) go option) of
        None \<Rightarrow> None
      | Some (Inl ex) \<Rightarrow> Some ([], Inl ex)
      | Some (Inr (sp, c')) \<Rightarrow> Some (sp_calls sp, Inr (sp_pid sp, c', sp_engine sp)))"

definition ensurePriceWatcher ::
    "tr_env \<Rightarrow> nat \<Rightarrow> Engine \<Rightarrow> TradeOrderRequest \<Rightarrow> (tmsg, 's) Context \<Rightarrow> (tmsg, PID \<times> (tmsg, 's) Context \<times> Engine) action" where
  "ensurePriceWatcher env n e order c =
     (let ticker = toTicker (to_Token0 order) (to_Token1 order) (to_Chain order) in
      case c_Child c (''trade-engine/'' @ ticker) of
        Some pid \<Rightarrow> act_ret (pid, c, e)
      | None \<Rightarrow>
          spawn_child n e (tv_obj env) (tv_rnd env)
            (NewPriceActor \<lparr>po_Ticker = ticker, po_Token0 = to_Token0 order, po_Token1 = to_Token1 order, po_Chain = to_Chain order\<rparr>) ticker c)"

definition spawnExecutor ::
    "tr_env \<Rightarrow> nat \<Rightarrow> Engine \<Rightarrow> TradeOrderRequest \<Rightarrow> (tmsg, 's) Context \<Rightarrow> (tmsg, (tmsg, 's) Context \<times> Engine) action" where
  "spawnExecutor env n e msg c =
     act_bind (ensurePriceWatcher env n e msg c) (\<lambda>(pricePID, c, e).
       let options = \<lparr>eo_PriceWatcherPID = Some pricePID, eo_TradeID = to_TradeID msg,
             eo_Ticker = toTicker (to_Token0 msg) (to_Token1 msg) (to_Chain msg), eo_Token0 = to_Token0 msg, eo_Token1 = to_Token1 msg,
             eo_Chain = to_Chain msg, eo_Wallet = to_Wallet msg, eo_Pk = to_PrivateKey msg, eo_Expires = to_Expires msg\<rparr> in
       act_bind (spawn_child n e (tv_obj env + 1) (tv_rnd2 env) (NewExecutorActor options) (to_TradeID msg) c) (\<lambda>(_, c, e).
       act_ret (c, e)))"

definition cancelOrder :: "nat \<Rightarrow> Engine \<Rightarrow> string \<Rightarrow> (tmsg, 's) Context \<Rightarrow> tmsg call list option" where
  "cancelOrder n e i c =
     (case c_Child c (''trade-engine/'' @ i) of
        None \<Rightarrow> Some []
      | Some pid \<Rightarrow> c_Send n e c (Some pid) (User (CancelOrderRequest [])))"

text \<open>The answer \<open>None\<close> is a request that times out after 5 seconds.\<close>

definition te_handleTradeInfoRequest ::
    "tr_env \<Rightarrow> nat \<Rightarrow> Engine \<Rightarrow> string \<Rightarrow> (tmsg, 's) Context \<Rightarrow> (tmsg, Engine) action" where
  "te_handleTradeInfoRequest env n e i c =
     (case c_Child c (''trade-engine/'' @ i) of
        None \<Rightarrow> act_ret e
      | Some pid \<Rightarrow>
          (case c_Request n e (tv_obj env) (tv_rnd env) c (Some pid) (User (TradeInfoRequest [])) (5 * 1000000000) of
             None \<Rightarrow> None
           | Some (cs, resp, e') \<Rightarrow>
               (case rs_Result (tv_reply env = None) e' (resp\<lparr>rs_result := case tv_reply env of None \<Rightarrow> [] | Some r \<Rightarrow> [r]\<rparr>) of
                  None \<Rightarrow> None
                | Some (Inl err, _, e') \<Rightarrow> Some (cs, Inr e')
                | Some (Inr res, _, e') \<Rightarrow>
                    (case res of
                       User (TradeInfoResponse foo bar price) \<Rightarrow>
                         map_option (\<lambda>cs'. (cs @ cs', Inr e')) (Respond n e' c (User (TradeInfoResponse foo bar price)))
                     | _ \<Rightarrow> Some (cs, Inr e')))))"

definition tr_Receive :: "tr_env \<Rightarrow> nat \<Rightarrow> Engine \<Rightarrow> (tmsg, unit) Context \<Rightarrow> (tmsg, (tmsg, unit) Context \<times> Engine) action" where
  "tr_Receive env n e c =
     (case c_Message c of
        User (TradeOrder msg) \<Rightarrow> spawnExecutor env n e msg c
      | User (CancelOrderRequest i) \<Rightarrow> act_do (cancelOrder n e i c) (c, e)
      | User (TradeInfoRequest i) \<Rightarrow> act_bind (te_handleTradeInfoRequest env n e i c) (\<lambda>e. act_ret (c, e))
      | _ \<Rightarrow> act_ret (c, e))"

definition NewTradeEngine :: "nat \<Rightarrow> tmsg any + unit" where
  "NewTradeEngine = (\<lambda>_. Inr ())"

subsection \<open>Children of the trading engine\<close>

text \<open>The IDs of the children start with the parent's.\<close>

definition kids_ok :: "(tmsg, 's) Context \<Rightarrow> bool" where
  "kids_ok c \<longleftrightarrow> sm_ok (c_children c) \<and>
     (\<forall>k. sm_Get (c_children c) k \<noteq> None \<longrightarrow> (\<exists>x. k = ID (c_pid c) @ pidSeparator @ x))"

lemma kids_ok_simps [simp]:
  "kids_ok (c\<lparr>c_message := m\<rparr>) = kids_ok c" "kids_ok (c\<lparr>c_sender := s\<rparr>) = kids_ok c"
  by (simp_all add: kids_ok_def)

lemma kids_ok_set:
  assumes "kids_ok c" "k = ID (c_pid c) @ pidSeparator @ x"
  shows "kids_ok (c\<lparr>c_children := sm_Set (c_children c) k v\<rparr>)"
  using assms safemap.upd_law [of "c_children c" k v] by (auto simp: kids_ok_def)

lemma spawn_child_ok:
  fixes p :: "nat \<Rightarrow> tmsg any + 'r"
  assumes "eng_ok e" "kids_ok c" "pid = NewPID (e_address e) (ID (c_pid c) @ pidSeparator @ name @ pidSeparator @ Itoa (int rnd))"
  shows "\<exists>cs c' q. spawn_child (Suc n) e obj rnd p name c = Some (cs, Inr (pid, c', eng_step (Enter q) e)) \<and>
    kids_ok c' \<and> c_pid c' = c_pid c \<and> eng_ok (eng_step (Enter q) e) \<and>
    (rg_getByID (e_Registry e) (ID pid) = None \<longrightarrow> cs = [ProcStart (proc_ref obj pid)])"
proof -
  have "es_ok e" using assms(1) by (simp add: eng_ok_def)
  from SpawnChild_ok [OF this assms(3), of n obj p, where 'e = unit] obtain sp :: "(tmsg, 'r, unit) spawned" where
    "SpawnChild (Suc n) e obj rnd p name [] c = Some (Inr (sp, c\<lparr>c_children := sm_Set (c_children c) (ID pid) pid\<rparr>))"
    "sp_pid sp = pid" "sp_engine sp = eng_step (Enter (proc_ref obj pid)) e"
    "rg_getByID (e_Registry e) (ID pid) = None \<longrightarrow> sp_calls sp = [ProcStart (proc_ref obj pid)]"
    by (auto simp del: eng_step.simps)
  moreover have "kids_ok (c\<lparr>c_children := sm_Set (c_children c) (ID pid) pid\<rparr>)"
    using kids_ok_set [OF assms(2), of "ID pid"] assms(3) by (simp add: NewPID_def)
  ultimately show ?thesis using eng_step_ok [OF assms(1), of "Enter (proc_ref obj pid)"]
    by (simp add: spawn_child_def del: eng_step.simps) blast
qed

lemma no_such_child:
  assumes "kids_ok c" "ID (c_pid c) = ''trade-engine/'' @ i" "CHR ''/'' \<notin> set name"
  shows "c_Child c (''trade-engine/'' @ name) = None"
proof (rule ccontr)
  assume "c_Child c (''trade-engine/'' @ name) \<noteq> None"
  then obtain x where "''trade-engine/'' @ name = ID (c_pid c) @ pidSeparator @ x" using assms(1) by (auto simp: kids_ok_def c_Child_def)
  then have "name = i @ ''/'' @ x" using assms(2) by (simp add: pidSeparator_def)
  then show False using assms(3) by simp
qed

lemma ensurePriceWatcher_ok:
  assumes "eng_ok e" "kids_ok c"
  shows "\<exists>cs pid c' e'. ensurePriceWatcher env (Suc n) e order c = Some (cs, Inr (pid, c', e')) \<and> kids_ok c' \<and> c_pid c' = c_pid c \<and> eng_ok e'"
proof (cases "c_Child c (''trade-engine/'' @ toTicker (to_Token0 order) (to_Token1 order) (to_Chain order))")
  case None
  then show ?thesis using spawn_child_ok [OF assms refl] by (auto simp: ensurePriceWatcher_def Let_def simp del: eng_step.simps) blast
qed (use assms in \<open>simp add: ensurePriceWatcher_def Let_def act_ret_def\<close>)

lemma spawnExecutor_ok:
  assumes "eng_ok e" "kids_ok c"
  shows "\<exists>cs c' e'. spawnExecutor env (Suc n) e order c = Some (cs, Inr (c', e')) \<and> kids_ok c' \<and> c_pid c' = c_pid c \<and> eng_ok e'"
proof -
  obtain cs pid c1 e1 where 1: "ensurePriceWatcher env (Suc n) e order c = Some (cs, Inr (pid, c1, e1))" "kids_ok c1" "c_pid c1 = c_pid c" "eng_ok e1"
    using ensurePriceWatcher_ok [OF assms] by blast
  define opts where "opts = \<lparr>eo_PriceWatcherPID = Some pid, eo_TradeID = to_TradeID order,
             eo_Ticker = toTicker (to_Token0 order) (to_Token1 order) (to_Chain order), eo_Token0 = to_Token0 order, eo_Token1 = to_Token1 order,
             eo_Chain = to_Chain order, eo_Wallet = to_Wallet order, eo_Pk = to_PrivateKey order, eo_Expires = to_Expires order\<rparr>"
  obtain cs' pid' c2 q where "spawn_child (Suc n) e1 (tv_obj env + 1) (tv_rnd2 env) (NewExecutorActor opts) (to_TradeID order) c1 =
      Some (cs', Inr (pid', c2, eng_step (Enter q) e1))" "kids_ok c2" "c_pid c2 = c_pid c1" "eng_ok (eng_step (Enter q) e1)"
    using spawn_child_ok [OF 1(4,2) refl] by blast
  then show ?thesis using 1 by (simp add: spawnExecutor_def Let_def opts_def act_ret_def del: eng_step.simps)
qed

subsection \<open>Orders, cancellations and information requests\<close>

text \<open>The messages a trading engine is sent: the IDs and tokens in them are plain names.\<close>

definition plain :: "string \<Rightarrow> bool" where
  "plain s \<longleftrightarrow> CHR ''/'' \<notin> set s"

fun plain_msg :: "tmsg any \<Rightarrow> bool" where
  "plain_msg (User (TradeOrder msg)) = plain (toTicker (to_Token0 msg) (to_Token1 msg) (to_Chain msg))"
| "plain_msg (User (CancelOrderRequest i)) = plain i"
| "plain_msg (User (TradeInfoRequest i)) = plain i"
| "plain_msg _ = True"

text \<open>The messages the actor receives, one after another, each with its sender; the context keeps the children.\<close>

fun tr_run :: "nat \<Rightarrow> (tr_env \<times> tmsg any \<times> PID option) list \<Rightarrow> (tmsg, unit) Context \<Rightarrow> Engine \<Rightarrow> (tmsg, (tmsg, unit) Context \<times> Engine) action" where
  "tr_run n [] c e = act_ret (c, e)"
| "tr_run n ((env, m, s) # ms) c e = act_bind (tr_Receive env n e (c\<lparr>c_message := m, c_sender := s\<rparr>)) (\<lambda>(c, e). tr_run n ms c e)"

lemma tr_Receive_silent:
  assumes "kids_ok c" "ID (c_pid c) = ''trade-engine/'' @ i" "plain x" "c_message c \<in> {User (CancelOrderRequest x), User (TradeInfoRequest x)}"
  shows "tr_Receive env n e c = Some ([], Inr (c, e))"
  using assms no_such_child [OF assms(1,2), of x]
  by (auto simp: tr_Receive_def c_Message_def cancelOrder_def te_handleTradeInfoRequest_def plain_def act_ret_def)

lemma tr_Receive_ok:
  assumes "eng_ok e" "kids_ok c" "ID (c_pid c) = ''trade-engine/'' @ i" "plain_msg (c_message c)"
  shows "\<exists>cs c' e'. tr_Receive env (Suc n) e c = Some (cs, Inr (c', e')) \<and> kids_ok c' \<and> c_pid c' = c_pid c \<and> eng_ok e'"
  using assms tr_Receive_silent [OF assms(2,3), of _ env "Suc n" e] spawnExecutor_ok [OF assms(1,2), of env n]
  by (cases "c_message c" rule: plain_msg.cases) (auto simp: tr_Receive_def c_Message_def act_ret_def)

lemma tr_run_ok:
  assumes "list_all (\<lambda>(_, m, _). plain_msg m) ms" "eng_ok e" "kids_ok c" "ID (c_pid c) = ''trade-engine/'' @ i"
  shows "\<exists>cs c' e'. tr_run (Suc n) ms c e = Some (cs, Inr (c', e')) \<and> kids_ok c' \<and> c_pid c' = c_pid c \<and> eng_ok e'"
  using assms
proof (induction ms arbitrary: c e)
  case (Cons x ms)
  obtain env m s where x: "x = (env, m, s)" by (cases x) auto
  obtain cs c1 e1 where 1: "tr_Receive env (Suc n) e (c\<lparr>c_message := m, c_sender := s\<rparr>) = Some (cs, Inr (c1, e1))"
      "kids_ok c1" "c_pid c1 = c_pid c" "eng_ok e1"
    using tr_Receive_ok [of e "c\<lparr>c_message := m, c_sender := s\<rparr>" i env n] Cons.prems x by auto
  then show ?case using Cons.IH [of e1 c1] Cons.prems x by auto
qed (simp add: act_ret_def)

text \<open>C33: 
  C0: whatever orders, cancellations and information requests with plain names an engine actor has handled since it was spawned,
  it has no child under any name it looks for, because the IDs of its children carry its own random ID and one of their own. Every cancellation
  and every information request is therefore dropped, without a message to the executor and without an answer; and every order spawns
  another price watcher, even for a pair that has one.
\<close>
theorem trade_children_unreachable:
  fixes c :: "(tmsg, unit) Context"
  assumes "list_all (\<lambda>(_, m, _). plain_msg m) ms" "eng_ok e" "c_children c = sm_New" "ID (c_pid c) = ''trade-engine/'' @ i"
  shows "\<exists>cs c' e'. tr_run (Suc n) ms c e = Some (cs, Inr (c', e')) \<and>
    (\<forall>env s x m. plain x \<longrightarrow> m = CancelOrderRequest x \<or> m = TradeInfoRequest x \<longrightarrow>
       tr_Receive env (Suc n) e' (c'\<lparr>c_message := User m, c_sender := s\<rparr>) = Some ([], Inr (c'\<lparr>c_message := User m, c_sender := s\<rparr>, e'))) \<and>
    (\<forall>env order ticker pid. ticker = toTicker (to_Token0 order) (to_Token1 order) (to_Chain order) \<longrightarrow> plain ticker \<longrightarrow>
       pid = NewPID (e_address e') (''trade-engine/'' @ i @ ''/'' @ ticker @ ''/'' @ Itoa (int (tv_rnd env))) \<longrightarrow>
       rg_getByID (e_Registry e') (ID pid) = None \<longrightarrow>
       (\<exists>c'' e''. ensurePriceWatcher env (Suc n) e' order c' = Some ([ProcStart (proc_ref (tv_obj env) pid)], Inr (pid, c'', e''))))"
proof -
  have "kids_ok c" using assms(3) by (simp add: kids_ok_def safemap.empty_law)
  from tr_run_ok [OF assms(1,2) this assms(4), where n = n] obtain cs c' e' where run: "tr_run (Suc n) ms c e = Some (cs, Inr (c', e'))"
    and k: "kids_ok c'" "ID (c_pid c') = ''trade-engine/'' @ i" and e': "eng_ok e'" using assms(4) by auto
  have order: "\<exists>c'' e''. ensurePriceWatcher env (Suc n) e' order c' = Some ([ProcStart (proc_ref (tv_obj env) pid)], Inr (pid, c'', e''))"
    if "plain (toTicker (to_Token0 order) (to_Token1 order) (to_Chain order))" "rg_getByID (e_Registry e') (ID pid) = None"
       "pid = NewPID (e_address e') (''trade-engine/'' @ i @ ''/'' @ toTicker (to_Token0 order) (to_Token1 order) (to_Chain order) @ ''/'' @ Itoa (int (tv_rnd env)))"
    for env order pid
  proof -
    have "pid = NewPID (e_address e') (ID (c_pid c') @ pidSeparator @ toTicker (to_Token0 order) (to_Token1 order) (to_Chain order) @ pidSeparator @ Itoa (int (tv_rnd env)))"
      using that(3) k(2) by (simp add: pidSeparator_def)
    from spawn_child_ok [OF e' k(1) this] that(1,2) no_such_child [OF k] show ?thesis
      by (simp add: ensurePriceWatcher_def Let_def plain_def del: eng_step.simps) blast
  qed
  have silent: "tr_Receive env (Suc n) e' (c'\<lparr>c_message := User m, c_sender := s\<rparr>) = Some ([], Inr (c'\<lparr>c_message := User m, c_sender := s\<rparr>, e'))"
    if "plain x" "m = CancelOrderRequest x \<or> m = TradeInfoRequest x" for env s x m
    using that k by (intro tr_Receive_silent) auto
  show ?thesis
    by (rule exI [of _ cs], rule exI [of _ c'], rule exI [of _ e'], intro conjI allI impI)
      (rule run, erule (1) silent, hypsubst, rule order, assumption+, rule refl)
qed

definition trade_env :: tr_env where
  "trade_env = \<lparr>tv_obj = 5, tv_rnd = 8, tv_rnd2 = 9, tv_cancel = 0, tv_now = 0, tv_ptr = 3, tv_order = (\<lambda>m. map fst m), tv_reply = None\<rparr>"

definition trade_order :: TradeOrderRequest where
  "trade_order = \<lparr>to_TradeID = ''t1'', to_Token0 = ''A'', to_Token1 = ''B'', to_Chain = ''c'', to_Wallet = [], to_PrivateKey = [], to_Expires = 0\<rparr>"

definition trade_engine0 :: Engine where
  "trade_engine0 = \<lparr>e_Registry = \<lparr>rg_lookup = []\<rparr>, e_address = ''local'', e_remote = False, e_eventStream = None\<rparr>"

theorem trade_children_unreachable_witness:
  "\<exists>cs c' e'. tr_run 1 [(trade_env, User (TradeOrder trade_order), None)] (newContext 0 (NewPID ''local'' ''trade-engine/7'')) trade_engine0 =
      Some (cs, Inr (c', e')) \<and>
    tr_Receive trade_env 1 e' (c'\<lparr>c_message := User (CancelOrderRequest ''t1''), c_sender := None\<rparr>) =
      Some ([], Inr (c'\<lparr>c_message := User (CancelOrderRequest ''t1''), c_sender := None\<rparr>, e'))"
proof -
  have plain: "plain ''t1''" by (simp add: plain_def)
  have ms: "list_all (\<lambda>(_, m, _). plain_msg m) [(trade_env, User (TradeOrder trade_order), None)]"
    by (simp add: trade_order_def plain_def toTicker_def)
  have e: "eng_ok trade_engine0" by (simp add: eng_ok_def rg_ok_def gm_ok_def es_ok_def trade_engine0_def)
  have c: "c_children (newContext 0 (NewPID ''local'' ''trade-engine/7'') :: (tmsg, unit) Context) = sm_New"
    "ID (c_pid (newContext 0 (NewPID ''local'' ''trade-engine/7'') :: (tmsg, unit) Context)) = ''trade-engine/'' @ ''7''"
    by (simp_all add: newContext_def NewPID_def)
  from trade_children_unreachable [OF ms e c, where n = 0] obtain cs c' e' where
    "tr_run (Suc 0) [(trade_env, User (TradeOrder trade_order), None)] (newContext 0 (NewPID ''local'' ''trade-engine/7'')) trade_engine0 =
      Some (cs, Inr (c', e'))"
    and silent: "\<forall>env s x m. plain x \<longrightarrow> m = CancelOrderRequest x \<or> m = TradeInfoRequest x \<longrightarrow>
       tr_Receive env (Suc 0) e' (c'\<lparr>c_message := User m, c_sender := s\<rparr>) = Some ([], Inr (c'\<lparr>c_message := User m, c_sender := s\<rparr>, e'))"
    by (elim exE conjE)
  moreover have "tr_Receive trade_env (Suc 0) e' (c'\<lparr>c_message := User (CancelOrderRequest ''t1''), c_sender := None\<rparr>) =
      Some ([], Inr (c'\<lparr>c_message := User (CancelOrderRequest ''t1''), c_sender := None\<rparr>, e'))"
    by (rule silent [rule_format, OF plain disjI1 [OF refl]])
  ultimately show ?thesis unfolding One_nat_def by blast
qed

subsection \<open>Price updates\<close>

text \<open>Every iteration order the environment gives is one of the map.\<close>

definition orders_fit :: "tr_env \<Rightarrow> bool" where
  "orders_fit env \<longleftrightarrow> (\<forall>m. gm_ok m \<longrightarrow> gm_order m (tv_order env m))"

text \<open>The messages a price watcher receives, one after another.\<close>

fun pw_run :: "nat \<Rightarrow> (tr_env \<times> tmsg any) list \<Rightarrow> (tmsg, 's) Context \<Rightarrow> Engine \<Rightarrow> priceWatcher \<Rightarrow> (tmsg, priceWatcher) action" where
  "pw_run n [] c e pw = act_ret pw"
| "pw_run n ((env, m) # ms) c e pw = act_bind (pw_Receive env n e (c\<lparr>c_message := m\<rparr>) pw) (pw_run n ms c e)"

text \<open>Subscriptions and ticks, each tick while there is a subscriber: the subscribers and the number of ticks.\<close>

fun watch :: "pidptr set \<times> nat \<Rightarrow> (tr_env \<times> tmsg any) list \<Rightarrow> (pidptr set \<times> nat) option" where
  "watch (S, k) [] = Some (S, k)"
| "watch (S, k) ((env, User (SubscribePrice (Some q))) # ms) = watch (insert q S, k) ms"
| "watch (S, k) ((env, User (UnsubscribePrice (Some q))) # ms) = watch (S - {q}, k) ms"
| "watch (S, k) ((env, User TriggerPriceUpdate) # ms) = (if S = {} then None else watch (S, k + 1) ms)"
| "watch (S, k) (x # ms) = None"

definition price_after :: "nat \<Rightarrow> int" where
  "price_after k = min (2 * int k) (2 ^ 54)"

definition watching :: "pidptr set \<Rightarrow> nat \<Rightarrow> priceWatcher \<Rightarrow> bool" where
  "watching S k pw \<longleftrightarrow> pw_ActorEngine pw \<and> gm_ok (pw_subscribers pw) \<and> gm_keys (pw_subscribers pw) = Some ` S \<and> pw_lastPrice pw = price_after k"

lemma price_add2_after: "price_add2 (price_after k) = price_after (Suc k)"
  by (simp add: price_add2_def price_after_def min_def)

lemma act_each_fixed:
  assumes "\<And>x. x \<in> set xs \<Longrightarrow> f x s = Some (g x, Inr s)"
  shows "act_each f xs s = Some (concat (map g xs), Inr s)"
  using assms by (induction xs) (simp_all add: act_ret_def)

lemma map_via: "map f xs = ys \<Longrightarrow> map (\<lambda>x. g (f x)) xs = map g ys"
  by auto

lemma some_list:
  assumes "distinct ks" "set ks = Some ` S"
  shows "\<exists>qs. ks = map Some qs \<and> distinct qs \<and> set qs = S"
proof -
  have "map (\<lambda>x. Some (the x)) ks = ks" using assms(2) by (intro map_idI) auto
  then have "map Some (map the ks) = ks" by (simp add: comp_def)
  moreover have "set (map the ks) = S" by (simp add: assms(2) image_image)
  moreover have "distinct (map the ks)" using calculation(1) assms(1) by (metis distinct_map)
  ultimately show ?thesis by metis
qed

lemma refresh_ok:
  assumes "watching S k pw" "S \<noteq> {}" "es_ok e" "gm_order (pw_subscribers pw) ks" "ks = tv_order env (pw_subscribers pw)"
  shows "refresh env (Suc n) e pw = Some (concat (map (\<lambda>sub. route False e (map_option ptr_pid sub)
        (User (PriceUpdate (pw_ticker pw) (tv_now env) (price_after (Suc k)))) None) ks),
      Inr (pw\<lparr>pw_lastPrice := price_after (Suc k), pw_updatedAt := tv_now env\<rparr>))"
proof -
  let ?pw = "pw\<lparr>pw_lastPrice := price_after (Suc k), pw_updatedAt := tv_now env\<rparr>"
  let ?g = "\<lambda>sub. route False e (map_option ptr_pid sub) (User (PriceUpdate (pw_ticker pw) (tv_now env) (price_after (Suc k)))) None"
  have "map fst (gm_range (pw_subscribers pw) ks) = ks" using assms(4) by (intro map_fst_gm_range) (simp add: gm_order_def)
  then have ks: "map (\<lambda>x. ?g (fst x)) (gm_range (pw_subscribers pw) ks) = map ?g ks" by (rule map_via)
  have "act_each (\<lambda>(sub, _) pw. send_via (pw_ActorEngine pw) (Suc n) e (map_option ptr_pid sub)
           (User (PriceUpdate (pw_ticker pw) (pw_updatedAt pw) (pw_lastPrice pw))) pw) (gm_range (pw_subscribers pw) ks) ?pw =
      Some (concat (map (\<lambda>x. ?g (fst x)) (gm_range (pw_subscribers pw) ks)), Inr ?pw)"
    using assms(1,3) by (intro act_each_fixed)
      (auto simp: send_via_def eng_Send_def send_ok watching_def dest!: gm_get_Some_in_keys simp del: send.simps)
  moreover have "pw_subscribers pw \<noteq> []" using assms(1,2) by (auto simp: watching_def)
  ultimately show ?thesis using assms(1,5) unfolding ks by (simp add: refresh_def Let_def watching_def price_add2_after)
qed

lemma pw_Receive_watching:
  assumes "watching S k pw" "es_ok e" "orders_fit env" "watch (S, k) ((env, m) # ms) = Some r" "c_message c = m"
  shows "\<exists>cs pw' S' k'. pw_Receive env (Suc n) e c pw = Some (cs, Inr pw') \<and> watching S' k' pw' \<and>
    pw_ticker pw' = pw_ticker pw \<and> watch (S', k') ms = Some r"
proof -
  consider (sub) q where "m = User (SubscribePrice (Some q))" | (unsub) q where "m = User (UnsubscribePrice (Some q))"
    | (tick) "m = User TriggerPriceUpdate" "S \<noteq> {}"
    using assms(4) by (cases "((S, k), (env, m) # ms)" rule: watch.cases) (auto split: if_splits)
  then show ?thesis
  proof cases
    case sub
    then show ?thesis using assms by (intro exI [of _ "[]"] exI [of _ "insert q S"] exI [of _ k] exI) (auto simp: pw_Receive_def c_Message_def act_ret_def watching_def)
  next
    case unsub
    then show ?thesis using assms by (intro exI [of _ "[]"] exI [of _ "S - {q}"] exI [of _ k] exI) (auto simp: pw_Receive_def c_Message_def act_ret_def watching_def)
  next
    case tick
    have "gm_order (pw_subscribers pw) (tv_order env (pw_subscribers pw))" using assms(1,3) by (simp add: orders_fit_def watching_def)
    from refresh_ok [OF assms(1) tick(2) assms(2) this refl] show ?thesis
      using assms(1,4,5) tick by (simp add: pw_Receive_def c_Message_def) (auto simp: watching_def)
  qed
qed

lemma pw_run_watching:
  assumes "watching S k pw" "es_ok e" "list_all (\<lambda>(env, _). orders_fit env) ms" "watch (S, k) ms = Some (S', k')"
  shows "\<exists>cs pw'. pw_run (Suc n) ms c e pw = Some (cs, Inr pw') \<and> watching S' k' pw' \<and> pw_ticker pw' = pw_ticker pw"
  using assms
proof (induction ms arbitrary: S k pw)
  case (Cons x ms)
  obtain env m where x: "x = (env, m)" by (cases x) auto
  have env: "orders_fit env" using Cons.prems(3) x by simp
  have w: "watch (S, k) ((env, m) # ms) = Some (S', k')" using Cons.prems(4) x by simp
  obtain cs pw1 S1 k1 where 1: "pw_Receive env (Suc n) e (c\<lparr>c_message := m\<rparr>) pw = Some (cs, Inr pw1)" "watching S1 k1 pw1"
      "pw_ticker pw1 = pw_ticker pw" "watch (S1, k1) ms = Some (S', k')"
    using pw_Receive_watching [OF Cons.prems(1,2) env w, of "c\<lparr>c_message := m\<rparr>" n] by auto
  then show ?case using Cons.IH [OF 1(2) Cons.prems(2) _ 1(4)] Cons.prems(3) x by auto
qed (simp add: act_ret_def)


definition trade_opts :: PriceOptions where
  "trade_opts = \<lparr>po_Ticker = ''A-B-c'', po_Token0 = ''A'', po_Token1 = ''B'', po_Chain = ''c''\<rparr>"

definition trade_exec :: "nat \<Rightarrow> pidptr" where
  "trade_exec l = PidPtr l (NewPID ''local'' ''trade-engine/7/t1/9'')"

definition trade_ticks :: "(tr_env \<times> tmsg any) list" where
  "trade_ticks = map (Pair trade_env) [User (SubscribePrice (Some (trade_exec 1))), User TriggerPriceUpdate,
     User (SubscribePrice (Some (trade_exec 2))), User TriggerPriceUpdate]"


text \<open>A second tick that is handled before the pill takes effect closes the repeater's channel again.\<close>

lemma kill_twice_panics:
  assumes "es_ok e" "watching {} k pw" "pw_repeater pw = Some sr" "\<not> sr_closed sr"
  shows "\<exists>cs. pw_run (Suc n) [(env, User TriggerPriceUpdate), (env', User TriggerPriceUpdate)] c e pw = Some (cs, Inl CloseClosed)"
proof -
  have subs: "pw_subscribers pw = []" and eng: "pw_ActorEngine pw" using assms(2) by (auto simp: watching_def gm_keys_def)
  obtain cs where "Poison (Suc n) e e (tv_cancel env) (map_option ptr_pid (pw_PID pw)) = Some (cs :: tmsg call list)"
    using Poison_ok [OF assms(1)] by blast
  moreover have "gm_range [] ks = ([] :: (pidptr option \<times> bool) list)" for ks by (induction ks) simp_all
  ultimately show ?thesis using subs eng assms(3,4)
    by (simp add: pw_Receive_def c_Message_def refresh_def Kill_def sr_Stop_def poison_via_def Let_def act_ret_def)
qed

end
