(* ===== verification/Chat.thy ===== *)
theory Chat
  imports Action
begin

text \<open>
  The chat server of \<^verbatim>\<open>src/examples/chat/server/main.go\<close> and the client of \<^verbatim>\<open>src/examples/chat/client/main.go\<close>: an actor that keeps the
  clients and the user names by address and forwards every message to the other clients.
\<close>

datatype chmsg =
    ChatDisconnect
  | ChatConnect string              \<comment> \<open>Username\<close>
  | ChatMessage string string       \<comment> \<open>Username, Msg\<close>

record chat_server =
  ch_clients :: "(string, PID option) gomap"
  ch_users :: "(string, string) gomap"

definition ch_newServer :: chat_server where
  "ch_newServer = \<lparr>ch_clients = [], ch_users = []\<rparr>"

definition ch_forward :: "nat \<Rightarrow> Engine \<Rightarrow> (chmsg, 's) Context \<Rightarrow> PID option \<Rightarrow> (chmsg, unit) action" where
  "ch_forward n e c pid = act_bind (act_go (Equals pid (c_sender c))) (\<lambda>same. if same then act_ret () else act_do (Forward n e c pid) ())"

text \<open>The order of the iteration over the clients is an argument.\<close>

definition ch_handleMessage ::
    "((string, PID option) gomap \<Rightarrow> string list) \<Rightarrow> nat \<Rightarrow> Engine \<Rightarrow> (chmsg, 's) Context \<Rightarrow> chat_server \<Rightarrow> (chmsg, unit) action" where
  "ch_handleMessage ord n e c s = act_each (\<lambda>(_, pid) _. ch_forward n e c pid) (gm_range (ch_clients s) (ord (ch_clients s))) ()"

text \<open>The address in the two warnings of a disconnect is read from the pointer found, which is nil if there is no client.\<close>

definition ch_Receive ::
    "((string, PID option) gomap \<Rightarrow> string list) \<Rightarrow> nat \<Rightarrow> Engine \<Rightarrow> (chmsg, 's) Context \<Rightarrow> chat_server \<Rightarrow> (chmsg, chat_server) action" where
  "ch_Receive ord n e c s =
     (let cAddr = GetAddress (c_sender c) in
      case c_Message c of
        User (ChatMessage u t) \<Rightarrow> act_bind (ch_handleMessage ord n e c s) (\<lambda>_. act_ret s)
      | User ChatDisconnect \<Rightarrow>
          (case gm_get (ch_clients s) cAddr of
             None \<Rightarrow> act_go (Inl NilDeref)
           | Some pid \<Rightarrow>
               (case gm_get (ch_users s) cAddr of
                  None \<Rightarrow> act_bind (act_go (deref pid)) (\<lambda>_. act_ret s)
                | Some username \<Rightarrow> act_ret (s\<lparr>ch_clients := gm_del cAddr (ch_clients s), ch_users := gm_del username (ch_users s)\<rparr>)))
      | User (ChatConnect u) \<Rightarrow>
          (if gm_has (ch_clients s) cAddr then act_ret s
           else if gm_has (ch_users s) cAddr then act_ret s
           else act_ret (s\<lparr>ch_clients := gm_set cAddr (c_sender c) (ch_clients s), ch_users := gm_set cAddr u (ch_users s)\<rparr>))
      | _ \<Rightarrow> act_ret s)"

subsection \<open>The client\<close>

record chat_client =
  cc_username :: string
  cc_serverPID :: "PID option"

definition newClient :: "string \<Rightarrow> PID option \<Rightarrow> nat \<Rightarrow> chmsg any + chat_client" where
  "newClient username serverPID = (\<lambda>_. Inr \<lparr>cc_username = username, cc_serverPID = serverPID\<rparr>)"

definition cc_Receive :: "nat \<Rightarrow> Engine \<Rightarrow> (chmsg, 's) Context \<Rightarrow> chat_client \<Rightarrow> (chmsg, chat_client) action" where
  "cc_Receive n e c s =
     (case c_Message c of
        Started \<Rightarrow> act_do (c_Send n e c (cc_serverPID s) (User (ChatConnect (cc_username s)))) s
      | _ \<Rightarrow> act_ret s)"

subsection \<open>A run of the server\<close>

type_synonym chat_in = "PID \<times> chmsg \<times> ((string, PID option) gomap \<Rightarrow> string list)"

fun ch_run :: "nat \<Rightarrow> chat_in list \<Rightarrow> (chmsg, 's) Context \<Rightarrow> Engine \<Rightarrow> chat_server \<Rightarrow> (chmsg, chat_server) action" where
  "ch_run n [] c e s = act_ret s"
| "ch_run n ((p, m, ord) # ms) c e s =
     act_bind (ch_Receive ord n e (c\<lparr>c_message := User m, c_sender := Some p\<rparr>) s) (ch_run n ms c e)"

text \<open>What the server does: the clients by address, and the addresses that have ever connected. A connection from such an address is
  refused; \<open>None\<close> is a disconnect of a client that is not connected.\<close>

fun chat_spec :: "(string \<rightharpoonup> PID) \<times> string set \<Rightarrow> chat_in list \<Rightarrow> ((string \<rightharpoonup> PID) \<times> string set) option" where
  "chat_spec (C, A) [] = Some (C, A)"
| "chat_spec (C, A) ((p, ChatConnect u, _) # ms) =
     (if Address p \<in> A then chat_spec (C, A) ms else chat_spec (C(Address p \<mapsto> p), insert (Address p) A) ms)"
| "chat_spec (C, A) ((p, ChatDisconnect, _) # ms) =
     (if C (Address p) = None then None else chat_spec (C(Address p := None), A) ms)"
| "chat_spec (C, A) ((p, ChatMessage u t, _) # ms) = chat_spec (C, A) ms"

definition ord_fit :: "((string, PID option) gomap \<Rightarrow> string list) \<Rightarrow> bool" where
  "ord_fit ord \<longleftrightarrow> (\<forall>m. gm_ok m \<longrightarrow> gm_order m (ord m))"

text \<open>An input whose sender's address is in \<open>N\<close> and whose user name is not.\<close>

fun ch_input :: "string set \<Rightarrow> chat_in \<Rightarrow> bool" where
  "ch_input N (p, m, ord) \<longleftrightarrow> Address p \<in> N \<and> ord_fit ord \<and> (case m of ChatConnect u \<Rightarrow> u \<notin> N | _ \<Rightarrow> True)"

definition ch_rel :: "string set \<Rightarrow> (string \<rightharpoonup> PID) \<times> string set \<Rightarrow> chat_server \<Rightarrow> bool" where
  "ch_rel N = (\<lambda>(C, A) s. gm_ok (ch_clients s) \<and> gm_get (ch_clients s) = (\<lambda>a. map_option Some (C a)) \<and> gm_keys (ch_users s) = A \<and>
     dom C \<subseteq> A \<and> A \<subseteq> N \<and> (\<forall>a u. gm_get (ch_users s) a = Some u \<longrightarrow> u \<notin> N))"

lemma ch_keys: "ch_rel N (C, A) s \<Longrightarrow> gm_keys (ch_clients s) = dom C"
  using gm_get_None_iff [of "ch_clients s"] by (simp add: ch_rel_def set_eq_iff domIff del: not_None_eq)

lemma ch_forward_each:
  assumes "es_ok e" "c_sender c = Some p" "\<forall>a \<in> set ks. C a \<noteq> None"
  shows "act_each (\<lambda>(_, pid) _. ch_forward (Suc n) e c pid) (map (\<lambda>a. (a, C a)) ks) () =
    Some (concat (map (\<lambda>a. route False e (C a) (c_message c) (Some (c_pid c))) (filter (\<lambda>a. Equals (C a) (Some p) = Inr False) ks)), Inr ())"
  using assms(3)
proof (induction ks)
  case (Cons a ks)
  then obtain q where q: "C a = Some q" by auto
  show ?case
  proof (cases "Address q = Address p \<and> ID q = ID p")
    case True
    then show ?thesis using Cons q assms(2) by (simp add: ch_forward_def Equals_def)
  next
    case False
    then have "ch_forward (Suc n) e c (C a) = Some (route False e (C a) (c_message c) (Some (c_pid c)), Inr ())" "Equals (C a) (Some p) = Inr False"
      using q assms(1,2) by (auto simp: ch_forward_def Equals_def Forward_def SendWithSender_def send_ok simp del: send.simps)
    then show ?thesis using Cons by simp
  qed
qed (simp add: act_ret_def)

lemma ch_message:
  assumes "ch_rel N (C, A) s" "es_ok e" "ord_fit ord" "c_sender c = Some p" "c_message c = User (ChatMessage u t)"
  shows "\<exists>ks. distinct ks \<and> set ks = {a. \<exists>q. C a = Some q \<and> Equals (Some q) (Some p) = Inr False} \<and>
    ch_Receive ord (Suc n) e c s = Some (concat (map (\<lambda>a. route False e (C a) (User (ChatMessage u t)) (Some (c_pid c))) ks), Inr s)"
proof -
  let ?ks = "ord (ch_clients s)" and ?f = "\<lambda>a. Equals (C a) (Some p) = Inr False"
  have ok: "gm_ok (ch_clients s)" "gm_get (ch_clients s) = (\<lambda>a. map_option Some (C a))" using assms(1) by (simp_all add: ch_rel_def)
  then have ks: "distinct ?ks" "set ?ks = dom C" using assms(3) ch_keys [OF assms(1)] by (simp_all add: ord_fit_def gm_order_def)
  have "gm_range (ch_clients s) ks = map (\<lambda>a. (a, C a)) ks" if "set ks \<subseteq> dom C" for ks
    using that by (induction ks) (auto simp: ok(2))
  then have range: "gm_range (ch_clients s) ?ks = map (\<lambda>a. (a, C a)) ?ks" using ks(2) by simp
  have "ch_Receive ord (Suc n) e c s = Some (concat (map (\<lambda>a. route False e (C a) (User (ChatMessage u t)) (Some (c_pid c))) (filter ?f ?ks)), Inr s)"
    using ch_forward_each [OF assms(2,4), of ?ks C n] ks(2) assms(5)
    by (simp add: ch_Receive_def ch_handleMessage_def c_Message_def Let_def range act_ret_def domIff)
  moreover have "set (filter ?f ?ks) = {a. \<exists>q. C a = Some q \<and> Equals (Some q) (Some p) = Inr False}" using ks(2) by auto
  ultimately show ?thesis using ks(1) by (intro exI [of _ "filter ?f ?ks"]) simp
qed

lemma ch_step:
  assumes "ch_rel N (C, A) s" "es_ok e" "ch_input N (p, m, ord)" "chat_spec (C, A) ((p, m, ord) # ms) = Some r"
    "c_message c = User m" "c_sender c = Some p"
  shows "\<exists>cs s' C' A'. ch_Receive ord (Suc n) e c s = Some (cs, Inr s') \<and> ch_rel N (C', A') s' \<and> chat_spec (C', A') ms = Some r"
proof (cases m)
  case ChatDisconnect
  obtain q where q: "C (Address p) = Some q" using assms(4) ChatDisconnect by (auto split: if_splits)
  then have "Address p \<in> gm_keys (ch_users s)" using assms(1) by (auto simp: ch_rel_def)
  then obtain u where u: "gm_get (ch_users s) (Address p) = Some u" using gm_get_None_iff [of "ch_users s" "Address p"] by auto
  let ?s = "s\<lparr>ch_clients := gm_del (Address p) (ch_clients s), ch_users := gm_del u (ch_users s)\<rparr>"
  have "u \<notin> N" using assms(1) u by (auto simp: ch_rel_def)
  then have "ch_rel N (C(Address p := None), A) ?s" using assms(1) by (auto simp: ch_rel_def fun_eq_iff)
  moreover have "ch_Receive ord (Suc n) e c s = Some ([], Inr ?s)"
    using assms(1,5,6) ChatDisconnect q u by (simp add: ch_Receive_def c_Message_def GetAddress_def act_ret_def ch_rel_def Let_def)
  ultimately show ?thesis using assms(4) ChatDisconnect q by auto
next
  case (ChatConnect u)
  have keys: "gm_keys (ch_clients s) = dom C" "gm_keys (ch_users s) = A" using ch_keys [OF assms(1)] assms(1) by (auto simp: ch_rel_def)
  show ?thesis
  proof (cases "Address p \<in> A")
    case True
    then have "ch_Receive ord (Suc n) e c s = Some ([], Inr s)"
      using assms(5,6) ChatConnect keys by (simp add: ch_Receive_def c_Message_def GetAddress_def act_ret_def Let_def)
    then show ?thesis using assms(1,4) ChatConnect True by auto
  next
    case False
    let ?s = "s\<lparr>ch_clients := gm_set (Address p) (Some p) (ch_clients s), ch_users := gm_set (Address p) u (ch_users s)\<rparr>"
    have "Address p \<notin> dom C" using False assms(1) by (auto simp: ch_rel_def)
    then have "ch_Receive ord (Suc n) e c s = Some ([], Inr ?s)"
      using assms(5,6) ChatConnect keys False by (simp add: ch_Receive_def c_Message_def GetAddress_def act_ret_def Let_def)
    moreover have "ch_rel N (C(Address p \<mapsto> p), insert (Address p) A) ?s"
      using assms(1,3) ChatConnect by (auto simp: ch_rel_def fun_eq_iff)
    ultimately show ?thesis using assms(4) ChatConnect False by auto
  qed
next
  case (ChatMessage u t)
  then show ?thesis using ch_message [OF assms(1,2) _ assms(6), of ord u t n] assms(1,3,4,5) by auto
qed

lemma ch_run_ok:
  assumes "ch_rel N (C, A) s" "es_ok e" "list_all (ch_input N) ms" "chat_spec (C, A) ms = Some (C', A')"
  shows "\<exists>cs s'. ch_run (Suc n) ms c e s = Some (cs, Inr s') \<and> ch_rel N (C', A') s'"
  using assms
proof (induction ms arbitrary: C A s)
  case (Cons x ms)
  obtain p m ord where x: "x = (p, m, ord)" by (cases x) auto
  have i: "ch_input N (p, m, ord)" and w: "chat_spec (C, A) ((p, m, ord) # ms) = Some (C', A')" using Cons.prems(3,4) x by auto
  obtain cs s1 C1 A1 where 1: "ch_Receive ord (Suc n) e (c\<lparr>c_message := User m, c_sender := Some p\<rparr>) s = Some (cs, Inr s1)"
      "ch_rel N (C1, A1) s1" "chat_spec (C1, A1) ms = Some (C', A')"
    using ch_step [OF Cons.prems(1,2) i w, of "c\<lparr>c_message := User m, c_sender := Some p\<rparr>" n] by auto
  then show ?case using Cons.IH [OF 1(2) Cons.prems(2) _ 1(3)] Cons.prems(3) x by auto
qed (simp add: act_ret_def)

text \<open>C32: 
  C0: over any sequence of connections, messages and disconnects of connected clients, with user names that are not client addresses, the chat server
  does what the table of clients by address says: a connection from an address that has ever connected is refused, even after a
  disconnect, because the name of the user is deleted where the address is meant; and a message is then forwarded exactly once to each connected
  client other than its sender, and to nobody else.
\<close>
theorem chat_server_refines:
  fixes c :: "(chmsg, 's) Context"
  assumes "es_ok e" "list_all (ch_input N) ms" "chat_spec (Map.empty, {}) ms = Some (C, A)" "ord_fit ord"
  shows "\<exists>cs s ks. ch_run (Suc n) ms c e ch_newServer = Some (cs, Inr s) \<and>
    (\<forall>a. gm_get (ch_clients s) a = map_option Some (C a)) \<and> gm_keys (ch_users s) = A \<and>
    distinct ks \<and> set ks = {a. \<exists>q. C a = Some q \<and> Equals (Some q) (Some p) = Inr False} \<and>
    ch_Receive ord (Suc n) e (c\<lparr>c_message := User (ChatMessage u t), c_sender := Some p\<rparr>) s =
      Some (concat (map (\<lambda>a. route False e (C a) (User (ChatMessage u t)) (Some (c_pid c))) ks), Inr s)"
proof -
  have "ch_rel N (Map.empty, {}) ch_newServer" by (simp add: ch_rel_def ch_newServer_def fun_eq_iff)
  from ch_run_ok [OF this assms(1-3), where n = n and c = c] obtain cs s where
    s: "ch_run (Suc n) ms c e ch_newServer = Some (cs, Inr s)" "ch_rel N (C, A) s" by blast
  from ch_message [OF s(2) assms(1,4), of "c\<lparr>c_message := User (ChatMessage u t), c_sender := Some p\<rparr>" p u t n] s
  show ?thesis by (auto simp: ch_rel_def)
qed

text \<open>A disconnect of a client that is not connected reads the address of a nil pointer.\<close>

lemma unknown_disconnect_panics:
  "gm_get (ch_clients s) (GetAddress (c_sender c)) = None \<Longrightarrow> c_message c = User ChatDisconnect \<Longrightarrow>
    ch_Receive ord n e c s = Some ([], Inl NilDeref)"
  by (simp add: ch_Receive_def c_Message_def Let_def act_go_def)

definition chat_pid :: "string \<Rightarrow> PID" where
  "chat_pid a = NewPID a ''client/c''"

definition chat_demo :: "chat_in list" where
  "chat_demo = map (\<lambda>(a, m). (chat_pid a, m, map fst)) [(''h1'', ChatConnect ''ann''), (''h2'', ChatConnect ''bob''), (''h1'', ChatDisconnect), (''h1'', ChatConnect ''ann'')]"

definition chat_engine :: Engine where
  "chat_engine = \<lparr>e_Registry = \<lparr>rg_lookup = []\<rparr>, e_address = ''h0'', e_remote = True, e_eventStream = None\<rparr>"

theorem chat_server_refines_witness:
  "\<exists>cs s ks. ch_run 1 chat_demo (newContext 0 (NewPID ''h0'' ''server/primary'') :: (chmsg, unit) Context) chat_engine ch_newServer = Some (cs, Inr s) \<and>
    gm_get (ch_clients s) ''h1'' = None \<and> gm_keys (ch_users s) = {''h1'', ''h2''} \<and> set ks = {''h2''}"
proof -
  have e: "es_ok chat_engine" by (simp add: es_ok_def chat_engine_def)
  have ord: "ord_fit (map fst)" by (simp add: ord_fit_def gm_order_ex)
  then have ms: "list_all (ch_input {''h1'', ''h2''}) chat_demo" by (simp add: chat_demo_def chat_pid_def NewPID_def)
  have spec: "chat_spec (Map.empty, {}) chat_demo = Some ([''h2'' \<mapsto> chat_pid ''h2''], {''h1'', ''h2''})"
    by (simp add: chat_demo_def chat_pid_def NewPID_def fun_eq_iff insert_commute)
  have "{a. \<exists>q. [''h2'' \<mapsto> chat_pid ''h2''] a = Some q \<and> Equals (Some q) (Some (chat_pid ''h1'')) = Inr False} = {''h2''}"
    by (auto simp: chat_pid_def NewPID_def Equals_def)
  note chat_server_refines [OF e ms spec ord, of 0 "newContext 0 (NewPID ''h0'' ''server/primary'')" "chat_pid ''h1''" "''ann''" "''hi''", unfolded this]
  then obtain cs s ks where "ch_run 1 chat_demo (newContext 0 (NewPID ''h0'' ''server/primary'') :: (chmsg, unit) Context) chat_engine ch_newServer = Some (cs, Inr s)"
    "\<forall>a. gm_get (ch_clients s) a = map_option Some ([''h2'' \<mapsto> chat_pid ''h2''] a)" "gm_keys (ch_users s) = {''h1'', ''h2''}" "set ks = {''h2''}"
    unfolding One_nat_def by (elim exE conjE)
  then show ?thesis by (intro exI [of _ cs] exI [of _ s] exI [of _ ks]) simp
qed

end
