(* ===== verification/Tcp.thy ===== *)
theory Tcp
  imports Action
begin

text \<open>
  The TCP server of \<^verbatim>\<open>src/examples/tcpserver/main.go\<close>: a server actor that accepts connections, a session actor per
  connection that reads it, and one handler, to which the sessions send what they read. Connections and listeners are numbers;
  what the network answers (the listener, the connections accepted, the bytes read) is an argument.
\<close>

datatype tcpmsg =
    TcpBytes "byte list"
  | ConnAdd "pidptr option" nat
  | ConnRem "pidptr option"

subsection \<open>The handler and the sessions\<close>

definition newHandler :: "nat \<Rightarrow> tcpmsg any + unit" where
  "newHandler = (\<lambda>_. Inr ())"

record tcp_session =
  ss_conn :: nat
  ss_reading :: bool      \<comment> \<open>the goroutine of \<^verbatim>\<open>readLoop\<close> was started\<close>
  ss_closed :: bool       \<comment> \<open>the connection was closed\<close>

definition newSession :: "nat \<Rightarrow> nat \<Rightarrow> tcpmsg any + tcp_session" where
  "newSession conn = (\<lambda>_. Inr \<lparr>ss_conn = conn, ss_reading = False, ss_closed = False\<rparr>)"

definition ss_Receive :: "(tcpmsg, 's) Context \<Rightarrow> tcp_session \<Rightarrow> tcp_session" where
  "ss_Receive c s =
     (case c_Message c of
        Started \<Rightarrow> s\<lparr>ss_reading := True\<rparr>
      | Stopped \<Rightarrow> s\<lparr>ss_closed := True\<rparr>
      | _ \<Rightarrow> s)"

text \<open>The reads of a connection, each with the engine at that time: the bytes read and the error, if any. The result is whether the loop has ended;
  if not, it waits for the next read. \<open>loc\<close> is the location of the session's PID.\<close>

fun ss_readLoop :: "nat \<Rightarrow> nat \<Rightarrow> (tcpmsg, 's) Context \<Rightarrow> (Engine \<times> byte list \<times> string option) list \<Rightarrow> (tcpmsg, bool) action" where
  "ss_readLoop n loc c [] = act_ret False"
| "ss_readLoop n loc c ((e, bs, None) # rs) =
     act_bind (act_go (Child (Parent c) ''handler/default'')) (\<lambda>pid.
     act_bind (act_do (c_Send n e c (Some pid) (User (TcpBytes bs))) ()) (\<lambda>_. ss_readLoop n loc c rs))"
| "ss_readLoop n loc c ((e, bs, Some err) # rs) =
     act_do (c_Send n e c (Parent c) (User (ConnRem (Some (PidPtr loc (c_PID c)))))) True"

subsection \<open>The server\<close>

record tcp_server =
  sv_listenAddr :: string
  sv_ln :: "nat option"
  sv_accepting :: bool    \<comment> \<open>the goroutine of \<^verbatim>\<open>acceptLoop\<close> was started\<close>
  sv_sessions :: "(pidptr option, nat) gomap"

definition tcp_newServer :: "string \<Rightarrow> nat \<Rightarrow> tcpmsg any + tcp_server" where
  "tcp_newServer listenAddr = (\<lambda>_. Inr \<lparr>sv_listenAddr = listenAddr, sv_ln = None, sv_accepting = False, sv_sessions = []\<rparr>)"

definition tcp_spawn ::
    "nat \<Rightarrow> Engine \<Rightarrow> nat \<Rightarrow> (nat \<Rightarrow> tcpmsg any + 'r) \<Rightarrow> string \<Rightarrow> string \<Rightarrow> (tcpmsg, 's) Context \<Rightarrow> (tcpmsg, PID \<times> (tcpmsg, 's) Context \<times> Engine) action" where
  "tcp_spawn n e obj p name i c =
     (case (SpawnChild n e obj 0 p name [WithID i] c :: ((tcpmsg, 'r, unit) spawned \<times> (tcpmsg, 's) Context) go option) of
        None \<Rightarrow> None
      | Some (Inl ex) \<Rightarrow> Some ([], Inl ex)
      | Some (Inr (sp, c')) \<Rightarrow> Some (sp_calls sp, Inr (sp_pid sp, c', sp_engine sp)))"

definition sv_Receive ::
    "(string \<Rightarrow> string + nat) \<Rightarrow> nat \<Rightarrow> Engine \<Rightarrow> nat \<Rightarrow> (tcpmsg, 's) Context \<Rightarrow> tcp_server \<Rightarrow>
     (tcpmsg, tcp_server \<times> (tcpmsg, 's) Context \<times> Engine) action" where
  "sv_Receive listen n e obj c s =
     (case c_Message c of
        Initialized \<Rightarrow>
          (case listen (sv_listenAddr s) of
             Inl err \<Rightarrow> act_go (Inl (PanicErr err))
           | Inr ln \<Rightarrow> act_bind (tcp_spawn n e obj newHandler ''handler'' ''default'' c) (\<lambda>(_, c, e). act_ret (s\<lparr>sv_ln := Some ln\<rparr>, c, e)))
      | Started \<Rightarrow> act_ret (s\<lparr>sv_accepting := True\<rparr>, c, e)
      | User (ConnAdd pid conn) \<Rightarrow> act_ret (s\<lparr>sv_sessions := gm_set pid conn (sv_sessions s)\<rparr>, c, e)
      | User (ConnRem pid) \<Rightarrow> act_ret (s\<lparr>sv_sessions := gm_del pid (sv_sessions s)\<rparr>, c, e)
      | _ \<Rightarrow> act_ret (s, c, e))"

text \<open>What \<^verbatim>\<open>Accept\<close> returns: an error, or a connection and its remote address, with the object and the location of the session to come.
  The result is whether the loop has ended.\<close>

fun sv_acceptLoop ::
    "nat \<Rightarrow> (string + nat \<times> string \<times> nat \<times> nat) list \<Rightarrow> (tcpmsg, 's) Context \<Rightarrow> Engine \<Rightarrow> (tcpmsg, bool \<times> (tcpmsg, 's) Context \<times> Engine) action" where
  "sv_acceptLoop n [] c e = act_ret (False, c, e)"
| "sv_acceptLoop n (Inl err # cs) c e = act_ret (True, c, e)"
| "sv_acceptLoop n (Inr (conn, addr, obj, loc) # cs) c e =
     act_bind (tcp_spawn n e obj (newSession conn) ''session'' addr c) (\<lambda>(pid, c, e).
     act_bind (act_do (c_Send n e c (Some (c_PID c)) (User (ConnAdd (Some (PidPtr loc pid)) conn))) ()) (\<lambda>_. sv_acceptLoop n cs c e))"

lemma tcp_spawn_ok:
  assumes "eng_ok e" "i \<noteq> []" "pid = NewPID (e_address e) (ID (c_pid c) @ pidSeparator @ name @ pidSeparator @ i)"
  shows "\<exists>c'. tcp_spawn (Suc n) e obj p name i c =
      Some (if rg_getByID (e_Registry e) (ID pid) = None then [ProcStart (proc_ref obj pid)] else to_stream e (ActorDuplicateIdEvent (Some pid)),
        Inr (pid, c', eng_step (Enter (proc_ref obj pid)) e)) \<and> c_pid c' = c_pid c"
proof -
  have "es_ok e" using assms(1) by (simp add: eng_ok_def)
  from SpawnChild_id [OF this assms(3,2), where 'e = unit and n = n and obj = obj and rnd = 0 and p = p] show ?thesis
    by (auto simp: tcp_spawn_def simp del: eng_step.simps)
qed

text \<open>Accepting connections keeps what is registered.\<close>

lemma sv_acceptLoop_ok:
  assumes "eng_ok e" "list_all (\<lambda>(_, addr, _). addr \<noteq> []) conns" "rg_getByID (e_Registry e) i \<noteq> None"
  shows "\<exists>cs c' e'. sv_acceptLoop (Suc n) (map Inr conns) c e = Some (cs, Inr (False, c', e')) \<and>
    c_pid c' = c_pid c \<and> eng_ok e' \<and> e_address e' = e_address e \<and> rg_getByID (e_Registry e') i = rg_getByID (e_Registry e) i"
  using assms
proof (induction conns arbitrary: c e)
  case (Cons x conns)
  obtain conn addr obj loc where x: "x = (conn, addr, obj, loc)" by (cases x) auto
  define pid where "pid = NewPID (e_address e) (ID (c_pid c) @ pidSeparator @ ''session'' @ pidSeparator @ addr)"
  let ?e = "eng_step (Enter (proc_ref obj pid)) e"
  have addr: "addr \<noteq> []" using Cons.prems(2) x by simp
  obtain cs c1 where 1: "tcp_spawn (Suc n) e obj (newSession conn) ''session'' addr c = Some (cs, Inr (pid, c1, ?e))" "c_pid c1 = c_pid c"
    using tcp_spawn_ok [OF Cons.prems(1) addr pid_def, of n obj "newSession conn"] by blast
  have e: "eng_ok ?e" "rg_getByID (e_Registry ?e) i = rg_getByID (e_Registry e) i" "e_address ?e = e_address e"
    using eng_step_ok [OF Cons.prems(1), of "Enter (proc_ref obj pid)"] rg_find_step(2) [of "e_Registry e" i] Cons.prems(1,3) by (auto simp: eng_ok_def)
  then have "es_ok ?e" by (simp add: eng_ok_def)
  then have "\<exists>cs'. c_Send (Suc n) ?e c1 (Some (c_PID c1)) (User (ConnAdd (Some (PidPtr loc pid)) conn)) = Some cs'"
    by (simp add: c_Send_def SendWithSender_def send_ok del: send.simps eng_step.simps)
  then obtain cs' where "c_Send (Suc n) ?e c1 (Some (c_PID c1)) (User (ConnAdd (Some (PidPtr loc pid)) conn)) = Some cs'" by blast
  moreover obtain cs'' c' e' where "sv_acceptLoop (Suc n) (map Inr conns) c1 ?e = Some (cs'', Inr (False, c', e'))"
      "c_pid c' = c_pid c1" "eng_ok e'" "e_address e' = e_address ?e" "rg_getByID (e_Registry e') i = rg_getByID (e_Registry ?e) i"
    using Cons.IH [OF e(1), of c1] e(2) Cons.prems(2,3) x by auto
  ultimately show ?case using 1 e(2,3) x by (simp del: eng_step.simps)
qed (simp add: act_ret_def)

lemma ss_readLoop_chunks:
  assumes "es_ok e" "Parent k = Some p" "Address p = e_address e" "hid = ID p @ ''/handler/default''"
    "rg_getByID (e_Registry e) hid = Some h"
  shows "ss_readLoop (Suc n) loc k (map (\<lambda>b. (e, b, None)) bss @ [(e, b, Some err)]) =
    Some (map (\<lambda>b. ProcSend h (Some (NewPID (Address p) hid)) (User (TcpBytes b)) (Some (c_pid k))) bss @
        route False e (Some p) (User (ConnRem (Some (PidPtr loc (c_pid k))))) (Some (c_pid k)), Inr True)"
proof (induction bss)
  case Nil
  show ?case using assms(1,2) by (simp add: c_Send_def SendWithSender_def send_ok c_PID_def del: send.simps)
next
  case (Cons a bss)
  have "c_Send (Suc n) e k (Some (NewPID (Address p) hid)) (User (TcpBytes a)) = Some [ProcSend h (Some (NewPID (Address p) hid)) (User (TcpBytes a)) (Some (c_pid k))]"
    using assms(1,3,5) by (simp add: c_Send_def SendWithSender_def send_ok route_def NewPID_def rg_getByID_def del: send.simps)
  moreover have "Child (Parent k) ''handler/default'' = Inr (NewPID (Address p) hid)" using assms(2,4) by (simp add: Child_def pidSeparator_def)
  ultimately show ?case using Cons by simp
qed

text \<open>C30: 
  C0: a server actor that is initialized starts one handler, and after it has accepted any connections, every chunk that any of its sessions reads
  reaches that handler, in the order it was read and with the session as its sender; when reading fails the session tells the server and its loop ends.
\<close>
theorem tcp_chunks_reach_handler:
  fixes c k :: "(tcpmsg, 's) Context"
  assumes "eng_ok e" "listen (sv_listenAddr s) = Inr ln" "Address (c_pid c) = e_address e"
    "hpid = NewPID (e_address e) (ID (c_pid c) @ ''/handler/default'')" "rg_getByID (e_Registry e) (ID hpid) = None"
    "list_all (\<lambda>(_, addr, _). addr \<noteq> []) conns" "Parent k = Some (c_pid c)"
  shows "\<exists>c1 e1 cs c2 e2. sv_Receive listen (Suc n) e obj (c\<lparr>c_message := Initialized\<rparr>) s =
      Some ([ProcStart (proc_ref obj hpid)], Inr (s\<lparr>sv_ln := Some ln\<rparr>, c1, e1)) \<and>
    sv_acceptLoop (Suc n) (map Inr conns) c1 e1 = Some (cs, Inr (False, c2, e2)) \<and>
    ss_readLoop (Suc n) loc k (map (\<lambda>b. (e2, b, None)) bss @ [(e2, [], Some err)]) =
      Some (map (\<lambda>b. ProcSend (proc_ref obj hpid) (Some hpid) (User (TcpBytes b)) (Some (c_pid k))) bss @
        route False e2 (Some (c_pid c)) (User (ConnRem (Some (PidPtr loc (c_pid k))))) (Some (c_pid k)), Inr True)"
proof -
  let ?c = "c\<lparr>c_message := Initialized\<rparr>" and ?e = "eng_step (Enter (proc_ref obj hpid)) e"
  have h: "hpid = NewPID (e_address e) (ID (c_pid ?c) @ pidSeparator @ ''handler'' @ pidSeparator @ ''default'')"
    by (simp add: assms(4) pidSeparator_def)
  obtain c1 where 1: "tcp_spawn (Suc n) e obj newHandler ''handler'' ''default'' ?c = Some ([ProcStart (proc_ref obj hpid)], Inr (hpid, c1, ?e))"
    using tcp_spawn_ok [OF assms(1) _ h, of n obj newHandler] assms(5) by auto
  have e: "eng_ok ?e" "e_address ?e = e_address e" using eng_step_ok [OF assms(1), of "Enter (proc_ref obj hpid)"] by auto
  have hr: "rg_getByID (e_Registry ?e) (ID hpid) = Some (proc_ref obj hpid)"
    using assms(5) by (simp add: rg_add_def rg_getByID_def proc_ref_def)
  then have "rg_getByID (e_Registry ?e) (ID hpid) \<noteq> None" by simp
  from sv_acceptLoop_ok [OF e(1) assms(6) this, where n = n and c = c1] obtain cs c2 e2 where
    2: "sv_acceptLoop (Suc n) (map Inr conns) c1 ?e = Some (cs, Inr (False, c2, e2))" "eng_ok e2" "e_address e2 = e_address e"
      "rg_getByID (e_Registry e2) (ID hpid) = Some (proc_ref obj hpid)" unfolding hr e(2) by blast
  have "sv_Receive listen (Suc n) e obj ?c s = Some ([ProcStart (proc_ref obj hpid)], Inr (s\<lparr>sv_ln := Some ln\<rparr>, c1, ?e))"
    using 1 assms(2) by (simp add: sv_Receive_def c_Message_def act_ret_def del: eng_step.simps)
  moreover have "ID hpid = ID (c_pid c) @ ''/handler/default''" "NewPID (Address (c_pid c)) (ID hpid) = hpid" using assms(3,4) by (simp_all add: NewPID_def)
  ultimately show ?thesis using 2 assms(3,7) ss_readLoop_chunks [of e2 k "c_pid c" "ID hpid" "proc_ref obj hpid" n loc bss "[]" err]
    by (intro exI conjI) (auto simp: eng_ok_def)
qed

definition tcp_engine :: Engine where
  "tcp_engine = \<lparr>e_Registry = newRegistry, e_address = ''local'', e_remote = False, e_eventStream = None\<rparr>"

definition tcp_pid :: PID where
  "tcp_pid = NewPID ''local'' ''server/7''"

definition tcp_ctx :: "(tcpmsg, unit) Context" where
  "tcp_ctx = newContext 0 tcp_pid"

definition tcp_kid :: "(tcpmsg, unit) Context" where
  "tcp_kid = (newContext 0 (NewPID ''local'' ''server/7/session/h:1''))\<lparr>c_parentCtx := Some tcp_pid\<rparr>"

theorem tcp_chunks_reach_handler_witness:
  "\<exists>c1 e1 cs c2 e2. sv_Receive (\<lambda>_. Inr 3) 1 tcp_engine 4 (tcp_ctx\<lparr>c_message := Initialized\<rparr>) (projr (tcp_newServer '':6000'' 0)) =
      Some ([ProcStart (proc_ref 4 (NewPID ''local'' ''server/7/handler/default''))], Inr ((projr (tcp_newServer '':6000'' 0))\<lparr>sv_ln := Some 3\<rparr>, c1, e1)) \<and>
    sv_acceptLoop 1 [Inr (1, ''h:1'', 5, 6)] c1 e1 = Some (cs, Inr (False, c2, e2)) \<and>
    ss_readLoop 1 6 tcp_kid [(e2, [7, 8], None), (e2, [9], None), (e2, [], Some ''EOF'')] =
      Some (map (\<lambda>b. ProcSend (proc_ref 4 (NewPID ''local'' ''server/7/handler/default'')) (Some (NewPID ''local'' ''server/7/handler/default''))
          (User (TcpBytes b)) (Some (c_pid tcp_kid))) [[7, 8], [9]] @
        route False e2 (Some tcp_pid) (User (ConnRem (Some (PidPtr 6 (c_pid tcp_kid))))) (Some (c_pid tcp_kid)), Inr True)"
proof -
  let ?h = "NewPID ''local'' ''server/7/handler/default''" and ?s = "projr (tcp_newServer '':6000'' 0)"
  have e: "eng_ok tcp_engine" by (simp add: eng_ok_def rg_ok_def gm_ok_def es_ok_def tcp_engine_def newRegistry_def)
  have c: "Address (c_pid tcp_ctx) = e_address tcp_engine" "?h = NewPID (e_address tcp_engine) (ID (c_pid tcp_ctx) @ ''/handler/default'')"
    "rg_getByID (e_Registry tcp_engine) (ID ?h) = None" "Parent tcp_kid = Some (c_pid tcp_ctx)"
    by (simp_all add: tcp_engine_def tcp_ctx_def tcp_kid_def tcp_pid_def newContext_def NewPID_def newRegistry_def rg_getByID_def Parent_def)
  have conns: "list_all (\<lambda>(_, addr, _). addr \<noteq> []) [(1 :: nat, ''h:1'', 5 :: nat, 6 :: nat)]" by simp
  have "c_pid tcp_ctx = tcp_pid" by (simp add: tcp_ctx_def newContext_def)
  note tcp_chunks_reach_handler [where listen = "\<lambda>_. Inr 3" and s = ?s and ln = 3 and n = 0 and obj = 4 and loc = 6 and bss = "[[7, 8], [9]]" and err = "''EOF''",
    OF e refl c(1-3) conns c(4), unfolded this list.map append.simps One_nat_def [symmetric]]
  then show ?thesis by simp
qed

text \<open>A session is not stopped when its connection fails, so its ID stays taken: the session of a second connection from the same address is not started
  and nothing reads that connection.\<close>

lemma tcp_reconnect_unread:
  assumes "eng_ok e" "addr \<noteq> []" "pid = NewPID (e_address e) (ID (c_pid c) @ ''/session/'' @ addr)" "rg_getByID (e_Registry e) (ID pid) \<noteq> None"
  shows "\<exists>c' e'. sv_acceptLoop (Suc n) [Inr (conn, addr, obj, loc)] c e =
    Some (to_stream e (ActorDuplicateIdEvent (Some pid)) @ route False e' (Some (c_pid c)) (User (ConnAdd (Some (PidPtr loc pid)) conn)) (Some (c_pid c)),
      Inr (False, c', e'))"
proof -
  let ?e = "eng_step (Enter (proc_ref obj pid)) e"
  have "pid = NewPID (e_address e) (ID (c_pid c) @ pidSeparator @ ''session'' @ pidSeparator @ addr)" by (simp add: assms(3) pidSeparator_def)
  from tcp_spawn_ok [OF assms(1,2) this, where n = n and obj = obj and p = "newSession conn"] obtain c' where
    "tcp_spawn (Suc n) e obj (newSession conn) ''session'' addr c = Some (to_stream e (ActorDuplicateIdEvent (Some pid)), Inr (pid, c', ?e))" "c_pid c' = c_pid c"
    using assms(4) by auto
  moreover have "es_ok ?e" using eng_step_ok [OF assms(1), of "Enter (proc_ref obj pid)"] by (simp add: eng_ok_def)
  ultimately show ?thesis
    by (simp add: c_Send_def SendWithSender_def send_ok c_PID_def act_ret_def del: send.simps eng_step.simps)
qed

end
