(* ===== verification/Process_Runs.thy ===== *)
theory Process_Runs
  imports Process
begin

text \<open>
  What can be said of whole runs of an actor, with all the restarts nested in them: every
  message of a batch is handed over once, enough fuel exists, the effects of stopping come in
  a fixed order, and what happens when nothing panics.
\<close>

subsection \<open>Every message once, across restarts\<close>

text \<open>The receiver survives being told that it is stopped.\<close>

definition stopped_ok :: "('u, 'r, 'e) env \<Rightarrow> bool" where
  "stopped_ok env \<longleftrightarrow> (\<forall>c v. c_message c = Stopped \<longrightarrow> snd (snd (env_receive env c)) \<noteq> Panicked v)"

lemma recv_stopped_ok:
  assumes "stopped_ok env" "has_recv p"
  shows "snd (recv_stopped env p) \<noteq> Panicked v"
proof -
  let ?c = "(p_context p)\<lparr>c_message := Stopped\<rparr>"
  have "snd (snd (env_receive env ?c)) \<noteq> Panicked v" using assms(1) by (simp add: stopped_ok_def)
  then show ?thesis using assms(2)
    by (auto simp: recv_stopped_def recv_plain_def call_recv_def has_recv_def set_message_def split: prod.splits)
qed

text \<open>\<open>xs\<close> is everything that has been or is still to be handed over.\<close>

definition once :: "'u Envelope list \<Rightarrow> ('u, 'r, 'e) result \<Rightarrow> bool" where
  "once xs r = (case r of
     (p, Returned) \<Rightarrow> invoked p = xs
   | (p, Panicked v) \<Rightarrow> invoked p @ p_mbuffer p = xs \<and> no_pills (p_mbuffer p)
   | (p, Blocked) \<Rightarrow> \<exists>ys. invoked p @ ys = xs)"


lemma once_frame:
  "frame p (fst r) \<Longrightarrow> snd r \<noteq> Returned \<Longrightarrow> no_pills (p_mbuffer p) \<Longrightarrow> once (invoked p @ p_mbuffer p) r"
  by (cases r) (auto simp: once_def frame_def split: outcome.split)

lemma once_prefix: "once xs r \<Longrightarrow> \<exists>ys. invoked (fst r) @ ys = xs"
  by (cases r) (auto simp: once_def split: outcome.splits)

lemma once_recovering:
  assumes "stopped_ok env" "recovering env f r = Some r'" "has_recv (fst r)"
    and "(\<And>v. snd r \<noteq> Panicked v) \<Longrightarrow> once xs r"
    and pre: "\<exists>ys. invoked (fst r) @ ys = xs"
    and "\<And>v q. snd r = Panicked v \<Longrightarrow> frame (fst r) q \<Longrightarrow> f v q = Some r' \<Longrightarrow> once xs r'"
  shows "once xs r'"
  using assms(2)
proof (cases rule: recovering_cases)
  case 1
  then show ?thesis using assms(4) by blast
next
  case (2 v q)
  then have "frame (fst r) q" using frame_recv_stopped [of "fst r" env] by simp
  then show ?thesis using assms(6) 2 by blast
next
  case (3 v)
  then have "frame (fst r) (fst r')" using frame_recv_stopped [of "fst r" env] by simp
  moreover have "snd r' = Blocked" using 3 recv_stopped_ok [OF assms(1,3)] by (cases "snd r'") auto
  ultimately show ?thesis using pre by (cases r') (auto simp: once_def frame_def)
qed

lemma once_Start:
  assumes "stopped_ok env"
    and I: "\<And>msgs p r. has_recv p \<Longrightarrow> no_pills msgs \<Longrightarrow> Invoke env n msgs p = Some r \<Longrightarrow> once (invoked p @ msgs) r"
    and T: "\<And>v p r. has_recv p \<Longrightarrow> no_pills (p_mbuffer p) \<Longrightarrow> tryRestart env n v p = Some r \<Longrightarrow>
      once (invoked p @ p_mbuffer p) r"
    and "no_pills (p_mbuffer p)" "Start env (Suc n) p = Some r"
  shows "once (invoked p @ p_mbuffer p) r"
proof -
  have restart: "once (invoked p @ p_mbuffer p) r"
    if r': "once (invoked p @ p_mbuffer p) r'" "has_recv (fst r')" "recovering env (tryRestart env n) r' = Some r" for r'
  proof (rule once_recovering [OF assms(1) r'(3,2,1) once_prefix [OF r'(1)]])
    fix v q assume v: "snd r' = Panicked v" "frame (fst r') q" "tryRestart env n v q = Some r"
    then have "invoked q @ p_mbuffer q = invoked p @ p_mbuffer p" "no_pills (p_mbuffer q)" "has_recv q"
      using r'(1,2) by (cases r'; simp add: once_def frame_def)+
    then show "once (invoked p @ p_mbuffer p) r" using T [OF _ _ v(3)] by simp
  qed
  show ?thesis using assms(5)
  proof (cases rule: Start_cases)
    case (1 v)
    then show ?thesis using assms(4) by (simp add: once_def)
  next
    case (2 recv q r')
    have f: "frame (set_receiver recv p) q" using frame_start_body [of "set_receiver recv p" env] 2(1) by simp
    then have q: "invoked q = invoked p" "p_mbuffer q = p_mbuffer p" "has_recv q" by (simp_all add: frame_def)
    have "once (invoked p @ p_mbuffer p) r' \<and> has_recv (fst r')" using 2(2)
    proof (cases rule: replay_cases)
      case (2 q')
      have "has_recv q'" using steady_run(2) [OF 2(1)] q(3) by (simp add: steady_def)
      then show ?thesis using I [OF q(3) _ 2(1)] assms(4) q 2 by (simp add: once_def invoked_emit)
    next
      case 3
      have "has_recv (fst r')" using steady_run(2) [OF 3(1)] q(3) by (simp add: steady_def)
      then show ?thesis using I [OF q(3) _ 3(1)] assms(4) q by simp
    qed (use q in \<open>simp add: once_def invoked_emit\<close>)
    then show ?thesis using restart 2(3) by blast
  next
    case (3 recv r')
    have f: "frame (set_receiver recv p) (fst r')" using frame_start_body [of "set_receiver recv p" env] 3(1) by simp
    then have "has_recv (fst r')" by (simp add: frame_def)
    moreover have "once (invoked p @ p_mbuffer p) r'" using once_frame [OF f 3(2)] assms(4) by simp
    ultimately show ?thesis using restart 3(3) by blast
  qed
qed

lemma once_Invoke:
  assumes "stopped_ok env"
    and T: "\<And>v p r. has_recv p \<Longrightarrow> no_pills (p_mbuffer p) \<Longrightarrow> tryRestart env n v p = Some r \<Longrightarrow>
      once (invoked p @ p_mbuffer p) r"
    and "has_recv p" "no_pills msgs" "Invoke env (Suc n) msgs p = Some r"
  shows "once (invoked p @ msgs) r"
proof -
  obtain r1 k where l: "invoke_loop env msgs 0 0 msgs p = (r1, k)" by fastforce
  then have "recovering env (\<lambda>v p. tryRestart env n v (p\<lparr>p_mbuffer := drop k msgs\<rparr>)) r1 = Some r"
    using assms(5) by simp
  moreover from invoke_loop_plain [OF assms(4), of env msgs 0 0 p "fst r1" "snd r1" k] l
  have pr: "progress (take k msgs) p (fst r1)" "snd r1 = Returned \<longrightarrow> k = length msgs" by auto
  then have i: "invoked (fst r1) = invoked p @ take k msgs" "has_recv (fst r1)"
    using assms(3) by (simp_all add: progress_def)
  moreover have "once (invoked p @ msgs) r1" if "\<And>v. snd r1 \<noteq> Panicked v"
    using that pr(2) i(1) by (cases r1; cases "snd r1") (auto simp: once_def intro: exI [of _ "drop k msgs"])
  moreover have "\<exists>ys. invoked (fst r1) @ ys = invoked p @ msgs" using i(1) by (auto intro: exI [of _ "drop k msgs"])
  moreover have "once (invoked p @ msgs) r"
    if "frame (fst r1) q" "tryRestart env n v (q\<lparr>p_mbuffer := drop k msgs\<rparr>) = Some r" for v q
    using T [OF _ _ that(2)] that(1) i no_pills_drop [OF assms(4), of k] by (simp add: frame_def)
  ultimately show ?thesis using once_recovering [OF assms(1)] by blast
qed

lemma once_tryRestart:
  assumes S: "\<And>p r. no_pills (p_mbuffer p) \<Longrightarrow> Start env n p = Some r \<Longrightarrow> once (invoked p @ p_mbuffer p) r"
    and "no_pills (p_mbuffer p)" "tryRestart env (Suc n) v p = Some r"
  shows "once (invoked p @ p_mbuffer p) r"
proof (cases "is_internal v")
  case True
  then show ?thesis using assms(2,3) S [of "emit (Sleep (o_RestartDelay (p_opts p))) p" r]
    by (simp add: tryRestart_internal invoked_emit del: tryRestart.simps(2))
next
  case False
  show ?thesis
  proof (cases "cleanTrace env (env_stack env (moment p))")
    case (Inr st)
    show ?thesis
    proof (cases "p_restarts p = o_MaxRestarts (p_opts p)")
      case True
      then show ?thesis using assms(2,3) False Inr once_frame [OF frame_max_restarts max_restarts_not_returned]
        by (auto simp: tryRestart_other simp del: tryRestart.simps(2))
    next
      case neq: False
      then have "Start env n (note_restart env v st p) = Some r"
        using assms(3) False Inr by (simp add: tryRestart_other del: tryRestart.simps(2))
      then show ?thesis using S [of "note_restart env v st p" r] assms(2) by simp
    qed
  qed (use assms(2,3) False in \<open>auto simp: tryRestart_other once_def simp del: tryRestart.simps(2)\<close>)
qed

lemma once_all:
  assumes "stopped_ok env"
  shows "(\<forall>p r. no_pills (p_mbuffer p) \<longrightarrow> Start env n p = Some r \<longrightarrow> once (invoked p @ p_mbuffer p) r) \<and>
    (\<forall>msgs p r. has_recv p \<longrightarrow> no_pills msgs \<longrightarrow> Invoke env n msgs p = Some r \<longrightarrow> once (invoked p @ msgs) r) \<and>
    (\<forall>v p r. no_pills (p_mbuffer p) \<longrightarrow> tryRestart env n v p = Some r \<longrightarrow> once (invoked p @ p_mbuffer p) r)"
proof (induction n)
  case (Suc n)
  then have S: "\<And>p r. no_pills (p_mbuffer p) \<Longrightarrow> Start env n p = Some r \<Longrightarrow> once (invoked p @ p_mbuffer p) r"
    and I: "\<And>msgs p r. has_recv p \<Longrightarrow> no_pills msgs \<Longrightarrow> Invoke env n msgs p = Some r \<Longrightarrow> once (invoked p @ msgs) r"
    and T: "\<And>v p r. no_pills (p_mbuffer p) \<Longrightarrow> tryRestart env n v p = Some r \<Longrightarrow> once (invoked p @ p_mbuffer p) r"
    by blast+
  show ?case
    by (intro conjI allI impI)
      ((rule once_Start [OF assms], erule (2) I, erule (1) T, assumption+),
        (rule once_Invoke [OF assms], erule (1) T, assumption+),
        (rule once_tryRestart, erule (1) S, assumption+))
qed simp


subsection \<open>Enough fuel\<close>

definition tame :: "('u, 'r, 'e) result \<Rightarrow> bool" where
  "tame r \<longleftrightarrow> (\<forall>v. snd r = Panicked v \<longrightarrow> \<not> is_internal v)"

text \<open>No receiver, middleware or producer of the actor panics with an \<^verbatim>\<open>*InternalError\<close>, which is
  the panic value that restarts without counting.\<close>

definition calm :: "('u, 'r, 'e) env \<Rightarrow> ('u, 'r, 'e) Opts \<Rightarrow> bool" where
  "calm env opts \<longleftrightarrow>
     (\<forall>c v. snd (snd (env_receive env c)) = Panicked v \<longrightarrow> \<not> is_internal v) \<and>
     (\<forall>c v. snd (snd (applyMiddleware (env_receive env) (o_Middleware opts) c)) = Panicked v \<longrightarrow> \<not> is_internal v) \<and>
     (\<forall>t v. o_Producer opts t = Inl v \<longrightarrow> \<not> is_internal v)"

lemma tame_simps [simp]: "tame (p, Returned)" "tame (p, Blocked)" "tame (p, Panicked v) = (\<not> is_internal v)"
  by (simp_all add: tame_def)

lemma tame_call_recv:
  "(\<And>v. snd (snd (f (p_context p))) = Panicked v \<Longrightarrow> \<not> is_internal v) \<Longrightarrow> tame (call_recv f p)"
  by (simp add: call_recv_def tame_def split: prod.split)

lemma tame_recv:
  assumes "calm env (p_opts p)"
  shows "tame (recv_plain env p)" "tame (recv_mw env p)"
  using assms by (simp_all add: calm_def recv_plain_def recv_mw_def tame_call_recv)

lemma tame_seq: "tame r \<Longrightarrow> (\<And>p. r = (p, Returned) \<Longrightarrow> tame (f p)) \<Longrightarrow> tame (seq r f)"
  by (cases r; cases "snd r") (auto simp: seq_def tame_def)

lemma tame_poison_all: "tame (poison_all env pids p)"
  by (induction pids arbitrary: p) (auto simp: Let_def)

lemma tame_cleanup:
  assumes "calm env (p_opts p)"
  shows "tame (cleanup env cancel p)"
proof -
  let ?p = "if c_parentCtx (p_context p) \<noteq> None then emit (ParentDelete (ID (p_pid p))) p else p"
  have "tame (cleanup_children env ?p)"
    by (auto simp: cleanup_children_def Let_def tame_poison_all split: sum.split)
  moreover have "p_opts q = p_opts p" if "cleanup_children env ?p = (q, o1)" for q o1
    using frame_cleanup_children [of ?p env] that by (auto simp: frame_def split: if_splits)
  ultimately have "tame (seq (cleanup_children env ?p) (\<lambda>p.
      let p = set_message Stopped (emit (RegistryRemove (p_pid p)) (emit InboxStop p)) in
      seq (recv_mw env p) (\<lambda>p.
        (emit (Broadcast (ActorStoppedEvent (Some (p_pid p)) (env_now env (moment p)))) p, Returned))))"
    using assms by (auto simp: Let_def intro!: tame_seq tame_recv)
  then show ?thesis unfolding cleanup_def Let_def
    by (auto simp: run_cancel_def tame_def split: prod.splits outcome.splits option.splits)
qed

lemma opts_recv_mw: "recv_mw env p = (q, o1) \<Longrightarrow> p_opts q = p_opts p"
  using frame_recv(2) [of p env] by (simp add: frame_def)

lemma tame_start_body:
  assumes "calm env (p_opts p)"
  shows "tame (start_body env p)"
proof -
  have "p_opts q = p_opts p" if "recv_mw env (set_message Initialized p) = (q, Returned)" for q
    using opts_recv_mw [OF that] by simp
  then show ?thesis unfolding start_body_def Let_def using assms
    by (intro tame_seq tame_recv) simp_all
qed

lemma tame_invokeMsg: "calm env (p_opts p) \<Longrightarrow> tame (invokeMsg env m p)"
  by (auto simp: invokeMsg_def Let_def intro!: tame_recv)

lemma opts_invokeMsg: "invokeMsg env m p = (q, o1) \<Longrightarrow> p_opts q = p_opts p"
  using steady_invokeMsg [of p env m] by (simp add: steady_def)

lemma tame_invoke_all: "calm env (p_opts p) \<Longrightarrow> tame (invoke_all env ms p)"
  by (induction ms arbitrary: p) (auto intro!: tame_seq tame_invokeMsg dest: opts_invokeMsg)

lemma tame_invoke_loop: "calm env (p_opts p) \<Longrightarrow> tame (fst (invoke_loop env msgs k j rest p))"
proof (induction rest arbitrary: k j p)
  case (Cons m rest)
  show ?case
  proof (cases "is_pill (Msg m)")
    case True
    then obtain c g where m: "Msg m = PoisonPill c g" by (rule is_pillE)
    let ?r = "if g then invoke_all env (drop j msgs) p else (p, Returned)"
    have "tame ?r" "p_opts (fst ?r) = p_opts p"
      using Cons.prems tame_invoke_all [of env p] steady_invoke_all [of p env "drop j msgs"] by (simp_all add: steady_def)
    then have "tame (seq ?r (cleanup env c))" using Cons.prems by (metis fst_conv tame_cleanup tame_seq)
    then show ?thesis by (simp add: invoke_loop_pill [OF m] del: invoke_loop.simps(2))
  next
    case False
    obtain q o1 where r: "invokeMsg env m p = (q, o1)" by fastforce
    then have "calm env (p_opts q)" "tame (q, o1)" using Cons.prems tame_invokeMsg [of env p m] opts_invokeMsg [OF r] by simp_all
    then show ?thesis using False r Cons.IH [of q "k + 1" "j + 1"]
      by (cases o1) (simp_all add: invoke_loop_msg del: invoke_loop.simps(2))
  qed
qed simp


definition runs :: "('u, 'r, 'e) result option \<Rightarrow> bool" where
  "runs x \<longleftrightarrow> (\<exists>r. x = Some r \<and> tame r)"

lemma runs_simps [simp]: "runs (Some r) = tame r" "\<not> runs None"
  by (simp_all add: runs_def)

lemma runs_recovering:
  assumes "calm env (p_opts (fst r))" "tame r"
    and "\<And>v q. snd r = Panicked v \<Longrightarrow> \<not> is_internal v \<Longrightarrow> frame (fst r) q \<Longrightarrow> runs (f v q)"
  shows "runs (recovering env f r)"
proof (cases "snd r")
  case (Panicked v)
  obtain q o1 where s: "recv_stopped env (fst r) = (q, o1)" by fastforce
  then have "frame (fst r) q" "tame (q, o1)"
    using frame_recv_stopped [of "fst r" env] tame_recv(1) [of env "set_message Stopped (fst r)"] assms(1)
    by (simp_all add: recv_stopped_def)
  then show ?thesis using Panicked assms(2,3) s
    by (cases r; cases o1) (simp_all add: recovering_def)
qed (use assms(2) in \<open>cases r; simp add: recovering_def\<close>)+

lemma runs_Start:
  assumes "calm env (p_opts p)" "budget p \<le> d"
    and I: "\<And>msgs q. p_opts q = p_opts p \<Longrightarrow> budget q \<le> d \<Longrightarrow> runs (Invoke env n msgs q)"
    and T: "\<And>v q. p_opts q = p_opts p \<Longrightarrow> budget q \<le> d \<Longrightarrow> \<not> is_internal v \<Longrightarrow> runs (tryRestart env n v q)"
  shows "runs (Start env (Suc n) p)"
proof (cases "o_Producer (p_opts p) (moment p)")
  case (Inl v)
  then show ?thesis using assms(1) by (simp add: calm_def)
next
  case (Inr recv)
  obtain q o1 where b: "start_body env (set_receiver recv p) = (q, o1)" by fastforce
  have q: "p_opts q = p_opts p" "budget q \<le> d"
    using steady_start_body [of p env recv] b assms(2) by (auto simp: steady_def)
  have rec: "runs (recovering env (tryRestart env n) r)" if "tame r" "p_opts (fst r) = p_opts p" "budget (fst r) \<le> d" for r
    using that assms(1) by (intro runs_recovering T) (auto simp: frame_def budget_def)
  have "tame (q, o1)" using tame_start_body [of env "set_receiver recv p"] assms(1) b by simp
  moreover have "runs (case replay (Invoke env n) q of None \<Rightarrow> None | Some r \<Rightarrow> recovering env (tryRestart env n) r)"
  proof (cases "p_mbuffer q = []")
    case False
    from I [OF q, of "p_mbuffer q"] obtain r where r: "Invoke env n (p_mbuffer q) q = Some r" "tame r"
      by (auto simp: runs_def)
    then have "p_opts (fst r) = p_opts p" "budget (fst r) \<le> d" using steady_run(2) [OF r(1)] q by (auto simp: steady_def)
    then show ?thesis using r False rec [of r] rec [of "(emit InboxStart ((fst r)\<lparr>p_mbuffer := []\<rparr>), Returned)"]
      by (cases r; cases "snd r") (simp_all add: replay_def seq_def budget_def)
  qed (use rec [of "(emit InboxStart q, Returned)"] q in \<open>simp add: replay_def seq_def budget_def\<close>)
  ultimately show ?thesis using b q rec [of "(q, o1)"] Inr by (cases o1) simp_all
qed

lemma runs_all:
  assumes "calm env opts"
  shows "(\<forall>p d. p_opts p = opts \<longrightarrow> budget p \<le> d \<longrightarrow> 3 * d + 3 \<le> n \<longrightarrow> runs (Start env n p)) \<and>
    (\<forall>msgs p d. p_opts p = opts \<longrightarrow> budget p \<le> d \<longrightarrow> 3 * d + 2 \<le> n \<longrightarrow> runs (Invoke env n msgs p)) \<and>
    (\<forall>v p d. p_opts p = opts \<longrightarrow> budget p \<le> d \<longrightarrow> 3 * d + 1 \<le> n \<longrightarrow> \<not> is_internal v \<longrightarrow> runs (tryRestart env n v p))"
proof (induction n)
  case (Suc n)
  then have S: "\<And>p d. p_opts p = opts \<Longrightarrow> budget p \<le> d \<Longrightarrow> 3 * d + 3 \<le> n \<Longrightarrow> runs (Start env n p)"
    and I: "\<And>msgs p d. p_opts p = opts \<Longrightarrow> budget p \<le> d \<Longrightarrow> 3 * d + 2 \<le> n \<Longrightarrow> runs (Invoke env n msgs p)"
    and T: "\<And>v p d. p_opts p = opts \<Longrightarrow> budget p \<le> d \<Longrightarrow> 3 * d + 1 \<le> n \<Longrightarrow> \<not> is_internal v \<Longrightarrow>
      runs (tryRestart env n v p)" by blast+
  have "runs (Start env (Suc n) p)" if "p_opts p = opts" "budget p \<le> d" "3 * d + 3 \<le> Suc n" for p d
    by (rule runs_Start [of _ _ d]) (use assms that I [of _ d] T [of _ d] in auto)
  moreover have "runs (Invoke env (Suc n) msgs p)" if "p_opts p = opts" "budget p \<le> d" "3 * d + 2 \<le> Suc n" for msgs p d
  proof -
    obtain r k where l: "invoke_loop env msgs 0 0 msgs p = (r, k)" by fastforce
    then have "tame r" "p_opts (fst r) = opts" "budget (fst r) \<le> d"
      using tame_invoke_loop [of env p msgs 0 0 msgs] steady_invoke_loop [of p env msgs 0 0 msgs] that assms
      by (auto simp: steady_def)
    then have "runs (recovering env (\<lambda>v p. tryRestart env n v (p\<lparr>p_mbuffer := drop k msgs\<rparr>)) r)"
      using assms that T [of _ d] by (intro runs_recovering) (auto simp: frame_def budget_def)
    then show ?thesis using l by simp
  qed
  moreover have "runs (tryRestart env (Suc n) v p)"
    if "p_opts p = opts" "budget p \<le> d" "3 * d + 1 \<le> Suc n" "\<not> is_internal v" for v p d
  proof (cases "p_restarts p = o_MaxRestarts (p_opts p)")
    case True
    have "tame (max_restarts_exceeded env p)" unfolding max_restarts_exceeded_def
      using assms that(1) by (intro tame_cleanup) simp
    then show ?thesis using True that by (simp add: tryRestart_other del: tryRestart.simps(2) split: sum.split)
  next
    case False
    have "budget (note_restart env v st p) \<le> d - 1" "1 \<le> d" for st
      using budget_note_restart [OF False, of env v st] that(2) by simp_all
    then have "runs (Start env n (note_restart env v st p))" for st
      using S [of "note_restart env v st p" "d - 1"] that by simp
    then show ?thesis using False that by (simp add: tryRestart_other del: tryRestart.simps(2) split: sum.split)
  qed
  ultimately show ?case by blast
qed simp


lemma runs_budget:
  "calm env (p_opts p) \<Longrightarrow> 3 * budget p + 3 \<le> n \<Longrightarrow> runs (Start env n p)"
  "calm env (p_opts p) \<Longrightarrow> 3 * budget p + 2 \<le> n \<Longrightarrow> runs (Invoke env n msgs p)"
  using runs_all [of env "p_opts p" n] by blast+

subsection \<open>Order of the effects\<close>

lemma trace_emit [simp]: "p_trace (emit ef p) = p_trace p @ [ef]"
  by (simp add: emit_def)

lemma trace_set [simp]:
  "p_trace (set_message m p) = p_trace p" "p_trace (set_sender x p) = p_trace p"
  "p_trace (set_receiver r p) = p_trace p"
  by (simp_all add: set_message_def set_sender_def set_receiver_def)

lemma trace_recv_mw: "\<exists>us. p_trace (fst (recv_mw env p)) = p_trace p @ map UserEff us"
  by (auto simp: recv_mw_def call_recv_def split: prod.split intro: exI [of _ "[]"])

lemma trace_poison_all:
  "poison_all env pids p = (q, o1) \<Longrightarrow>
     \<exists>n \<le> length pids. p_trace q = p_trace p @ map PoisonWait (take n pids) \<and> p_pid q = p_pid p \<and>
       (if o1 = Returned then n = length pids else o1 = Blocked)"
proof (induction pids arbitrary: p)
  case (Cons pid pids)
  show ?case
  proof (cases "env_done env (moment (emit (PoisonWait pid) p)) pid")
    case True
    then obtain n where "n \<le> length pids" "p_trace q = p_trace p @ [PoisonWait pid] @ map PoisonWait (take n pids)"
      "p_pid q = p_pid p" "if o1 = Returned then n = length pids else o1 = Blocked"
      using Cons.IH [of "emit (PoisonWait pid) p"] Cons.prems by (auto simp: Let_def)
    then show ?thesis by (intro exI [of _ "Suc n"]) auto
  next
    case False
    then show ?thesis using Cons.prems by (intro exI [of _ 1]) (auto simp: Let_def)
  qed
qed auto

text \<open>The children \<^verbatim>\<open>cleanup\<close> has to wait for.\<close>

definition kids_of :: "('u, 'r, 'e) env \<Rightarrow> ('u, 'r, 'e) process \<Rightarrow> (PID option list) go" where
  "kids_of env p =
     (if sm_Len (c_children (p_context p)) = 0 then Inr []
      else let kids = env_kids env (moment p) (c_children (p_context p))
           in Children (c_children (p_context p)) kids (env_order env (moment p) kids))"

lemma cleanup_children_kids:
  "cleanup_children env p = (case kids_of env p of
     Inl e \<Rightarrow> (p, Panicked (RuntimeError e)) | Inr children \<Rightarrow> poison_all env children p)"
  by (simp add: cleanup_children_def kids_of_def Let_def)

lemma Children_fits:
  assumes "length (gm_range (sm_data sm') ks) \<le> sm_Len sm"
  shows "Children sm sm' ks = Inr (map (Some \<circ> snd) (gm_range (sm_data sm') ks) @
    replicate (sm_Len sm - length (gm_range (sm_data sm') ks)) None)"
proof -
  have fill: "foldl (\<lambda>acc (k, v). go_bind acc (\<lambda>(i, pids). go_bind (go_store pids i (Some v)) (\<lambda>pids. Inr (i + 1, pids))))
      (Inr (int (length pre), pre @ replicate (length xs + m) None)) xs =
      Inr (int (length pre + length xs), pre @ map (Some \<circ> snd) xs @ replicate m None)"
    for pre m and xs :: "(string \<times> PID) list"
  proof (induction xs arbitrary: pre)
    case (Cons x xs)
    obtain k v where x: "x = (k, v)" by fastforce
    have "go_store (pre @ None # replicate (length xs + m) None) (int (length pre)) (Some v) =
        Inr ((pre @ [Some v]) @ replicate (length xs + m) None)"
      by (simp add: go_store_def list_update_append)
    then show ?case using Cons.IH [of "pre @ [Some v]"] x by (simp add: add.commute)
  qed simp
  from fill [of "[]" "gm_range (sm_data sm') ks" "sm_Len sm - length (gm_range (sm_data sm') ks)"] assms
  show ?thesis by (simp add: Children_def go_make_ok sm_ForEach_def)
qed


text \<open>The two halves of \<^verbatim>\<open>cleanup\<close>: leaving the parent before the children are stopped, and what
  follows.\<close>

definition left_parent :: "('u, 'r, 'e) process \<Rightarrow> ('u, 'r, 'e) process" where
  "left_parent p = (if c_parentCtx (p_context p) \<noteq> None then emit (ParentDelete (ID (p_pid p))) p else p)"

definition cleanup_self :: "('u, 'r, 'e) env \<Rightarrow> ('u, 'r, 'e) process \<Rightarrow> ('u, 'r, 'e) result" where
  "cleanup_self env p = seq (recv_mw env (set_message Stopped (emit (RegistryRemove (p_pid p)) (emit InboxStop p))))
     (\<lambda>p. (emit (Broadcast (ActorStoppedEvent (Some (p_pid p)) (env_now env (moment p)))) p, Returned))"

lemma cleanup_split:
  "cleanup env cancel p = run_cancel cancel (seq (cleanup_children env (left_parent p)) (cleanup_self env))"
  by (simp add: cleanup_def left_parent_def cleanup_self_def [abs_def] Let_def)

lemma trace_left_parent: "\<exists>es. p_trace (left_parent p) = p_trace p @ es" "p_pid (left_parent p) = p_pid p"
  by (auto simp: left_parent_def)

lemma trace_cleanup_children:
  "cleanup_children env p = (q, o1) \<Longrightarrow> \<exists>es. p_trace q = p_trace p @ es"
  by (auto simp: cleanup_children_kids split: sum.splits dest: trace_poison_all)

lemma cleanup_children_returned:
  "cleanup_children env (left_parent p) = (q, Returned) \<Longrightarrow>
     \<exists>kids. kids_of env (left_parent p) = Inr kids \<and> p_pid q = p_pid p \<and>
       p_trace q = p_trace (left_parent p) @ map PoisonWait kids"
  by (auto simp: cleanup_children_kids trace_left_parent(2) split: sum.splits dest!: trace_poison_all)

lemma trace_cleanup_self:
  assumes "cleanup_self env q = (p1, out)"
  shows "\<exists>us. p_trace p1 = p_trace q @ [InboxStop, RegistryRemove (p_pid q)] @ map UserEff us @
    (if out = Returned then [Broadcast (ActorStoppedEvent (Some (p_pid q)) (env_now env (moment p1 - 1)))] else [])"
proof -
  let ?q = "set_message Stopped (emit (RegistryRemove (p_pid q)) (emit InboxStop q))"
  obtain us where us: "p_trace (fst (recv_mw env ?q)) = p_trace q @ [InboxStop, RegistryRemove (p_pid q)] @ map UserEff us"
    using trace_recv_mw [of env ?q] by auto
  have "p_pid (fst (recv_mw env ?q)) = p_pid q" using frame_recv(2) [of ?q env] by (simp add: frame_def)
  then show ?thesis using us assms
    by (cases "recv_mw env ?q"; cases "snd (recv_mw env ?q)")
      (auto simp: cleanup_self_def seq_def moment_def)
qed

subsection \<open>Runs without panics\<close>

definition quiet :: "('u, 'r, 'e) env \<Rightarrow> ('u, 'r, 'e) Opts \<Rightarrow> bool" where
  "quiet env opts \<longleftrightarrow>
     (\<forall>c. snd (snd (env_receive env c)) = Returned) \<and>
     (\<forall>c. snd (snd (applyMiddleware (env_receive env) (o_Middleware opts) c)) = Returned)"

text \<open>Reading the children does not fail, and every child that is poisoned stops.\<close>

definition kids_ok :: "('u, 'r, 'e) env \<Rightarrow> bool" where
  "kids_ok env \<longleftrightarrow>
     (\<forall>t sm. \<exists>pids. Children sm (env_kids env t sm) (env_order env t (env_kids env t sm)) = Inr pids) \<and>
     (\<forall>t pid. env_done env t pid)"

lemma quiet_recv:
  assumes "quiet env (p_opts p)" "has_recv p"
  shows "snd (recv_mw env p) = Returned" "snd (recv_plain env p) = Returned"
  using assms by (simp_all add: quiet_def recv_mw_def recv_plain_def has_recv_def call_recv_def split: prod.splits)
    (metis snd_conv)+

lemma quiet_invokeMsg:
  assumes "quiet env (p_opts p)" "has_recv p"
  shows "\<exists>q. invokeMsg env m p = (q, Returned) \<and> progress (if is_pill (Msg m) then [] else [m]) p q"
proof -
  have "snd (invokeMsg env m p) = Returned" using assms by (auto simp: invokeMsg_def Let_def intro!: quiet_recv)
  then show ?thesis using invokeMsg_progress [of m p env] by (cases "invokeMsg env m p") auto
qed

lemma quiet_progress: "progress ms p q \<Longrightarrow> quiet env (p_opts p) \<Longrightarrow> has_recv p \<Longrightarrow> quiet env (p_opts q) \<and> has_recv q"
  by (simp add: progress_def)

lemma quiet_invoke_all:
  assumes "quiet env (p_opts p)" "has_recv p"
  shows "\<exists>q. invoke_all env ms p = (q, Returned) \<and> progress (filter (\<lambda>y. \<not> is_pill (Msg y)) ms) p q"
  using assms
proof (induction ms arbitrary: p)
  case (Cons m ms)
  obtain q where q: "invokeMsg env m p = (q, Returned)" "progress (if is_pill (Msg m) then [] else [m]) p q"
    using quiet_invokeMsg [OF Cons.prems] by blast
  obtain r where r: "invoke_all env ms q = (r, Returned)" "progress (filter (\<lambda>y. \<not> is_pill (Msg y)) ms) q r"
    using Cons.IH quiet_progress [OF q(2) Cons.prems] by blast
  show ?case using progress_trans [OF q(2) r(2)] q(1) r(1) by (auto simp: seq_def)
qed simp

lemma quiet_invoke_loop:
  assumes "quiet env (p_opts p)" "has_recv p" "no_pills xs"
  shows "\<exists>q. invoke_loop env msgs k j (xs @ rest) p = invoke_loop env msgs (k + length xs) (j + length xs) rest q \<and>
    progress xs p q"
  using assms
proof (induction xs arbitrary: p k j)
  case (Cons x xs)
  have x: "\<not> is_pill (Msg x)" "no_pills xs" using Cons.prems(3) by simp_all
  obtain q where q: "invokeMsg env x p = (q, Returned)" "progress [x] p q"
    using quiet_invokeMsg [OF Cons.prems(1,2), of x] x(1) by auto
  obtain r where r: "invoke_loop env msgs (Suc k) (Suc j) (xs @ rest) q =
      invoke_loop env msgs (Suc k + length xs) (Suc j + length xs) rest r" "progress xs q r"
    using Cons.IH quiet_progress [OF q(2) Cons.prems(1,2)] x(2) by blast
  show ?case using progress_trans [OF q(2) r(2)] q(1) r(1) x(1)
    by (auto simp: invoke_loop_msg simp del: invoke_loop.simps(2))
qed auto

lemma poison_all_done: "(\<And>t pid. env_done env t pid) \<Longrightarrow> snd (poison_all env pids p) = Returned"
  by (induction pids arbitrary: p) (auto simp: Let_def)

lemma quiet_cleanup:
  assumes "quiet env (p_opts p)" "kids_ok env" "has_recv p"
  shows "\<exists>q. cleanup env (Some c) p = (q, Returned) \<and> frame p q \<and> last (p_trace q) = CallCancel c"
proof -
  have "snd (cleanup_children env (left_parent p)) = Returned"
    using assms(2) poison_all_done [of env] by (auto simp: cleanup_children_def kids_ok_def Let_def split: sum.split) 
      (metis Inl_Inr_False)
  then obtain q where q: "cleanup_children env (left_parent p) = (q, Returned)" by (metis prod.collapse)
  have "frame p q" using frame_cleanup_children [of "left_parent p" env] q
    by (auto simp: left_parent_def frame_def invoked_emit split: if_splits)
  then have "snd (cleanup_self env q) = Returned"
    using quiet_recv(1) [of env "set_message Stopped (emit (RegistryRemove (p_pid q)) (emit InboxStop q))"] assms(1,3)
    by (cases "recv_mw env (set_message Stopped (emit (RegistryRemove (p_pid q)) (emit InboxStop q)))")
      (auto simp: cleanup_self_def seq_def frame_def)
  then have "snd (cleanup env (Some c) p) = Returned \<and> last (p_trace (fst (cleanup env (Some c) p))) = CallCancel c"
    using q by (cases "cleanup_self env q") (auto simp: cleanup_split seq_def run_cancel_def)
  then show ?thesis using frame_cleanup [of p env "Some c"] by (cases "cleanup env (Some c) p") auto
qed

end
