(* ===== verification/Process_Properties.thy ===== *)
theory Process_Properties
  imports Process_Runs
begin

text \<open>
  The properties of the life of an actor, with the small actor their witnesses run.
\<close>

subsection \<open>Properties\<close>

text \<open>An actor for the witnesses: it crashes on the message 13, and on nothing else.\<close>

definition demo_receive :: "(nat, unit, nat) ReceiveFunc" where
  "demo_receive c = (c, [], if c_message c = User 13 then Panicked (User 99) else Returned)"

definition demo_env :: "(nat, unit, nat) env" where
  "demo_env = \<lparr>env_receive = demo_receive, env_now = (\<lambda>t. t), env_stack = (\<lambda>_. []),
     env_parse = (\<lambda>_. None), env_itoa = (\<lambda>_. []), env_done = (\<lambda>_ _. True), env_kids = (\<lambda>_ m. m),
     env_order = (\<lambda>_ m. map fst (sm_data m))\<rparr>"

definition demo_opts :: "int \<Rightarrow> (nat, unit, nat) Opts" where
  "demo_opts n = spawn_opts (\<lambda>_. Inr ()) ''foo'' [WithMaxRestarts n, WithID ''1''] []"

definition demo_process :: "int \<Rightarrow> (nat, unit, nat) process" where
  "demo_process n = set_receiver () (newProcess ''local'' (demo_opts n))"

definition umsg :: "nat \<Rightarrow> nat Envelope" where
  "umsg n = \<lparr>Msg = User n, Sender = None\<rparr>"

definition pill :: "bool \<Rightarrow> nat Envelope" where
  "pill g = \<lparr>Msg = PoisonPill (Some 7) g, Sender = None\<rparr>"

text \<open>The same surroundings for an actor that accepts every message.\<close>

definition demo_quiet :: "(nat, unit, nat) env" where
  "demo_quiet = demo_env\<lparr>env_receive := (\<lambda>c. (c, [], Returned))\<rparr>"

lemma demo_kids_ok: "kids_ok demo_quiet"
proof -
  have "Children sm sm (map fst (sm_data sm)) =
      Inr (map (Some \<circ> snd) (gm_range (sm_data sm) (map fst (sm_data sm))) @
        replicate (sm_Len sm - length (gm_range (sm_data sm) (map fst (sm_data sm)))) None)" for sm
    by (rule Children_fits) (metis length_gm_range_le length_map sm_Len_def)
  then show ?thesis by (simp add: kids_ok_def demo_quiet_def demo_env_def)
qed

lemma demo_stopped_ok: "stopped_ok demo_env"
  by (simp add: stopped_ok_def demo_env_def demo_receive_def)

lemma demo_calm: "calm demo_env (p_opts (demo_process n))"
  by (simp add: calm_def demo_env_def demo_receive_def demo_process_def newProcess_def demo_opts_def spawn_opts_def
      WithMaxRestarts_def WithID_def DefaultOpts_def applyMiddleware_def Let_def)

text \<open>C3: A batch without poison pills is handed to the receiver in order and every message exactly once,
  whatever the receiver does, over all the restarts its panics cause: when \<^verbatim>\<open>Invoke\<close> returns, the messages
  received are those of the batch; when it panics itself, those received and those still buffered are; when it
  blocks, a prefix was received. The message that caused a panic is not received again. The receiver must
  not panic when it is told that it is stopped.\<close>

theorem invoke_exactly_once:
  assumes "stopped_ok env" "has_recv p" "no_pills msgs" "Invoke env n msgs p = Some (p', out)"
  shows "case out of
      Returned \<Rightarrow> invoked p' = invoked p @ msgs
    | Panicked v \<Rightarrow> invoked p' @ p_mbuffer p' = invoked p @ msgs
    | Blocked \<Rightarrow> \<exists>rest. invoked p' @ rest = invoked p @ msgs"
proof -
  have "once (invoked p @ msgs) (p', out)" using once_all [OF assms(1), of n] assms(2-4) by blast
  then show ?thesis by (auto simp: once_def split: outcome.splits)
qed

theorem invoke_exactly_once_witness:
  "\<exists>p'. Invoke demo_env 11 [umsg 1, umsg 13, umsg 2, umsg 3] (demo_process 3) = Some (p', Returned) \<and>
     invoked p' = [umsg 1, umsg 13, umsg 2, umsg 3]"
proof -
  have "map_option snd (Invoke demo_env 11 [umsg 1, umsg 13, umsg 2, umsg 3] (demo_process 3)) = Some Returned"
    by code_simp
  then obtain p' where p': "Invoke demo_env 11 [umsg 1, umsg 13, umsg 2, umsg 3] (demo_process 3) = Some (p', Returned)"
    by auto
  have "has_recv (demo_process 3)" "invoked (demo_process 3) = []" by (code_simp, code_simp)
  moreover have "no_pills [umsg 1, umsg 13, umsg 2, umsg 3]" by code_simp
  ultimately show ?thesis using invoke_exactly_once [OF demo_stopped_ok _ _ p'] p' by simp
qed



text \<open>C18: The restart counter is kept: over any run of \<^verbatim>\<open>Start\<close>, \<^verbatim>\<open>Invoke\<close> or \<^verbatim>\<open>tryRestart\<close>, with however many
  nested restarts, the number of restart events broadcast plus the restarts left does not change, so that an
  actor never announces more restarts than it has left.\<close>

theorem restart_budget:
  assumes "Start env n p = Some r \<or> Invoke env n msgs p = Some r \<or> tryRestart env n v p = Some r"
  shows "restart_events (fst r) + budget (fst r) = restart_events p + budget p \<and>
    restart_events (fst r) - restart_events p \<le> budget p"
proof -
  have "steady p (fst r)" using assms steady_run by blast
  then show ?thesis by (auto simp: steady_def)
qed

theorem restart_budget_witness:
  "\<exists>p'. Start demo_env 12 ((demo_process 3)\<lparr>p_mbuffer := [umsg 13, umsg 1, umsg 13]\<rparr>) = Some (p', Returned) \<and>
     restart_events p' = 2 \<and> budget p' = 1"
proof -
  let ?p = "(demo_process 3)\<lparr>p_mbuffer := [umsg 13, umsg 1, umsg 13]\<rparr>"
  have "map_option (\<lambda>(p, out). (restart_events p, out)) (Start demo_env 12 ?p) = Some (2, Returned)"
    by code_simp
  then obtain p' where p': "Start demo_env 12 ?p = Some (p', Returned)" "restart_events p' = 2" by auto
  have "restart_events ?p = 0" "budget ?p = 3" by (code_simp, code_simp)
  then show ?thesis using restart_budget [of demo_env 12 ?p "(p', Returned)"] p' by simp
qed





text \<open>C34: The clean-up after the last restart, and \<^verbatim>\<open>Shutdown\<close>, never return: both pass a nil cancel function, which
  is called when \<^verbatim>\<open>cleanup\<close> is done. An actor that has used up its restarts does not just stop, its panic
  leaves the goroutine.\<close>

theorem max_restarts_panics:
  assumes "p_restarts p = o_MaxRestarts (p_opts p)" "\<not> is_internal v" "tryRestart env (Suc n) v p = Some (p', out)"
  shows "out \<noteq> Returned \<and> (out = Blocked \<or> (\<exists>e. out = Panicked (RuntimeError e))) \<and> snd (Shutdown env p) \<noteq> Returned"
proof -
  have nil: "snd (cleanup env None q) = Blocked \<or> snd (cleanup env None q) = Panicked (RuntimeError NilDeref)" for q
    by (auto simp: cleanup_def run_cancel_def split: prod.splits outcome.splits)
  have "(\<exists>e. out = Panicked (RuntimeError e)) \<or> (p', out) = max_restarts_exceeded env p"
    using assms by (auto simp: tryRestart_other simp del: tryRestart.simps(2) split: sum.splits)
  then show ?thesis using nil [of p] nil [of "emit (Broadcast (ActorMaxRestartsExceededEvent (Some (p_pid p)) (env_now env (moment p)))) p"]
    by (auto simp: max_restarts_exceeded_def Shutdown_def dest: arg_cong [of _ _ snd])
qed

theorem max_restarts_panics_witness:
  "\<exists>p' out. tryRestart demo_env 1 (User 99) (demo_process 0) = Some (p', out) \<and> out \<noteq> Returned \<and>
     snd (Shutdown demo_env (demo_process 0)) \<noteq> Returned"
proof -
  have "map_option snd (tryRestart demo_env 1 (User 99) (demo_process 0)) = Some (Panicked (RuntimeError NilDeref))"
    by code_simp
  then obtain p' out where r: "tryRestart demo_env (Suc 0) (User 99) (demo_process 0) = Some (p', out)" by auto
  have "p_restarts (demo_process 0) = o_MaxRestarts (p_opts (demo_process 0))" by code_simp
  from max_restarts_panics [OF this _ r] r show ?thesis by simp
qed

text \<open>C19: A graceful poison pill lets the actor finish its batch, a plain one does not. When no call of the receiver panics or
  blocks and every child stops, the messages before the pill are received, then, for a graceful pill,
  those after it, each once and in order; then the actor cleans up and cancels the stopper's context.\<close>

theorem pill_drains:
  assumes "quiet env (p_opts p)" "kids_ok env" "has_recv p" "no_pills xs" "Msg m = PoisonPill (Some c) graceful"
  shows "\<exists>p'. Invoke env (Suc n) (xs @ m # ys) p = Some (p', Returned) \<and>
    invoked p' = invoked p @ xs @ (if graceful then filter (\<lambda>y. \<not> is_pill (Msg y)) ys else []) \<and>
    last (p_trace p') = CallCancel c"
proof -
  let ?msgs = "xs @ m # ys"
  obtain q where q: "invoke_loop env ?msgs 0 0 ?msgs p = invoke_loop env ?msgs (length xs) (length xs) (m # ys) q"
    "progress xs p q" using quiet_invoke_loop [OF assms(1,3,4), of ?msgs 0 0 "m # ys"] by auto
  have h: "quiet env (p_opts q)" "has_recv q" "invoked q = invoked p @ xs" using q(2) assms(1,3) by (auto simp: progress_def)
  obtain q' where q': "(if graceful then invoke_all env (m # ys) q else (q, Returned)) = (q', Returned)"
    "progress (if graceful then filter (\<lambda>y. \<not> is_pill (Msg y)) ys else []) q q'"
    using quiet_invoke_all [OF h(1,2), of "m # ys"] assms(5) by (cases graceful) auto
  obtain p' where p': "cleanup env (Some c) q' = (p', Returned)" "frame q' p'" "last (p_trace p') = CallCancel c"
    using quiet_cleanup [of env q' c] q'(2) h assms(2) by (auto simp: progress_def)
  have "invoke_loop env ?msgs (length xs) (length xs) (m # ys) q =
      (seq (if graceful then invoke_all env (m # ys) q else (q, Returned)) (cleanup env (Some c)), length xs + 1)"
    using invoke_loop_pill [OF assms(5), of env ?msgs "length xs" "length xs" ys q]
    by (simp del: invoke_loop.simps invoke_all.simps)
  then have "invoke_loop env ?msgs 0 0 ?msgs p = ((p', Returned), length xs + 1)"
    unfolding q(1) q'(1) by (simp add: seq_def p'(1) del: invoke_loop.simps)
  then have "Invoke env (Suc n) ?msgs p = Some (p', Returned)" by (simp add: recovering_def)
  moreover have "invoked p' = invoked q'" using p'(2) by (simp add: frame_def)
  ultimately show ?thesis using q'(2) h(3) p'(3) by (auto simp: progress_def)
qed

theorem pill_drains_witness:
  "\<exists>p'. Invoke demo_quiet 1 [umsg 1, pill True, umsg 2, pill False, umsg 3] (demo_process 3) = Some (p', Returned) \<and>
     invoked p' = [umsg 1, umsg 2, umsg 3] \<and> last (p_trace p') = CallCancel 7"
proof -
  have "has_recv (demo_process 3)" "invoked (demo_process 3) = []" by (code_simp, code_simp)
  moreover have "quiet demo_quiet (p_opts (demo_process 3))"
    by (simp add: quiet_def demo_quiet_def demo_env_def demo_process_def newProcess_def demo_opts_def spawn_opts_def
      WithMaxRestarts_def WithID_def DefaultOpts_def applyMiddleware_def Let_def)
  moreover have "Msg (pill True) = PoisonPill (Some 7) True" "no_pills [umsg 1]" by (simp_all add: pill_def umsg_def)
  ultimately show ?thesis
    using pill_drains [of demo_quiet "demo_process 3" "[umsg 1]" "pill True" 7 True 0 "[umsg 2, pill False, umsg 3]"]
    by (simp add: demo_kids_ok) (simp add: pill_def umsg_def)
qed



text \<open>A pill behind a message that panics is handled while the actor restarts, and \<^verbatim>\<open>Start\<close> then starts the inbox of
  the actor that has just been stopped, left the registry and reported its end.\<close>

theorem dead_actor_inbox_started:
  "map_option (\<lambda>(p, out). (filter (\<lambda>ef. ef \<in> {InboxStart, InboxStop, RegistryRemove (p_pid p), CallCancel 7}) (p_trace p), out))
     (Invoke demo_env 12 [umsg 13, pill True] (demo_process 3)) =
   Some ([InboxStop, RegistryRemove (NewPID ''local'' ''foo/1''), CallCancel 7, InboxStart], Returned)"
  by code_simp

end
