(* ===== verification/Spec2Isabelle.thy ===== *)
theory Spec2Isabelle
  imports Setup Convergence Strategy Trade Chat Tcp Process_Properties
begin

text \<open>
  A verification of the actor engine in \<^verbatim>\<open>src/\<close>: the ring buffer and the inbox that carry an actor's messages, the process
  that hands them to the receiver and restarts it, the engine that routes between processes, the remote that
  connects two engines, and the cluster that keeps members and a directory of actors over many.

  \<^bold>\<open>How the parts interact.\<close> \<^verbatim>\<open>Engine.send\<close> looks a PID up in the registry, or hands the message to the remote if the
  address is another one. A process puts messages into its inbox, a ring buffer with a worker that takes batches of
  them and calls \<^verbatim>\<open>process.Invoke\<close>. The remote's stream router keeps a stream writer per address; a writer
  packs batches into envelopes that the stream reader of the other engine unpacks. In a cluster every node runs an
  agent, which keeps the members and the directory, and a provider, which tells the agent who the members are.

  \<^bold>\<open>Conventions.\<close> A call that can panic has type \<^typ>\<open>'a go\<close>. A Go map is an association list, and whatever iterates over one takes the
  iteration order as an argument. A nil pointer is \<open>None\<close>. Calls on processes and on the remote are returned as a list in
  program order. Arguments named \<open>env\<close> hold what the run time decides: iteration orders, random numbers, identities
  of new objects, answers of other nodes. Integers keep their width where they can wrap around (the restart
  counter, the indexes on the wire); the ring buffer's are unbounded, since its capacity is below the length of a Go slice.

  \<^bold>\<open>Theories and sources.\<close>
  \<^item> \<open>Prelude\<close>: panics, slices, loops and maps of Go. \<open>Deque\<close>, \<open>KeyedSet\<close>: the locales \<open>deque\<close> and \<open>keyed_set\<close>.
  \<^item> \<open>RingBuffer\<close> (\<^verbatim>\<open>ringbuffer/ringbuffer.go\<close>), every method, as an instance of \<open>deque\<close>; \<open>SafeMap\<close> (\<^verbatim>\<open>safemap/safemap.go\<close>), as an
    instance of \<open>kv_map\<close>.
  \<^item> \<open>PID\<close> (\<^verbatim>\<open>actor/pid.go\<close>, \<^verbatim>\<open>actor/pid_map.go\<close>), as an instance of \<open>keyed_set\<close>; \<open>Message\<close> (\<^verbatim>\<open>actor/event.go\<close>, \<^verbatim>\<open>actor/types.go\<close>).
  \<^item> \<open>Inbox\<close> (\<^verbatim>\<open>actor/inbox.go\<close>): the methods as atomic steps of any number of goroutines on a ring buffer.
  \<^item> \<open>Registry\<close> (\<^verbatim>\<open>actor/registry.go\<close>), as an instance of \<open>directory\<close>; \<open>Engine\<close> (\<^verbatim>\<open>actor/engine.go\<close>, \<^verbatim>\<open>actor/response.go\<close>); \<open>Opts\<close>
    (\<^verbatim>\<open>actor/opts.go\<close>); \<open>Context\<close> (\<^verbatim>\<open>actor/context.go\<close> and spawning); \<open>Action\<close>: what an actor does with a message, as the calls it makes and
    its value or panic, and the lemmas on sending and on spawning children that the actors below share.
  \<^item> \<open>Process\<close>, \<open>Process_Runs\<close>, \<open>Process_Properties\<close> (\<^verbatim>\<open>actor/process.go\<close>); \<open>EventStream\<close> (\<^verbatim>\<open>actor/event_stream.go\<close>).
  \<^item> \<open>Serialize\<close>, \<open>Wire\<close> (\<^verbatim>\<open>remote/serialize.go\<close>, \<^verbatim>\<open>remote/protoreg.go\<close>, \<^verbatim>\<open>remote/stream_reader.go\<close> and packing in
    \<^verbatim>\<open>remote/stream_writer.go\<close>), with the look-up tables as instances of \<open>interner\<close>; \<open>Remote\<close> (\<^verbatim>\<open>remote/remote.go\<close>,
    \<^verbatim>\<open>remote/stream_router.go\<close>, the rest of \<^verbatim>\<open>remote/stream_writer.go\<close>).
  \<^item> \<open>Members\<close> (\<^verbatim>\<open>cluster/member_set.go\<close>, \<^verbatim>\<open>util.go\<close>, \<^verbatim>\<open>kind.go\<close>, \<^verbatim>\<open>event.go\<close>, \<^verbatim>\<open>activation.go\<close>), the member set as an instance of
    \<open>keyed_set\<close>; \<open>Agent\<close>, \<open>Agent_Properties\<close> (\<^verbatim>\<open>cluster/agent.go\<close>), the directory of actors as an instance of \<open>directory\<close>, the agent
    as one of \<open>member_sink\<close>; \<open>Convergence\<close>: several agents; \<open>Cluster\<close> (\<^verbatim>\<open>cluster/cluster.go\<close>).
  \<^item> \<open>Net\<close>: \<^verbatim>\<open>net.SplitHostPort\<close> and \<^verbatim>\<open>strconv.Atoi\<close>. \<open>SelfManaged\<close>, \<open>Provider\<close> (\<^verbatim>\<open>cluster/selfmanaged.go\<close>); \<open>Consul\<close>
    (\<^verbatim>\<open>cluster/consul_provider.go\<close>). \<open>Setup\<close>: the configurations of an engine and of a cluster, and a node from its configuration to the
    running agent and provider.
  \<^item> Programs on top of the library, under \<^verbatim>\<open>examples/\<close>: \<open>Strategy\<close> (\<^verbatim>\<open>cluster/shared/activation_strategy.go\<close>), \<open>Trade\<close> (\<^verbatim>\<open>trade-engine/\<close>: the engine,
    price watcher and executor actors), \<open>Chat\<close> (\<^verbatim>\<open>chat/server\<close>, \<^verbatim>\<open>chat/client\<close>), \<open>Tcp\<close> (\<^verbatim>\<open>tcpserver/\<close>: server, sessions and handler).

  Definitions have the name of the Go function or type; a prefix tells apart the methods of different types (\<open>ib_\<close> inbox, \<open>rg_\<close>
  registry, \<open>sm_\<close> safe map, \<open>ps_\<close> PID set, \<open>c_\<close> context, \<open>eng_\<close> engine, \<open>es_\<close> event stream, \<open>rem_\<close> remote, \<open>rt_\<close> router, \<open>sw_\<close> and
  \<open>sr_\<close> stream writer and reader, \<open>ms_\<close> member set, \<open>ag_\<close> agent, \<open>cl_\<close> cluster, \<open>sf_\<close> and \<open>cp_\<close> the providers;
  \<open>pw_\<close>, \<open>ex_\<close>, \<open>te_\<close>, \<open>tr_\<close> the trading actors, \<open>ch_\<close>, \<open>cc_\<close> the chat, \<open>sv_\<close>, \<open>ss_\<close> the TCP server).

  \<^bold>\<open>What is shown.\<close>
  \<^item> Queues: the ring buffer is a list deque on every call sequence and never panics with a positive size. An inbox loses no
    message and no wake-up under any interleaving, keeps the order, and has one worker at a time.
  \<^item> Processes: every message of a batch is received once and in order over all restarts; restarts are counted and end;
    cleaning up follows its order; a graceful pill drains the batch.
  \<^item> Engine: the registry is a map with first owners; with the event stream registered every send is routed and returns;
    requests get their reply; pills are delivered or cancelled; events go to exactly the subscribers.
  \<^item> Remote: a batch survives the wire; the router's table matches the registered writers over every history; a
    delivery reaches its writer or becomes a dead letter.
  \<^item> Cluster: the agent stays well formed and never panics on messages that carry their PIDs, follows the member lists exactly,
    answers queries exactly and hands its directory to new members; agents that hear of the same actors in any order end with the
    same directory; a node made from its configuration runs exactly the router, the event stream, the agent and the provider, found where its
    member record says; both providers give the agent exactly the members they know.
  \<^item> Examples: the region strategy picks a member of the right region; a price watcher updates each subscriber once per tick; the chat
    server forwards to exactly the other clients; what a TCP session reads reaches the handler in order.
  \<^item> Where the code does not do what it means to, a theorem exhibits it: nil functions and pointers (restarts used up, unreachable
    remotes with TLS, unknown hosts, failed local activations), lost pills, endless dead letters, names that
    are not unique, children of the trading engine that it never finds, chat clients that cannot come back.

  \<^bold>\<open>Fuel.\<close> Sends and broadcasts call each other, and so do \<^verbatim>\<open>Start\<close>, \<^verbatim>\<open>Invoke\<close> and \<^verbatim>\<open>tryRestart\<close>: these take a bound on
    the depth and return \<open>None\<close> if it is used up. For the engine one level is enough as long as the event stream is registered or
    absent (\<open>BroadcastEvent_ok\<close>, \<open>send_ok\<close>), and otherwise no bound is; for a process the bound is computed from the restarts left.

  \<^bold>\<open>Not modelled.\<close> Generated protobuf and DRPC code (the encoding of a single message is a parameter of the serializers); sockets and
  TLS (their results are parameters); logging in the cluster and the remote; the benchmark, which measures time; the \<^verbatim>\<open>main\<close> functions and the other
  example programs, which are a few calls of the library around the console, JSON files (\<^verbatim>\<open>persistance\<close>), the zeroconf library (\<^verbatim>\<open>mdns\<close>) and the
  Prometheus library (\<^verbatim>\<open>metrics\<close>). The middleware, the receiver, the clock, the xxh3 hash, zeroconf and Consul are parameters.
  Data races on a receiver's own fields (the goroutines of the TCP server use the context of their actor) are outside the model, in which each
  handler and each round of a loop is one step.
\<close>

end
